(* ===== verification/Prelude.thy ===== *)
theory Prelude
  imports Main "HOL-Library.Word"
begin

text \<open>
  Shared vocabulary of the development: the machine-integer types of the Rust
  code, the checked slice operations of \<open>Vec\<close> and \<open>&[T]\<close> (a Rust slice panics out
  of range, here that is \<open>None\<close>), the saturating and checked integer operations,
  and the generic list lemmas the components share.  The collection
  \<open>slice_simps\<close> gathers the facts that discharge range checks.
\<close>

named_theorems slice_simps \<open>facts that decide the range checks of checked slices\<close>

section \<open>Machine integers\<close>

type_synonym u8 = "8 word"
type_synonym u16 = "16 word"
type_synonym u32 = "32 word"
type_synonym u64 = "64 word"
type_synonym bytes = "u8 list"

section \<open>Checked slices\<close>

text \<open>\<open>&xs[i..j]\<close>: panics (\<open>None\<close>) unless \<open>i \<le> j\<close> and \<open>j \<le> len\<close>.\<close>

definition slice :: "nat \<Rightarrow> nat \<Rightarrow> 'a list \<Rightarrow> 'a list option" where
  "slice i j xs = (if i \<le> j \<and> j \<le> length xs then Some (take (j - i) (drop i xs)) else None)"

text \<open>
  \<open>xs[i..j].copy_from_slice(ys)\<close>: panics out of range, and when the lengths of
  the two slices differ.
\<close>

definition slice_write :: "nat \<Rightarrow> nat \<Rightarrow> 'a list \<Rightarrow> 'a list \<Rightarrow> 'a list option" where
  "slice_write i j ys xs =
     (if i \<le> j \<and> j \<le> length xs \<and> length ys = j - i
      then Some (take i xs @ ys @ drop j xs) else None)"

lemma slice_in_range [slice_simps]:
  "i \<le> j \<Longrightarrow> j \<le> length xs \<Longrightarrow> slice i j xs = Some (take (j - i) (drop i xs))"
  by (simp add: slice_def)

lemma slice_write_in_range [slice_simps]:
  "i \<le> j \<Longrightarrow> j \<le> length xs \<Longrightarrow> length ys = j - i \<Longrightarrow>
   slice_write i j ys xs = Some (take i xs @ ys @ drop j xs)"
  by (simp add: slice_write_def)

section \<open>The last elements of a list\<close>

definition lastn :: "nat \<Rightarrow> 'a list \<Rightarrow> 'a list" where
  "lastn n xs = drop (length xs - n) xs"

lemma length_lastn [simp]: "length (lastn n xs) = min n (length xs)"
  by (simp add: lastn_def)

lemma lastn_all [simp]: "length xs \<le> n \<Longrightarrow> lastn n xs = xs"
  by (simp add: lastn_def)

lemma lastn_append_long: "n \<le> length ys \<Longrightarrow> lastn n (xs @ ys) = lastn n ys"
  by (simp add: lastn_def)

lemma lastn_append_short:
  "length ys \<le> n \<Longrightarrow> lastn n (xs @ ys) = lastn (n - length ys) xs @ ys"
  by (simp add: lastn_def)

lemma lastn_lastn_append: "lastn n (lastn n xs @ ys) = lastn n (xs @ ys)"
proof (cases "n \<le> length ys")
  case True
  then show ?thesis by (simp add: lastn_append_long)
next
  case False
  then have "length xs - n + (n - length ys) = length xs - length ys \<or> length xs \<le> n"
    by arith
  then have "lastn (n - length ys) (lastn n xs) = lastn (n - length ys) xs"
    using False by (auto simp: lastn_def add.commute)
  with False show ?thesis by (simp add: lastn_append_short)
qed

lemma lastn_append_lastn: "lastn n (xs @ lastn n ys) = lastn n (xs @ ys)"
proof (cases "n \<le> length ys")
  case True
  then show ?thesis by (simp add: lastn_append_long)
next
  case False
  then show ?thesis by simp
qed

lemma lastn_refill:
  assumes "k \<le> length ys" and "length xs + k = n" and "length ys \<le> n"
  shows "drop (length ys - k) (xs @ take k ys) @ drop k ys = lastn n (xs @ ys)"
proof -
  from assms have d: "length xs + length ys - n = length ys - k" "length ys - k \<le> length xs"
    by simp_all
  then show ?thesis by (simp add: lastn_def)
qed

section \<open>Running a fallible operation over a list\<close>

primrec fold_opt :: "('a \<Rightarrow> 's \<Rightarrow> 's option) \<Rightarrow> 'a list \<Rightarrow> 's \<Rightarrow> 's option" where
  "fold_opt f [] s = Some s"
| "fold_opt f (x # xs) s = (case f x s of None \<Rightarrow> None | Some s' \<Rightarrow> fold_opt f xs s')"

section \<open>Splitting at a separator\<close>

text \<open>\<open>slice::split\<close> and \<open>str::split\<close>: always at least one piece.\<close>

fun split_on :: "'a \<Rightarrow> 'a list \<Rightarrow> 'a list list" where
  "split_on c [] = [[]]"
| "split_on c (x # xs) =
     (if x = c then [] # split_on c xs
      else (case split_on c xs of [] \<Rightarrow> [[x]] | p # ps \<Rightarrow> (x # p) # ps))"

lemma split_on_nonempty [simp]: "split_on c xs \<noteq> []"
  by (induction xs) (auto split: list.splits)

lemma split_on_none [simp]: "c \<notin> set xs \<Longrightarrow> split_on c xs = [xs]"
  by (induction xs) auto

lemma split_on_sep [simp]: "c \<notin> set xs \<Longrightarrow> split_on c (xs @ c # ys) = xs # split_on c ys"
  by (induction xs) auto

section \<open>Decimal text\<close>

fun dec_digits :: "nat \<Rightarrow> nat list" where
  "dec_digits n = (if n < 10 then [n] else dec_digits (n div 10) @ [n mod 10])"

declare dec_digits.simps [simp del]

definition is_digit :: "u8 \<Rightarrow> bool" where
  "is_digit b \<longleftrightarrow> 48 \<le> b \<and> b \<le> 57"

definition dec_bytes :: "nat \<Rightarrow> bytes" where
  "dec_bytes n = map (\<lambda>d. word_of_nat (48 + d)) (dec_digits n)"

definition dec_value :: "bytes \<Rightarrow> nat" where
  "dec_value bs = foldl (\<lambda>acc b. acc * 10 + (unat b - 48)) 0 bs"

lemma dec_digits_lt: "d \<in> set (dec_digits n) \<Longrightarrow> d < 10"
proof (induction n rule: dec_digits.induct)
  case (1 n)
  then show ?case
    by (cases "n < 10") (auto simp: dec_digits.simps [of n])
qed

lemma dec_digits_value: "foldl (\<lambda>acc d. acc * 10 + d) 0 (dec_digits n) = n"
proof (induction n rule: dec_digits.induct)
  case (1 n)
  then show ?case
    by (cases "n < 10") (auto simp: dec_digits.simps [of n])
qed

lemma dec_digits_length: "n < 10 ^ k \<Longrightarrow> 0 < k \<Longrightarrow> length (dec_digits n) \<le> k"
proof (induction n arbitrary: k rule: dec_digits.induct)
  case (1 n)
  show ?case
  proof (cases "n < 10")
    case True
    with "1.prems" show ?thesis by (simp add: dec_digits.simps [of n])
  next
    case False
    then obtain k' where k: "k = Suc k'" "0 < k'"
      using "1.prems" by (cases k; cases "k - 1") auto
    with "1.prems" have "n div 10 < 10 ^ k'" by (auto simp: less_mult_imp_div_less mult.commute)
    with "1.IH" [OF False, of k'] k False show ?thesis by (simp add: dec_digits.simps [of n])
  qed
qed

lemma dec_digits_nonempty [simp]: "dec_digits n \<noteq> []"
  by (subst dec_digits.simps) simp

lemma dec_bytes_nonempty [simp]: "dec_bytes n \<noteq> []"
  by (simp add: dec_bytes_def)

lemma unat_digit_byte: "d < 10 \<Longrightarrow> unat (word_of_nat (48 + d) :: u8) = 48 + d"
  by (simp add: unat_of_nat take_bit_nat_eq_self del: of_nat_add)

lemma dec_bytes_digit: "b \<in> set (dec_bytes n) \<Longrightarrow> is_digit b"
  by (auto simp: dec_bytes_def is_digit_def word_le_nat_alt unat_digit_byte dec_digits_lt
      dest!: dec_digits_lt simp del: of_nat_add)

lemma dec_value_bytes [simp]: "dec_value (dec_bytes n) = n"
proof -
  have "foldl (\<lambda>acc b. acc * 10 + (unat (b::u8) - 48)) a (map (\<lambda>d. word_of_nat (48 + d)) ds) =
        foldl (\<lambda>acc d. acc * 10 + d) a ds" if "\<forall>d \<in> set ds. d < 10" for ds a
    using that by (induction ds arbitrary: a) (auto simp: unat_digit_byte simp del: of_nat_add)
  then show ?thesis
    by (simp add: dec_value_def dec_bytes_def dec_digits_value dec_digits_lt)
qed

section \<open>Text\<close>

text \<open>
  A Rust string is the list of the code points of its characters; \<open>lit\<close> gives the one of a
  literal, \<open>blit\<close> the bytes of a byte-string literal.
\<close>

type_synonym utext = "nat list"

definition lit :: "string \<Rightarrow> utext" where
  "lit s = map of_char s"

lemma lit_simps [simp]: "lit [] = []" "lit (c # s) = of_char c # lit s" "lit (s @ t) = lit s @ lit t"
  by (simp_all add: lit_def)

definition dec_text :: "nat \<Rightarrow> utext" where
  "dec_text n = map (\<lambda>d. 48 + d) (dec_digits n)"

definition blit :: "string \<Rightarrow> bytes" where
  "blit s = map of_char s"

section \<open>Counters\<close>

lemma unat_succ_u64: "(w :: u64) \<noteq> - 1 \<Longrightarrow> unat (w + 1) = unat w + 1"
proof -
  assume w: "w \<noteq> - 1"
  have "unat (- 1 :: u64) = 2 ^ 64 - 1" by (simp add: unsigned_minus_1_eq_mask mask_eq_exp_minus_1)
  with w have "unat w \<noteq> 2 ^ 64 - 1" by (metis word_unat_eq_iff)
  moreover have "unat w < 2 ^ 64" using unsigned_less [of w, where 'a = nat] by simp
  ultimately show ?thesis by (simp add: unat_word_ariths)
qed

lemma less_succ_word: "(w :: u64) \<noteq> - 1 \<Longrightarrow> w < w + 1"
  by (simp add: word_less_nat_alt unat_succ_u64)

end
