(* ===== verification/Ring_Buffer.thy ===== *)
theory Ring_Buffer
  imports Prelude
begin

text \<open>
  The scrollback ring of the relay daemon (\<open>crates/relay/src/ring_buffer.rs\<close>).
  The storage grows with the output up to the capacity and is then overwritten in
  place.  The heap reservation (\<open>reserve_exact\<close>) changes no value and is left out.
  Every slice the code takes is a checked slice, so a panic is \<open>None\<close> and the
  lemmas show that none can happen.
\<close>

section \<open>State and operations\<close>

record ring =
  buf :: bytes
  cap :: nat
  head :: nat
  len :: nat

definition ring_new :: "nat \<Rightarrow> ring option" where
  "ring_new capacity =
     (if 0 < capacity then Some \<lparr>buf = [], cap = capacity, head = 0, len = 0\<rparr> else None)"

definition ring_is_empty :: "ring \<Rightarrow> bool" where
  "ring_is_empty r \<longleftrightarrow> len r = 0"

text \<open>The wrapped copy into full storage.\<close>

definition ring_overwrite :: "bytes \<Rightarrow> ring \<Rightarrow> ring option" where
  "ring_overwrite bytes r =
     (let n = length bytes in
      if n = 0 then Some r
      else
        let space_after_head = cap r - head r;
            written =
              (if n \<le> space_after_head
               then slice_write (head r) (head r + n) bytes (buf r)
               else
                 let first = space_after_head; second = n - first in
                 (case slice 0 first bytes of None \<Rightarrow> None | Some b1 \<Rightarrow>
                  (case slice_write (head r) (cap r) b1 (buf r) of None \<Rightarrow> None | Some buf1 \<Rightarrow>
                   (case slice first n bytes of None \<Rightarrow> None | Some b2 \<Rightarrow>
                      slice_write 0 second b2 buf1))))
        in (case written of None \<Rightarrow> None
            | Some buf' \<Rightarrow> Some (r\<lparr>buf := buf', head := (head r + n) mod cap r,
                                   len := min (len r + n) (cap r)\<rparr>)))"

definition ring_push :: "bytes \<Rightarrow> ring \<Rightarrow> ring option" where
  "ring_push input r =
     (let c = cap r;
          bytes = (if length input > c then drop (length input - c) input else input) in
      if length (buf r) < c then
        let tk = min (length bytes) (c - length (buf r));
            buf' = buf r @ take tk bytes
        in ring_overwrite (drop tk bytes)
             (r\<lparr>buf := buf', len := length buf', head := length buf' mod c\<rparr>)
      else ring_overwrite bytes r)"

definition ring_snapshot :: "ring \<Rightarrow> bytes option" where
  "ring_snapshot r =
     (if len r = 0 then Some []
      else
        let c = cap r; start = (head r + c - len r) mod c in
        if start + len r \<le> c then slice start (start + len r) (buf r)
        else
          let first = c - start in
          (case slice start c (buf r) of None \<Rightarrow> None | Some a \<Rightarrow>
           (case slice 0 (len r - first) (buf r) of None \<Rightarrow> None | Some b \<Rightarrow>
              Some (a @ b))))"

section \<open>Invariant and abstraction\<close>

text \<open>
  While the storage grows it holds the bytes oldest first and \<open>head\<close> is its length;
  once full, \<open>head\<close> is the oldest byte.
\<close>

definition ring_inv :: "ring \<Rightarrow> bool" where
  "ring_inv r \<longleftrightarrow> 0 < cap r \<and> len r = length (buf r) \<and> length (buf r) \<le> cap r \<and>
     head r < cap r \<and> (length (buf r) < cap r \<longrightarrow> head r = length (buf r))"

definition ring_view :: "ring \<Rightarrow> bytes" where
  "ring_view r = (if length (buf r) < cap r then buf r
                  else drop (head r) (buf r) @ take (head r) (buf r))"

lemma ring_new_inv: "ring_new c = Some r \<Longrightarrow> ring_inv r \<and> ring_view r = [] \<and> cap r = c"
  by (auto simp: ring_new_def ring_inv_def ring_view_def split: if_splits)

lemma ring_overwrite_nil [simp]: "ring_overwrite [] r = Some r"
  by (simp add: ring_overwrite_def)

lemma ring_view_full_upd:
  "length b = cap r \<Longrightarrow> ring_view (r\<lparr>buf := b, head := h, len := l\<rparr>) = drop h b @ take h b"
  by (simp add: ring_view_def)

lemma ring_view_growing_upd:
  "length b \<le> cap r \<Longrightarrow>
   ring_view (r\<lparr>buf := b, len := l, head := length b mod cap r\<rparr>) = b"
  by (cases "length b = cap r") (simp_all add: ring_view_def)

text \<open>Overwriting full storage is rotation: the oldest bytes go, the new ones come last.\<close>

lemma ring_overwrite_full:
  assumes inv: "ring_inv r" and full: "length (buf r) = cap r" and n: "length bs \<le> cap r"
  shows "\<exists>r'. ring_overwrite bs r = Some r' \<and> ring_inv r' \<and> cap r' = cap r \<and>
              ring_view r' = drop (length bs) (ring_view r) @ bs"
proof (cases "bs = []")
  case True
  with inv show ?thesis by simp
next
  case ne: False
  let ?h = "head r" and ?c = "cap r" and ?n = "length bs" and ?b = "buf r"
  have h: "?h < ?c" and c: "0 < ?c" and l: "len r = ?c"
    using inv full by (auto simp: ring_inv_def)
  show ?thesis
  proof (cases "?n \<le> ?c - ?h")
    case fits: True
    let ?b' = "take ?h ?b @ bs @ drop (?h + ?n) ?b"
    have hn: "?h + ?n \<le> ?c" using fits h by simp
    have ow: "ring_overwrite bs r =
        Some (r\<lparr>buf := ?b', head := (?h + ?n) mod ?c, len := ?c\<rparr>)"
      using ne fits hn full l by (simp add: ring_overwrite_def slice_simps Let_def)
    show ?thesis
    proof (cases "?h + ?n = ?c")
      case True
      then have "drop (?h + ?n) ?b = []" using full by simp
      with True ow show ?thesis using h c full n
        by (auto simp: ring_inv_def ring_view_def)
    next
      case False
      with hn have "?h + ?n < ?c" by simp
      with ow show ?thesis using h c full n
        by (auto simp: ring_inv_def ring_view_def add.commute)
    qed
  next
    case wraps: False
    let ?f = "?c - ?h"
    let ?b1 = "take ?h ?b @ take ?f bs"
    let ?b' = "drop ?f bs @ drop (?n - ?f) ?b1"
    let ?r' = "r\<lparr>buf := ?b', head := (?h + ?n) mod ?c, len := ?c\<rparr>"
    have len1: "length ?b1 = ?c" using h full wraps by simp
    have ow: "ring_overwrite bs r = Some ?r'"
      using ne wraps full l n h len1
      by (simp add: ring_overwrite_def slice_simps Let_def)
    have md: "(?h + ?n) mod ?c = ?n - ?f"
    proof -
      have "?h + ?n = ?c + (?n - ?f)" using wraps h by simp
      moreover have "?n - ?f < ?c" using n h by simp
      ultimately show ?thesis by (metis mod_add_self1 mod_less)
    qed
    have lb': "length ?b' = ?c" using len1 n h wraps by simp
    have "drop (?n - ?f) ?b' @ take (?n - ?f) ?b' = drop (?n - ?f) ?b1 @ drop ?f bs"
      by simp
    also have "\<dots> = drop ?n (drop ?h ?b @ take ?h ?b) @ bs"
    proof -
      have "drop (?n - ?f) ?b1 = drop (?n - ?f) (take ?h ?b) @ take ?f bs"
        using full h n by simp
      moreover have "drop ?n (drop ?h ?b @ take ?h ?b) = drop (?n - ?f) (take ?h ?b)"
        using full wraps by simp
      ultimately show ?thesis by simp
    qed
    finally have "drop (?n - ?f) ?b' @ take (?n - ?f) ?b'
        = drop ?n (drop ?h ?b @ take ?h ?b) @ bs" .
    then have view: "ring_view ?r' = drop ?n (ring_view r) @ bs"
      by (simp only: ring_view_full_upd [OF lb'] md) (simp add: ring_view_def full)
    have "?n - ?f < ?c" using n h by simp
    then have "ring_inv ?r'" using lb' c by (simp add: ring_inv_def md)
    with ow view show ?thesis by auto
  qed
qed

lemma ring_push_ok:
  assumes inv: "ring_inv r"
  shows "\<exists>r'. ring_push bs r = Some r' \<and> ring_inv r' \<and> cap r' = cap r \<and>
              ring_view r' = lastn (cap r) (ring_view r @ bs)"
proof -
  let ?c = "cap r" and ?xs = "lastn (cap r) bs"
  have xs: "(if length bs > ?c then drop (length bs - ?c) bs else bs) = ?xs"
    by (simp add: lastn_def)
  have lx: "length ?xs \<le> ?c" by simp
  have tail: "lastn ?c (ring_view r @ bs) = lastn ?c (ring_view r @ ?xs)"
    by (simp add: lastn_append_lastn)
  show ?thesis
  proof (cases "length (buf r) < ?c")
    case False
    with inv have full: "length (buf r) = ?c" by (simp add: ring_inv_def)
    then have lv: "length (ring_view r) = ?c" using inv by (simp add: ring_view_def ring_inv_def)
    have "lastn ?c (ring_view r @ ?xs) = drop (length ?xs) (ring_view r) @ ?xs"
      using lv lx by (simp add: lastn_def)
    with ring_overwrite_full [OF inv full lx] False xs tail show ?thesis
      by (auto simp: ring_push_def Let_def)
  next
    case growing: True
    let ?tk = "min (length ?xs) (?c - length (buf r))"
    let ?b = "buf r @ take ?tk ?xs"
    let ?r1 = "r\<lparr>buf := ?b, len := length ?b, head := length ?b mod ?c\<rparr>"
    have push: "ring_push bs r = ring_overwrite (drop ?tk ?xs) ?r1"
      using growing xs by (simp only: ring_push_def Let_def if_True) 
    have inv1: "ring_inv ?r1" using inv growing
      by (cases "length ?b = ?c") (auto simp: ring_inv_def)
    have view1: "ring_view ?r1 = ?b"
      by (rule ring_view_growing_upd) (use growing in auto)
    have view: "ring_view r = buf r" using growing by (simp add: ring_view_def)
    show ?thesis
    proof (cases "length ?xs \<le> ?c - length (buf r)")
      case True
      then have nil: "drop ?tk ?xs = []" and all: "take ?tk ?xs = ?xs" by simp_all
      have "lastn ?c (ring_view r @ ?xs) = buf r @ ?xs"
        using True growing view by simp
      with push inv1 tail view1 nil all show ?thesis by simp
    next
      case False
      then have tk: "?tk = ?c - length (buf r)" by simp
      have lb: "length ?b = ?c" using False growing by simp
      have "drop (length (drop ?tk ?xs)) ?b @ drop ?tk ?xs = lastn ?c (buf r @ ?xs)"
        using lastn_refill [of ?tk ?xs "buf r" ?c] False growing lx tk by simp
      moreover have "\<exists>r'. ring_push bs r = Some r' \<and> ring_inv r' \<and> cap r' = cap ?r1 \<and>
          ring_view r' = drop (length (drop ?tk ?xs)) (ring_view ?r1) @ drop ?tk ?xs"
        unfolding push by (rule ring_overwrite_full [OF inv1]) (use lb lx in simp_all)
      ultimately show ?thesis using tail view view1 by simp
    qed
  qed
qed

lemma ring_snapshot_view: "ring_inv r \<Longrightarrow> ring_snapshot r = Some (ring_view r)"
  by (auto simp: ring_snapshot_def ring_inv_def ring_view_def slice_def Let_def mod_if)
lemma ring_len_view: "ring_inv r \<Longrightarrow> len r = length (ring_view r)"
  by (auto simp: ring_inv_def ring_view_def)

section \<open>The interface the registry relies on\<close>

text \<open>
  A bounded log: appending never fails, and reading gives back the last
  \<open>bound\<close> bytes ever appended.  The registry uses its ring only through these
  two operations.
\<close>

locale bounded_log =
  fixes append_log :: "bytes \<Rightarrow> 's \<Rightarrow> 's option"
    and read_log :: "'s \<Rightarrow> bytes option"
    and log_inv :: "'s \<Rightarrow> bool"
    and bound :: "'s \<Rightarrow> nat"
    and view :: "'s \<Rightarrow> bytes"
  assumes append_ok: "log_inv s \<Longrightarrow> \<exists>s'. append_log bs s = Some s' \<and> log_inv s' \<and>
      bound s' = bound s \<and> view s' = lastn (bound s) (view s @ bs)"
    and read_ok: "log_inv s \<Longrightarrow> read_log s = Some (view s)"
begin

lemma append_all_ok:
  "log_inv s \<Longrightarrow> length (view s) \<le> bound s \<Longrightarrow>
   \<exists>s'. fold_opt append_log cs s = Some s' \<and> log_inv s' \<and> bound s' = bound s \<and>
        view s' = lastn (bound s) (view s @ concat cs)"
proof (induction cs arbitrary: s)
  case Nil
  then show ?case by simp
next
  case (Cons c cs)
  from append_ok [OF Cons.prems(1), of c] obtain s1 where s1:
    "append_log c s = Some s1" "log_inv s1" "bound s1 = bound s"
    "view s1 = lastn (bound s) (view s @ c)" by blast
  with Cons.IH [of s1] show ?case by (simp add: lastn_lastn_append)
qed

lemma read_append_all:
  assumes "log_inv s" and "view s = []" and "fold_opt append_log cs s = Some s'"
  shows "read_log s' = Some (lastn (bound s) (concat cs))"
  using append_all_ok [OF assms(1), of cs] assms by (auto simp: read_ok)

end

interpretation ring: bounded_log ring_push ring_snapshot ring_inv cap ring_view
  by unfold_locales (simp_all add: ring_push_ok ring_snapshot_view)

text \<open>C30: For any capacity and any sequence of output chunks, no push panics and the
  snapshot is exactly the last \<open>capacity\<close> bytes of the whole stream.\<close>

theorem ring_keeps_last_bytes:
  assumes "ring_new capacity = Some r0"
  shows "\<exists>r. fold_opt ring_push chunks r0 = Some r \<and>
             ring_snapshot r = Some (lastn capacity (concat chunks)) \<and>
             len r = min capacity (length (concat chunks))"
proof -
  from ring_new_inv [OF assms] have r0: "ring_inv r0" "ring_view r0 = []" "cap r0 = capacity"
    by auto
  from ring.append_all_ok [OF r0(1), of chunks] r0 obtain r where
    "fold_opt ring_push chunks r0 = Some r" "ring_inv r"
    "ring_view r = lastn capacity (concat chunks)" by auto
  then show ?thesis by (simp add: ring_snapshot_view ring_len_view)
qed

lemma ring_keeps_last_bytes_witness:
  "\<exists>r0 r. ring_new 4 = Some r0 \<and> fold_opt ring_push [[1, 2, 3], [4, 5]] r0 = Some r \<and>
     ring_snapshot r = Some [2, 3, 4, 5]"
proof -
  obtain r0 where r0: "ring_new 4 = Some r0" by (simp add: ring_new_def)
  from ring_keeps_last_bytes [OF this, of "[[1, 2, 3], [4, 5]]"] r0 show ?thesis
    by (auto simp: lastn_def)
qed

end
