(* ===== verification/Vt_Modes.thy ===== *)
theory Vt_Modes
  imports Prelude
begin

unbundle bit_operations_syntax

text \<open>
  The terminal-mode tracker of the relay daemon
  (\<open>crates/relay/src/vt_modes.rs\<close>): the byte-level escape-sequence scanner, the
  mode table it maintains, the fast path of \<open>feed\<close>, and \<open>align_start\<close>.  The
  postamble lives in \<open>Vt_Postamble\<close>.
\<close>

section \<open>The mode table\<close>

definition TRACKED_MODES :: "(u16 \<times> bool) list" where
  "TRACKED_MODES = [(1, False), (6, False), (7, True), (25, True),
                    (1004, False), (2004, False), (2026, False)]"

definition ALT_SCREEN_MODES :: "u16 list" where "ALT_SCREEN_MODES = [1049]"
definition MOUSE_TRACKING :: "u16 list" where "MOUSE_TRACKING = [1000, 1002, 1003]"
definition MOUSE_ENCODING :: "u16 list" where "MOUSE_ENCODING = [1005, 1006, 1015]"
definition MAX_PARAMS :: nat where "MAX_PARAMS = 64"
definition MAX_KEYBOARD_STACK :: nat where "MAX_KEYBOARD_STACK = 16"
definition ALIGN_SEARCH_BYTES :: nat where "ALIGN_SEARCH_BYTES = 4096"

datatype scan = Ground | Esc | EscInter | Csi | Str | StrEsc

record modes =
  alt_screen :: "u16 option"
  dec_flags :: "bool list"
  mouse_tracking :: "u16 option"
  mouse_encoding :: "u16 option"
  scroll_region :: "(u16 \<times> u16) option"
  keypad_application :: bool
  keyboard :: "u32 list"

definition modes_default :: modes where
  "modes_default = \<lparr>alt_screen = None, dec_flags = map snd TRACKED_MODES,
     mouse_tracking = None, mouse_encoding = None, scroll_region = None,
     keypad_application = False, keyboard = []\<rparr>"

text \<open>\<open>iter().position(..)\<close>\<close>

fun position :: "('a \<Rightarrow> bool) \<Rightarrow> 'a list \<Rightarrow> nat option" where
  "position p [] = None"
| "position p (x # xs) = (if p x then Some 0 else map_option Suc (position p xs))"

definition modes_dec :: "modes \<Rightarrow> u16 \<Rightarrow> bool option" where
  "modes_dec ms mode =
     map_option (\<lambda>i. dec_flags ms ! i) (position (\<lambda>(m, _). m = mode) TRACKED_MODES)"

definition keyboard_flags :: "modes \<Rightarrow> u32" where
  "keyboard_flags ms = (if keyboard ms = [] then 0 else last (keyboard ms))"

text \<open>The closure \<open>group\<close> of \<open>set_dec\<close>: at most one mode of a group is in force.\<close>

definition group_slot :: "bool \<Rightarrow> u16 \<Rightarrow> u16 option \<Rightarrow> u16 option" where
  "group_slot on mode slot =
     (if on then Some mode
      else (case slot of Some m \<Rightarrow> (if m = mode then None else slot) | None \<Rightarrow> None))"

definition set_dec :: "u16 \<Rightarrow> bool \<Rightarrow> modes \<Rightarrow> modes" where
  "set_dec mode on ms =
     (if mode \<in> set ALT_SCREEN_MODES then
        ms\<lparr>alt_screen := (if on then Some mode else None)\<rparr>
      else if mode \<in> set MOUSE_TRACKING then
        ms\<lparr>mouse_tracking := group_slot on mode (mouse_tracking ms)\<rparr>
      else if mode \<in> set MOUSE_ENCODING then
        ms\<lparr>mouse_encoding := group_slot on mode (mouse_encoding ms)\<rparr>
      else (case position (\<lambda>(m, _). m = mode) TRACKED_MODES of
              Some i \<Rightarrow> ms\<lparr>dec_flags := (dec_flags ms)[i := on]\<rparr>
            | None \<Rightarrow> ms))"

definition soft_reset :: "modes \<Rightarrow> modes" where
  "soft_reset ms =
     (let ms1 = fold (\<lambda>mode ms.
          let d = (case find (\<lambda>(m, _). m = mode) TRACKED_MODES of
                     Some (_, d) \<Rightarrow> d | None \<Rightarrow> False)
          in set_dec mode d ms) [1, 6, 7, 25] ms
      in ms1\<lparr>scroll_region := None, keypad_application := False\<rparr>)"

section \<open>The tracker\<close>

record tracker =
  t_modes :: modes
  t_scan :: scan
  t_params :: bytes
  params_overflowed :: bool
  t_alt_entry_end :: "u64 option"
  t_offset :: u64
  seq_start :: "u64 option"

definition tracker_starting_at :: "u64 \<Rightarrow> tracker" where
  "tracker_starting_at off = \<lparr>t_modes = modes_default, t_scan = Ground, t_params = [],
     params_overflowed = False, t_alt_entry_end = None, t_offset = off, seq_start = None\<rparr>"

definition tracker_new :: tracker where
  "tracker_new = tracker_starting_at 0"

definition alt_entry_end :: "tracker \<Rightarrow> u64 option" where
  "alt_entry_end t = (case alt_screen (t_modes t) of None \<Rightarrow> None | Some _ \<Rightarrow> t_alt_entry_end t)"

definition parse_num :: "bytes \<Rightarrow> u32 option" where
  "parse_num s =
     (if s = [] \<or> length s > 9 \<or> \<not> list_all is_digit s then None
      else if dec_value s < 2 ^ 32 then Some (word_of_nat (dec_value s)) else None)"

text \<open>\<open>u16::try_from(v: u32)\<close>\<close>

definition u16_try_from :: "u32 \<Rightarrow> u16 option" where
  "u16_try_from v = (if unat v < 2 ^ 16 then Some (ucast v) else None)"

definition csi_marker :: "bytes \<Rightarrow> u8 option \<times> bytes" where
  "csi_marker params =
     (case params of
        m # rest \<Rightarrow> (if m \<in> {0x3f, 0x3e, 0x3c, 0x3d} then (Some m, rest) else (None, params))
      | [] \<Rightarrow> (None, params))"

text \<open>\<open>it.next().flatten()\<close> for the \<open>i\<close>-th call on the iterator of numbers.\<close>

definition nth_num :: "u32 option list \<Rightarrow> nat \<Rightarrow> u32 option" where
  "nth_num ns i = (if i < length ns then ns ! i else None)"

definition u32_or :: "u32 option \<Rightarrow> u32 \<Rightarrow> u32" where
  "u32_or x d = (case x of Some v \<Rightarrow> v | None \<Rightarrow> d)"

definition set_dec_modes :: "bool \<Rightarrow> u16 list \<Rightarrow> tracker \<Rightarrow> tracker" where
  "set_dec_modes on ms t = fold (\<lambda>mode t.
      let entering = on \<and> mode \<in> set ALT_SCREEN_MODES \<and> alt_screen (t_modes t) = None;
          t1 = t\<lparr>t_modes := set_dec mode on (t_modes t)\<rparr>
      in if entering then t1\<lparr>t_alt_entry_end := Some (t_offset t1)\<rparr> else t1) ms t"

text \<open>DECSTBM: the bounds are compared at 32 bits, then clamped to 16.\<close>

definition clamp_u16 :: "u32 \<Rightarrow> u16" where
  "clamp_u16 v = (case u16_try_from v of Some w \<Rightarrow> w | None \<Rightarrow> 65535)"

definition set_scroll_region :: "u32 option list \<Rightarrow> modes \<Rightarrow> modes" where
  "set_scroll_region nums ms =
     (let tp = max (u32_or (nth_num nums 0) 1) 1
      in ms\<lparr>scroll_region :=
           (case nth_num nums 1 of
              Some bottom \<Rightarrow>
                (if bottom > tp then Some (clamp_u16 tp, clamp_u16 bottom) else None)
            | None \<Rightarrow> None)\<rparr>)"

definition keyboard_push :: "u32 option list \<Rightarrow> modes \<Rightarrow> modes" where
  "keyboard_push nums ms =
     (let kb = (if length (keyboard ms) \<ge> MAX_KEYBOARD_STACK then tl (keyboard ms)
                else keyboard ms)
      in ms\<lparr>keyboard := kb @ [u32_or (nth_num nums 0) 0]\<rparr>)"

definition keyboard_pop :: "u32 option list \<Rightarrow> modes \<Rightarrow> modes" where
  "keyboard_pop nums ms =
     (let n = unat (max (u32_or (nth_num nums 0) 1) 1);
          keep = length (keyboard ms) - n
      in ms\<lparr>keyboard := take keep (keyboard ms)\<rparr>)"

definition keyboard_set :: "u32 option list \<Rightarrow> modes \<Rightarrow> modes" where
  "keyboard_set nums ms =
     (let flags = u32_or (nth_num nums 0) 0;
          how = u32_or (nth_num nums 1) 1;
          tp = keyboard_flags ms;
          nxt = (if how = 2 then tp OR flags
                 else if how = 3 then tp AND NOT flags else flags)
      in ms\<lparr>keyboard :=
           (if keyboard ms = [] then [nxt] else butlast (keyboard ms) @ [nxt])\<rparr>)"

definition dispatch_csi :: "u8 \<Rightarrow> tracker \<Rightarrow> tracker" where
  "dispatch_csi final_byte t0 =
     (let params = t_params t0;
          t = t0\<lparr>t_params := []\<rparr>;
          ms = t_modes t;
          (marker, rest) = csi_marker params;
          nums = map parse_num (split_on 0x3b rest)
      in
      if marker = Some 0x3f \<and> (final_byte = 0x68 \<or> final_byte = 0x6c) then
        set_dec_modes (final_byte = 0x68)
          (List.map_filter u16_try_from (List.map_filter id nums)) t
      else if marker = None \<and> final_byte = 0x72 then
        t\<lparr>t_modes := set_scroll_region nums ms\<rparr>
      else if marker = None \<and> final_byte = 0x70 \<and> rest = [0x21] then
        t\<lparr>t_modes := soft_reset ms\<rparr>
      else if marker = Some 0x3e \<and> final_byte = 0x75 then
        t\<lparr>t_modes := keyboard_push nums ms\<rparr>
      else if marker = Some 0x3c \<and> final_byte = 0x75 then
        t\<lparr>t_modes := keyboard_pop nums ms\<rparr>
      else if marker = Some 0x3d \<and> final_byte = 0x75 then
        t\<lparr>t_modes := keyboard_set nums ms\<rparr>
      else t)"

text \<open>
  \<open>advance\<close> by the state it starts in.  The source handles an \<open>ESC\<close>-terminated
  string by setting the state to \<open>Esc\<close> and calling itself: here that is the \<open>Esc\<close>
  case, \<open>advance_esc\<close>, applied again.
\<close>

definition advance_esc :: "u8 \<Rightarrow> tracker \<Rightarrow> tracker" where
  "advance_esc b t =
     (if b = 0x5b then t\<lparr>t_params := [], params_overflowed := False, t_scan := Csi\<rparr>
      else if b \<in> {0x5d, 0x50, 0x5f, 0x5e, 0x58} then t\<lparr>t_scan := Str\<rparr>
      else if b = 0x63 then
        t\<lparr>t_modes := modes_default, t_alt_entry_end := None, t_scan := Ground\<rparr>
      else if b = 0x3d then
        t\<lparr>t_modes := (t_modes t)\<lparr>keypad_application := True\<rparr>, t_scan := Ground\<rparr>
      else if b = 0x3e then
        t\<lparr>t_modes := (t_modes t)\<lparr>keypad_application := False\<rparr>, t_scan := Ground\<rparr>
      else if b = 0x1b then t\<lparr>t_scan := Esc\<rparr>
      else if 0x20 \<le> b \<and> b \<le> 0x2f then t\<lparr>t_scan := EscInter\<rparr>
      else t\<lparr>t_scan := Ground\<rparr>)"

definition advance :: "u8 \<Rightarrow> tracker \<Rightarrow> tracker" where
  "advance b t =
     (if b = 0x18 \<or> b = 0x1a then t\<lparr>t_scan := Ground\<rparr>
      else case t_scan t of
        Ground \<Rightarrow> t\<lparr>t_scan := (if b = 0x1b then Esc else Ground)\<rparr>
      | Esc \<Rightarrow> advance_esc b t
      | EscInter \<Rightarrow>
          t\<lparr>t_scan := (if b = 0x1b then Esc
                       else if 0x20 \<le> b \<and> b \<le> 0x2f then EscInter else Ground)\<rparr>
      | Csi \<Rightarrow>
          (if 0x20 \<le> b \<and> b \<le> 0x3f then
             (if length (t_params t) < MAX_PARAMS then t\<lparr>t_params := t_params t @ [b]\<rparr>
              else t\<lparr>params_overflowed := True\<rparr>)\<lparr>t_scan := Csi\<rparr>
           else if 0x40 \<le> b \<and> b \<le> 0x7e then
             (if params_overflowed t then t else dispatch_csi b t)\<lparr>t_scan := Ground\<rparr>
           else if b = 0x1b then t\<lparr>t_scan := Esc\<rparr>
           else if b \<le> 0x1f then t\<lparr>t_scan := Csi\<rparr>
           else t\<lparr>t_scan := Ground\<rparr>)
      | Str \<Rightarrow>
          t\<lparr>t_scan := (if b = 0x07 then Ground else if b = 0x1b then StrEsc else Str)\<rparr>
      | StrEsc \<Rightarrow>
          (if b = 0x5c then t\<lparr>t_scan := Ground\<rparr> else advance_esc b (t\<lparr>t_scan := Esc\<rparr>)))"

definition step :: "u8 \<Rightarrow> tracker \<Rightarrow> tracker" where
  "step b t =
     (let before = t_scan t; t1 = advance b t in
      case t_scan t1 of
        Ground \<Rightarrow> t1\<lparr>seq_start := None\<rparr>
      | Esc \<Rightarrow> (if b = 0x1b \<and> before \<noteq> Str
                then t1\<lparr>seq_start := Some (if t_offset t1 = 0 then 0 else t_offset t1 - 1)\<rparr>
                else t1)
      | _ \<Rightarrow> t1)"

text \<open>\<open>feed\<close>, with its skip over plain text.\<close>

function feed :: "bytes \<Rightarrow> tracker \<Rightarrow> tracker" where
  "feed bs t =
     (if bs = [] then t
      else if t_scan t = Ground then
        (case position (\<lambda>b. b = 0x1b) bs of
           None \<Rightarrow> t\<lparr>t_offset := t_offset t + word_of_nat (length bs)\<rparr>
         | Some i \<Rightarrow>
             (let bs' = drop i bs;
                  t1 = t\<lparr>t_offset := t_offset t + word_of_nat i\<rparr>;
                  t2 = t1\<lparr>t_offset := t_offset t1 + 1\<rparr>
              in feed (tl bs') (step (hd bs') t2)))
      else feed (tl bs) (step (hd bs) (t\<lparr>t_offset := t_offset t + 1\<rparr>)))"
  by pat_completeness auto

lemma position_Some:
  "position p xs = Some i \<Longrightarrow> i < length xs \<and> p (xs ! i) \<and> (\<forall>j < i. \<not> p (xs ! j))"
  by (induction xs arbitrary: i) (auto split: if_splits simp: nth_Cons' less_Suc_eq_0_disj)

lemma position_None: "position p xs = None \<longleftrightarrow> (\<forall>x \<in> set xs. \<not> p x)"
  by (induction xs) auto

termination feed
  by (relation "measure (\<lambda>(bs, t). length bs)") (auto dest: position_Some)

declare feed.simps [simp del]

text \<open>\<open>align_start\<close>: the probe steps without counting offsets.\<close>

fun align_scan :: "nat \<Rightarrow> nat \<Rightarrow> bytes \<Rightarrow> tracker \<Rightarrow> nat option" where
  "align_scan 0 i bs t = None"
| "align_scan (Suc k) i [] t = None"
| "align_scan (Suc k) i (b # bs) t =
     (let t' = step b t in
      if b = 0x0a \<and> t_scan t' = Ground then Some (i + 1) else align_scan k (i + 1) bs t')"

definition align_start :: "bytes \<Rightarrow> nat" where
  "align_start snap =
     (case align_scan ALIGN_SEARCH_BYTES 0 snap tracker_new of
        Some i \<Rightarrow> i
      | None \<Rightarrow> (case position (\<lambda>b. b AND 0xC0 \<noteq> 0x80) snap of
                   Some i \<Rightarrow> i | None \<Rightarrow> length snap))"

section \<open>Feeding is independent of the chunks\<close>

text \<open>Between sequences no start is recorded; \<open>step\<close> keeps this.\<close>

definition tracker_inv :: "tracker \<Rightarrow> bool" where
  "tracker_inv t \<longleftrightarrow> (t_scan t = Ground \<longrightarrow> seq_start t = None)"

definition step1 :: "u8 \<Rightarrow> tracker \<Rightarrow> tracker" where
  "step1 b t = step b (t\<lparr>t_offset := t_offset t + 1\<rparr>)"

lemma tracker_inv_new [simp]: "tracker_inv (tracker_starting_at n)"
  by (simp add: tracker_inv_def tracker_starting_at_def)

lemma tracker_inv_step [simp]: "tracker_inv (step b t)"
  by (auto simp: tracker_inv_def step_def Let_def split: scan.splits)

lemma tracker_inv_fold: "tracker_inv t \<Longrightarrow> tracker_inv (fold step1 bs t)"
  by (induction bs arbitrary: t) (auto simp: step1_def)

lemma step1_plain:
  "t_scan t = Ground \<Longrightarrow> tracker_inv t \<Longrightarrow> b \<noteq> 0x1b \<Longrightarrow>
   step1 b t = t\<lparr>t_offset := t_offset t + 1\<rparr>"
  by (simp add: step1_def step_def advance_def tracker_inv_def Let_def)

lemma fold_step1_plain:
  "t_scan t = Ground \<Longrightarrow> tracker_inv t \<Longrightarrow> \<forall>b \<in> set bs. b \<noteq> 0x1b \<Longrightarrow>
   fold step1 bs t = t\<lparr>t_offset := t_offset t + word_of_nat (length bs)\<rparr>"
proof (induction bs arbitrary: t)
  case Nil
  then show ?case by simp
next
  case (Cons b bs)
  from Cons.prems have "step1 b t = t\<lparr>t_offset := t_offset t + 1\<rparr>"
    by (intro step1_plain) auto
  moreover have "tracker_inv (t\<lparr>t_offset := t_offset t + 1\<rparr>)"
    using Cons.prems by (simp add: tracker_inv_def)
  ultimately show ?case using Cons.IH [of "t\<lparr>t_offset := t_offset t + 1\<rparr>"] Cons.prems
    by (simp add: ac_simps)
qed

lemma feed_step1: "tracker_inv t \<Longrightarrow> feed bs t = fold step1 bs t"
proof (induction bs t rule: feed.induct)
  case (1 bs t)
  show ?case
  proof (cases "bs = [] \<or> t_scan t \<noteq> Ground")
    case True
    with "1.IH"(2) show ?thesis
      by (cases bs) (auto simp: feed.simps [of "[]" t] feed.simps [of "_ # _" t] step1_def)
  next
    case False
    then have ne: "bs \<noteq> []" and g: "t_scan t = Ground" by auto
    show ?thesis
    proof (cases "position (\<lambda>b. b = 0x1b) bs")
      case None
      then have "\<forall>b \<in> set bs. b \<noteq> 0x1b" by (simp add: position_None)
      with ne g None "1.prems" show ?thesis
        by (simp add: feed.simps [of bs t] fold_step1_plain)
    next
      case (Some i)
      from position_Some [OF Some] have i: "i < length bs" and esc: "bs ! i = 0x1b"
        and pre: "\<forall>b \<in> set (take i bs). b \<noteq> 0x1b"
        by (auto simp: in_set_conv_nth)
      let ?t1 = "t\<lparr>t_offset := t_offset t + word_of_nat i\<rparr>"
      have split: "bs = take i bs @ hd (drop i bs) # tl (drop i bs)"
        using i by (metis append_take_drop_id drop_eq_Nil hd_Cons_tl leD)
      have "fold step1 bs t = fold step1 (hd (drop i bs) # tl (drop i bs)) (fold step1 (take i bs) t)"
        by (subst split) simp
      also have "fold step1 (take i bs) t = ?t1"
        using fold_step1_plain [OF g "1.prems" pre] i by (simp add: min_absorb2)
      finally have "fold step1 bs t = fold step1 (tl (drop i bs)) (step1 (hd (drop i bs)) ?t1)"
        by simp
      moreover have "feed bs t = feed (tl (drop i bs)) (step1 (hd (drop i bs)) ?t1)"
        using ne g Some by (simp add: feed.simps [of bs t] Let_def step1_def)
      moreover have "feed (tl (drop i bs)) (step1 (hd (drop i bs)) ?t1) =
          fold step1 (tl (drop i bs)) (step1 (hd (drop i bs)) ?t1)"
        using "1.IH"(1) [OF ne g Some refl refl refl]
        by (simp add: step1_def [abs_def])
      ultimately show ?thesis by simp
    qed
  qed
qed

lemma feed_append: "tracker_inv t \<Longrightarrow> feed (xs @ ys) t = feed ys (feed xs t)"
  by (simp add: feed_step1 tracker_inv_fold)

text \<open>The skip over plain text and the cut into chunks are invisible: feeding any
  chunking of a stream ends in the state that stepping its bytes one at a time reaches.\<close>

theorem feed_chunk_independent:
  "fold feed chunks (tracker_starting_at n) =
   fold step1 (concat chunks) (tracker_starting_at n)"
proof -
  have "fold feed cs t = fold step1 (concat cs) t" if "tracker_inv t" for cs t
    using that by (induction cs arbitrary: t) (auto simp: feed_step1 tracker_inv_fold)
  then show ?thesis by simp
qed

section \<open>Well-formed mode tables\<close>

definition modes_wf :: "modes \<Rightarrow> bool" where
  "modes_wf ms \<longleftrightarrow>
     alt_screen ms \<in> {None, Some 1049} \<and>
     length (dec_flags ms) = length TRACKED_MODES \<and>
     (case mouse_tracking ms of None \<Rightarrow> True | Some m \<Rightarrow> m \<in> set MOUSE_TRACKING) \<and>
     (case mouse_encoding ms of None \<Rightarrow> True | Some m \<Rightarrow> m \<in> set MOUSE_ENCODING) \<and>
     (case scroll_region ms of None \<Rightarrow> True | Some (t, b) \<Rightarrow> 1 \<le> t \<and> t \<le> b) \<and>
     length (keyboard ms) \<le> MAX_KEYBOARD_STACK"

lemma modes_wf_default [simp]: "modes_wf modes_default"
  by (simp add: modes_wf_def modes_default_def MAX_KEYBOARD_STACK_def)

lemma modes_wf_set_dec: "modes_wf ms \<Longrightarrow> modes_wf (set_dec m on ms)"
  by (auto simp: modes_wf_def set_dec_def group_slot_def ALT_SCREEN_MODES_def
      split: option.splits)

lemma modes_wf_soft_reset: "modes_wf ms \<Longrightarrow> modes_wf (soft_reset ms)"
proof -
  assume wf: "modes_wf ms"
  have "modes_wf (fold (\<lambda>mode. set_dec mode (f mode)) l ms)" for f l
    using wf by (induction l arbitrary: ms) (auto simp: modes_wf_set_dec)
  note this [of "\<lambda>mode. case find (\<lambda>(m, _). m = mode) TRACKED_MODES of
                     Some (_, d) \<Rightarrow> d | None \<Rightarrow> False" "[1, 6, 7, 25]"]
  then show ?thesis by (simp add: soft_reset_def Let_def modes_wf_def)
qed

lemma modes_wf_set_dec_modes:
  "modes_wf (t_modes t) \<Longrightarrow> modes_wf (t_modes (set_dec_modes on l t))"
  unfolding set_dec_modes_def
  by (induction l arbitrary: t) (auto simp: Let_def modes_wf_set_dec)

lemma unat_clamp_u16: "unat (clamp_u16 v) = min (unat v) 65535"
  by (auto simp: clamp_u16_def u16_try_from_def unsigned_ucast_eq take_bit_nat_eq_self)

lemma modes_wf_region: "modes_wf ms \<Longrightarrow> modes_wf (set_scroll_region nums ms)"
proof -
  assume wf: "modes_wf ms"
  have "modes_wf (ms\<lparr>scroll_region := Some (clamp_u16 top, clamp_u16 bot)\<rparr>)"
    if "1 \<le> top" "top < bot" for top bot
    using wf that by (simp add: modes_wf_def word_le_nat_alt word_less_nat_alt unat_clamp_u16)
  moreover have "modes_wf (ms\<lparr>scroll_region := None\<rparr>)"
    using wf by (simp add: modes_wf_def)
  ultimately show ?thesis
    by (simp add: set_scroll_region_def Let_def split: option.split)
qed

lemma modes_wf_keyboard:
  assumes "modes_wf ms"
  shows "modes_wf (keyboard_push nums ms)" "modes_wf (keyboard_pop nums ms)"
    "modes_wf (keyboard_set nums ms)"
  using assms
  by (auto simp: modes_wf_def keyboard_push_def keyboard_pop_def keyboard_set_def Let_def
      MAX_KEYBOARD_STACK_def)

lemma modes_wf_dispatch: "modes_wf (t_modes t) \<Longrightarrow> modes_wf (t_modes (dispatch_csi b t))"
  by (simp add: dispatch_csi_def Let_def modes_wf_set_dec_modes modes_wf_soft_reset
      modes_wf_region modes_wf_keyboard split: prod.split)

lemma modes_wf_keypad: "modes_wf ms \<Longrightarrow> modes_wf (ms\<lparr>keypad_application := k\<rparr>)"
  by (simp add: modes_wf_def)

lemma modes_wf_esc: "modes_wf (t_modes t) \<Longrightarrow> modes_wf (t_modes (advance_esc b t))"
  by (simp add: advance_esc_def modes_wf_keypad)

lemma modes_wf_step: "modes_wf (t_modes t) \<Longrightarrow> modes_wf (t_modes (step b t))"
proof -
  assume "modes_wf (t_modes t)"
  then have "modes_wf (t_modes (advance b t))"
    by (simp add: advance_def modes_wf_esc modes_wf_dispatch split: scan.split)
  then show ?thesis by (auto simp: step_def Let_def split: scan.split)
qed

lemma fold_step1_wf: "modes_wf (t_modes t) \<Longrightarrow> modes_wf (t_modes (fold step1 bs t))"
  by (induction bs arbitrary: t) (auto simp: step1_def modes_wf_step)

text \<open>Whatever bytes a program prints, the tracked modes stay well formed.\<close>

theorem tracked_modes_wf:
  "modes_wf (t_modes (fold feed chunks (tracker_starting_at n)))"
proof -
  have "modes_wf (t_modes (tracker_starting_at n))"
    by (simp add: tracker_starting_at_def)
  then show ?thesis by (simp add: feed_chunk_independent fold_step1_wf)
qed

section \<open>Where a replay starts\<close>

text \<open>A clean line start: just after a newline, outside any sequence as scanned from the cut.\<close>

definition clean_cut :: "bytes \<Rightarrow> nat \<Rightarrow> bool" where
  "clean_cut snap i \<longleftrightarrow> 0 < i \<and> i \<le> ALIGN_SEARCH_BYTES \<and> i \<le> length snap \<and>
     snap ! (i - 1) = 0x0a \<and> t_scan (fold step (take i snap) tracker_new) = Ground"

lemma align_scan_Some:
  "align_scan k i bs t = Some r \<Longrightarrow>
     \<exists>j < k. r = i + j + 1 \<and> j < length bs \<and> bs ! j = 0x0a \<and>
       t_scan (fold step (take (Suc j) bs) t) = Ground \<and>
       (\<forall>j' < j. \<not> (bs ! j' = 0x0a \<and> t_scan (fold step (take (Suc j') bs) t) = Ground))"
proof (induction k i bs t rule: align_scan.induct)
  case (3 k i b bs t)
  show ?case
  proof (cases "b = 0x0a \<and> t_scan (step b t) = Ground")
    case True
    with "3.prems" show ?thesis by (intro exI [of _ 0]) (auto simp: Let_def)
  next
    case False
    with "3.prems" have "align_scan k (i + 1) bs (step b t) = Some r" by (simp add: Let_def)
    from "3.IH" [OF refl False this] obtain j where
      "j < k" "r = i + 1 + j + 1" "j < length bs" "bs ! j = 0x0a"
      "t_scan (fold step (take (Suc j) bs) (step b t)) = Ground"
      "\<forall>j' < j. \<not> (bs ! j' = 0x0a \<and>
         t_scan (fold step (take (Suc j') bs) (step b t)) = Ground)" by blast
    with False show ?thesis
      by (intro exI [of _ "Suc j"]) (auto simp: less_Suc_eq_0_disj)
  qed
qed simp_all

lemma align_scan_None:
  "align_scan k i bs t = None \<Longrightarrow> j < k \<Longrightarrow> j < length bs \<Longrightarrow>
     \<not> (bs ! j = 0x0a \<and> t_scan (fold step (take (Suc j) bs) t) = Ground)"
proof (induction k i bs t arbitrary: j rule: align_scan.induct)
  case (3 k i b bs t)
  then show ?case by (cases j) (auto simp: Let_def split: if_splits)
qed simp_all

lemma align_start_facts:
  "if \<exists>i. clean_cut snap i
   then clean_cut snap (align_start snap) \<and> (\<forall>i. clean_cut snap i \<longrightarrow> align_start snap \<le> i)
   else align_start snap \<le> length snap \<and>
        (\<forall>i < align_start snap. snap ! i AND 0xC0 = 0x80) \<and>
        (align_start snap < length snap \<longrightarrow> snap ! align_start snap AND 0xC0 \<noteq> 0x80)"
proof (cases "align_scan ALIGN_SEARCH_BYTES 0 snap tracker_new")
  case None
  have "\<not> clean_cut snap i" for i
    using align_scan_None [OF None, of "i - 1"] by (cases i) (auto simp: clean_cut_def)
  then show ?thesis using None
    by (auto simp: align_start_def position_None split: option.splits
        dest: position_Some)
next
  case (Some r)
  from align_scan_Some [OF Some] obtain j where j:
    "j < ALIGN_SEARCH_BYTES" "r = Suc j" "j < length snap" "snap ! j = 0x0a"
    "t_scan (fold step (take (Suc j) snap) tracker_new) = Ground"
    "\<forall>j' < j. \<not> (snap ! j' = 0x0a \<and>
       t_scan (fold step (take (Suc j') snap) tracker_new) = Ground)" by auto
  have r: "align_start snap = r" using Some by (simp add: align_start_def)
  have "clean_cut snap r" using j by (simp add: clean_cut_def)
  moreover have "r \<le> i" if "clean_cut snap i" for i
  proof (rule ccontr)
    assume "\<not> r \<le> i"
    with that j(2,6) show False by (cases i) (auto simp: clean_cut_def)
  qed
  ultimately show ?thesis using r by auto
qed

text \<open>A replay starts at the first clean line start within the search window; without
  one, at the first byte that is not the middle of a UTF-8 character.\<close>

theorem align_start_correct:
  "if \<exists>i. clean_cut snap i
   then clean_cut snap (align_start snap) \<and> (\<forall>i. clean_cut snap i \<longrightarrow> align_start snap \<le> i)
   else align_start snap \<le> length snap \<and>
        (\<forall>i < align_start snap. snap ! i AND 0xC0 = 0x80) \<and>
        (align_start snap < length snap \<longrightarrow> snap ! align_start snap AND 0xC0 \<noteq> 0x80)"
  by (rule align_start_facts)

lemma align_start_correct_witness:
  "clean_cut [0x61, 0x0a, 0x62, 0x0a] 2 \<and> align_start [0x61, 0x0a, 0x62, 0x0a] = 2"
proof -
  let ?snap = "[0x61, 0x0a, 0x62, 0x0a] :: bytes"
  have c: "clean_cut ?snap 2" by code_simp
  with align_start_correct [of ?snap] have
    a: "clean_cut ?snap (align_start ?snap)" "align_start ?snap \<le> 2" by (auto split: if_splits)
  moreover have "\<not> clean_cut ?snap 0" "\<not> clean_cut ?snap 1" by code_simp+
  ultimately have "align_start ?snap = 2"
    by (metis One_nat_def le_SucE le_zero_eq numeral_2_eq_2)
  with c show ?thesis by simp
qed

end
