(* ===== verification/Vt_Postamble.thy ===== *)
theory Vt_Postamble
  imports Vt_Modes
begin

text \<open>
  The postamble of \<open>crates/relay/src/vt_modes.rs\<close>: the escape sequences that take a
  client which replayed a cut stream to the live modes.  A sequence is read back by
  the tracker itself, so the theorem is a round trip through the scanner of
  \<open>Vt_Modes\<close>.
\<close>

section \<open>The escape sequences\<close>

definition csi :: "bytes \<Rightarrow> u8 \<Rightarrow> bytes" where
  "csi params final_byte = 0x1b # 0x5b # params @ [final_byte]"

text \<open>\<open>ESC [ ? m h\<close> and \<open>ESC [ ? m l\<close>\<close>

definition dec_seq :: "u16 \<Rightarrow> bool \<Rightarrow> bytes" where
  "dec_seq m on = csi (0x3f # dec_bytes (unat m)) (if on then 0x68 else 0x6c)"

definition postamble_alt :: "modes \<Rightarrow> modes \<Rightarrow> bytes" where
  "postamble_alt body live =
     (if alt_screen body \<noteq> alt_screen live then
        (case (alt_screen body, alt_screen live) of
           (_, Some m) \<Rightarrow> dec_seq m True
         | (Some m, None) \<Rightarrow> dec_seq m False
         | (None, None) \<Rightarrow> [])
      else [])"

definition postamble_homing :: "modes \<Rightarrow> modes \<Rightarrow> bytes" where
  "postamble_homing body live =
     (let homing =
        (if scroll_region body \<noteq> scroll_region live then
           (case scroll_region live of
              Some (tp, bottom) \<Rightarrow>
                csi (dec_bytes (unat tp) @ 0x3b # dec_bytes (unat bottom)) 0x72
            | None \<Rightarrow> csi [] 0x72)
         else []) @
        (if modes_dec body 6 \<noteq> modes_dec live 6 then
           (if modes_dec live 6 = Some True then csi [0x3f, 0x36] 0x68 else csi [0x3f, 0x36] 0x6c)
         else [])
      in if homing \<noteq> [] then [0x1b, 0x37] @ homing @ [0x1b, 0x38] else [])"

definition postamble_dec :: "modes \<Rightarrow> modes \<Rightarrow> bytes" where
  "postamble_dec body live =
     concat (map (\<lambda>(i, mode, _).
        if mode \<in> {6, 25, 2026} \<or> dec_flags body ! i = dec_flags live ! i then []
        else dec_seq mode (dec_flags live ! i)) (List.enumerate 0 TRACKED_MODES))"

definition postamble_group :: "u16 option \<Rightarrow> u16 option \<Rightarrow> bytes" where
  "postamble_group b l =
     (case l of
        Some m \<Rightarrow> (if b \<noteq> Some m then dec_seq m True else [])
      | None \<Rightarrow> (case b of Some m \<Rightarrow> dec_seq m False | None \<Rightarrow> []))"

definition postamble_keypad :: "modes \<Rightarrow> modes \<Rightarrow> bytes" where
  "postamble_keypad body live =
     (if keypad_application body \<noteq> keypad_application live then
        (if keypad_application live then [0x1b, 0x3d] else [0x1b, 0x3e])
      else [])"

definition postamble_keyboard :: "modes \<Rightarrow> modes \<Rightarrow> bytes" where
  "postamble_keyboard body live =
     (if keyboard_flags body \<noteq> keyboard_flags live then
        csi (0x3d # dec_bytes (unat (keyboard_flags live)) @ [0x3b, 0x31]) 0x75
      else [])"

definition postamble_cursor :: "modes \<Rightarrow> modes \<Rightarrow> bytes" where
  "postamble_cursor body live =
     (if modes_dec body 25 \<noteq> modes_dec live 25 then
        csi [0x3f, 0x32, 0x35] (if modes_dec live 25 = Some True then 0x68 else 0x6c)
      else [])"

definition postamble :: "modes \<Rightarrow> modes \<Rightarrow> bytes" where
  "postamble body live =
     (if body = live then []
      else
        postamble_alt body live @
        postamble_homing body live @
        postamble_dec body live @
        postamble_group (mouse_tracking body) (mouse_tracking live) @
        postamble_group (mouse_encoding body) (mouse_encoding live) @
        postamble_keypad body live @
        postamble_keyboard body live @
        postamble_cursor body live)"

section \<open>What a complete sequence does to the modes\<close>

text \<open>
  \<open>runs bs g\<close>: fed from the ground state, \<open>bs\<close> ends in the ground state and changes
  the modes by \<open>g\<close>.
\<close>

definition runs :: "bytes \<Rightarrow> (modes \<Rightarrow> modes) \<Rightarrow> bool" where
  "runs bs g \<longleftrightarrow> (\<forall>t. t_scan t = Ground \<longrightarrow>
     t_scan (fold step1 bs t) = Ground \<and> t_modes (fold step1 bs t) = g (t_modes t))"

lemma runs_nil: "runs [] id"
  by (simp add: runs_def)

lemma runs_append: "runs bs g \<Longrightarrow> runs cs h \<Longrightarrow> runs (bs @ cs) (h \<circ> g)"
  by (simp add: runs_def)

lemma runs_if: "(P \<Longrightarrow> runs bs g) \<Longrightarrow> runs (if P then bs else []) (if P then g else id)"
  by (simp add: runs_nil)

definition csi_modes :: "bytes \<Rightarrow> u8 \<Rightarrow> modes \<Rightarrow> modes" where
  "csi_modes ps f ms =
     (let (marker, rest) = csi_marker ps; nums = map parse_num (split_on 0x3b rest) in
      if marker = Some 0x3f \<and> (f = 0x68 \<or> f = 0x6c) then
        fold (\<lambda>m. set_dec m (f = 0x68)) (List.map_filter u16_try_from (List.map_filter id nums)) ms
      else if marker = None \<and> f = 0x72 then set_scroll_region nums ms
      else if marker = None \<and> f = 0x70 \<and> rest = [0x21] then soft_reset ms
      else if marker = Some 0x3e \<and> f = 0x75 then keyboard_push nums ms
      else if marker = Some 0x3c \<and> f = 0x75 then keyboard_pop nums ms
      else if marker = Some 0x3d \<and> f = 0x75 then keyboard_set nums ms
      else ms)"

lemma set_dec_modes_modes:
  "t_modes (set_dec_modes on l t) = fold (\<lambda>m. set_dec m on) l (t_modes t)"
  unfolding set_dec_modes_def by (induction l arbitrary: t) (simp_all add: Let_def)

lemma dispatch_csi_modes: "t_modes (dispatch_csi f t) = csi_modes (t_params t) f (t_modes t)"
  by (cases "csi_marker (t_params t)")
    (auto simp: dispatch_csi_def csi_modes_def Let_def set_dec_modes_modes)

definition param_byte :: "u8 \<Rightarrow> bool" where
  "param_byte b \<longleftrightarrow> 0x20 \<le> b \<and> b \<le> 0x3f"

lemma step1_param:
  "param_byte b \<Longrightarrow> t_scan t = Csi \<Longrightarrow> length (t_params t) < MAX_PARAMS \<Longrightarrow>
   t_scan (step1 b t) = Csi \<and> t_params (step1 b t) = t_params t @ [b] \<and>
   t_modes (step1 b t) = t_modes t \<and> params_overflowed (step1 b t) = params_overflowed t"
  by (auto simp: step1_def step_def advance_def param_byte_def Let_def)

lemma fold_params:
  "list_all param_byte ps \<Longrightarrow> t_scan t = Csi \<Longrightarrow>
   length (t_params t) + length ps \<le> MAX_PARAMS \<Longrightarrow>
   t_scan (fold step1 ps t) = Csi \<and> t_params (fold step1 ps t) = t_params t @ ps \<and>
   t_modes (fold step1 ps t) = t_modes t \<and>
   params_overflowed (fold step1 ps t) = params_overflowed t"
proof (induction ps arbitrary: t)
  case Nil
  then show ?case by simp
next
  case (Cons p ps)
  with step1_param [of p t] Cons.IH [of "step1 p t"] show ?case by simp
qed

lemma step1_csi_intro:
  "t_scan t = Ground \<Longrightarrow> t_scan (step1 0x5b (step1 0x1b t)) = Csi \<and>
   t_params (step1 0x5b (step1 0x1b t)) = [] \<and>
   t_modes (step1 0x5b (step1 0x1b t)) = t_modes t \<and>
   \<not> params_overflowed (step1 0x5b (step1 0x1b t))"
  by (simp add: step1_def step_def advance_def advance_esc_def Let_def)

lemma step1_csi_final:
  "t_scan t = Csi \<Longrightarrow> \<not> params_overflowed t \<Longrightarrow> 0x40 \<le> f \<Longrightarrow> f \<le> 0x7e \<Longrightarrow>
   t_scan (step1 f t) = Ground \<and> t_modes (step1 f t) = csi_modes (t_params t) f (t_modes t)"
proof -
  assume c: "t_scan t = Csi" and o: "\<not> params_overflowed t" and f: "0x40 \<le> f" "f \<le> 0x7e"
  have "f \<noteq> 0x18" "f \<noteq> 0x1a" "\<not> f \<le> 0x3f" "f \<noteq> 0x1b" 
    using f(1) by (auto simp: word_le_nat_alt)
  with c o f show ?thesis
    by (simp add: step1_def step_def advance_def Let_def dispatch_csi_modes)
qed

lemma runs_csi:
  assumes "list_all param_byte ps" "length ps \<le> MAX_PARAMS" "0x40 \<le> f" "f \<le> 0x7e"
  shows "runs (csi ps f) (csi_modes ps f)"
  unfolding runs_def
proof (intro allI impI)
  fix t :: tracker
  assume g: "t_scan t = Ground"
  let ?t1 = "step1 0x5b (step1 0x1b t)"
  note intro = step1_csi_intro [OF g]
  from fold_params [of ps ?t1] intro assms(1,2) have
    "t_scan (fold step1 ps ?t1) = Csi" "t_params (fold step1 ps ?t1) = ps"
    "t_modes (fold step1 ps ?t1) = t_modes t" "\<not> params_overflowed (fold step1 ps ?t1)"
    by simp_all
  with step1_csi_final [of "fold step1 ps ?t1" f] assms(3,4)
  show "t_scan (fold step1 (csi ps f) t) = Ground \<and>
        t_modes (fold step1 (csi ps f) t) = csi_modes ps f (t_modes t)"
    by (simp add: csi_def)
qed

section \<open>Each segment of the postamble\<close>

lemma digit_param: "is_digit b \<Longrightarrow> param_byte b \<and> b \<noteq> 0x3b \<and> b \<notin> {0x3f, 0x3e, 0x3c, 0x3d}"
  by (auto simp: is_digit_def param_byte_def word_le_nat_alt)

lemma dec_bytes_param [simp]: "list_all param_byte (dec_bytes n)"
  by (auto simp: list_all_iff dest!: dec_bytes_digit digit_param)

lemma dec_bytes_no_sep [simp]: "0x3b \<notin> set (dec_bytes n)"
  by (auto dest!: dec_bytes_digit digit_param)

lemma length_dec_bytes: "n < 10 ^ 9 \<Longrightarrow> length (dec_bytes n) \<le> 9"
  using dec_digits_length [of n 9] by (simp add: dec_bytes_def)

lemma unat_u16_bound: "unat (m :: u16) < 10 ^ 9"
  using unsigned_less [of m, where 'a = nat] by simp

lemma parse_num_dec: "n < 10 ^ 9 \<Longrightarrow> parse_num (dec_bytes n) = Some (word_of_nat n)"
  using length_dec_bytes [of n]
  by (auto simp: parse_num_def list_all_iff dest: dec_bytes_digit)

lemma csi_marker_digits: "csi_marker (dec_bytes n @ xs) = (None, dec_bytes n @ xs)"
proof (cases "dec_bytes n")
  case Nil
  then show ?thesis by simp
next
  case (Cons b bs)
  then have "is_digit b" using dec_bytes_digit [of b n] by simp
  with Cons show ?thesis by (auto simp: csi_marker_def dest: digit_param)
qed

lemma u16_of_ucast [simp]: "u16_try_from (ucast (m :: u16)) = Some m"
proof -
  have lt: "unat m < 65536" using unsigned_less [of m, where 'a = nat] by simp
  then have u: "unat (ucast m :: u32) = unat m"
    by (simp add: unsigned_ucast_eq take_bit_nat_eq_self)
  then have "unat (ucast (ucast m :: u32) :: u16) = unat m"
    using lt by (simp add: unsigned_ucast_eq [of "ucast m :: u32"] take_bit_nat_eq_self)
  then have "(ucast (ucast m :: u32) :: u16) = m" by (simp add: word_unat_eq_iff)
  then show ?thesis using lt u by (simp add: u16_try_from_def)
qed

lemma runs_dec_seq: "runs (dec_seq m on) (set_dec m on)"
proof -
  let ?ps = "0x3f # dec_bytes (unat m)" and ?f = "if on then 0x68 else 0x6c :: u8"
  have "length ?ps \<le> MAX_PARAMS"
    using length_dec_bytes [OF unat_u16_bound [of m]] by (simp add: MAX_PARAMS_def)
  then have "runs (csi ?ps ?f) (csi_modes ?ps ?f)"
    by (intro runs_csi) (simp_all add: param_byte_def)
  moreover have "csi_modes ?ps ?f = set_dec m on"
    by (rule ext) (simp add: csi_modes_def csi_marker_def parse_num_dec [OF unat_u16_bound]
        List.map_filter_def)
  ultimately show ?thesis by (simp add: dec_seq_def)
qed

lemma unat_ucast_u16: "unat (ucast (m :: u16) :: u32) = unat m"
  using unsigned_less [of m, where 'a = nat]
  by (simp add: unsigned_ucast_eq take_bit_nat_eq_self)

lemma runs_region:
  assumes "1 \<le> tp" "tp < bt"
  shows "runs (csi (dec_bytes (unat tp) @ 0x3b # dec_bytes (unat bt)) 0x72)
              (\<lambda>ms. ms\<lparr>scroll_region := Some (tp, bt)\<rparr>)"
proof -
  let ?ps = "dec_bytes (unat tp) @ 0x3b # dec_bytes (unat bt)"
  have "length ?ps \<le> MAX_PARAMS"
    using length_dec_bytes [OF unat_u16_bound [of tp]] length_dec_bytes [OF unat_u16_bound [of bt]]
    by (simp add: MAX_PARAMS_def)
  then have "runs (csi ?ps 0x72) (csi_modes ?ps 0x72)"
    by (intro runs_csi) (simp_all add: param_byte_def)
  moreover have "csi_modes ?ps 0x72 = (\<lambda>ms. ms\<lparr>scroll_region := Some (tp, bt)\<rparr>)"
  proof
    fix ms
    have "1 \<le> (ucast tp :: u32)" and lt: "(ucast tp :: u32) < ucast bt"
      using assms by (simp_all add: word_le_nat_alt word_less_nat_alt unat_ucast_u16)
    then have "max (ucast tp :: u32) 1 = ucast tp" by (simp add: max_absorb1)
    note this lt
    then show "csi_modes ?ps 0x72 ms = ms\<lparr>scroll_region := Some (tp, bt)\<rparr>"
      by (simp add: csi_modes_def csi_marker_digits parse_num_dec [OF unat_u16_bound]
          set_scroll_region_def nth_num_def u32_or_def clamp_u16_def Let_def)
  qed
  ultimately show ?thesis by simp
qed

lemma runs_region_reset: "runs (csi [] 0x72) (\<lambda>ms. ms\<lparr>scroll_region := None\<rparr>)"
proof -
  have "runs (csi [] 0x72) (csi_modes [] 0x72)"
    by (intro runs_csi) (simp_all add: MAX_PARAMS_def)
  moreover have "csi_modes [] 0x72 = (\<lambda>ms. ms\<lparr>scroll_region := None\<rparr>)"
    by (rule ext) (simp add: csi_modes_def csi_marker_def parse_num_def set_scroll_region_def
        nth_num_def Let_def)
  ultimately show ?thesis by simp
qed

lemma dec_seq_6: "csi [0x3f, 0x36] f = csi (0x3f # dec_bytes (unat (6 :: u16))) f"
  and dec_seq_25: "csi [0x3f, 0x32, 0x35] f = csi (0x3f # dec_bytes (unat (25 :: u16))) f"
  by (simp_all add: dec_bytes_def dec_digits.simps)

lemma runs_save_cursor: "runs [0x1b, 0x37] id" "runs [0x1b, 0x38] id"
  by (simp_all add: runs_def step1_def step_def advance_def advance_esc_def Let_def)

lemma runs_keypad:
  "runs [0x1b, 0x3d] (\<lambda>ms. ms\<lparr>keypad_application := True\<rparr>)"
  "runs [0x1b, 0x3e] (\<lambda>ms. ms\<lparr>keypad_application := False\<rparr>)"
  by (simp_all add: runs_def step1_def step_def advance_def advance_esc_def Let_def)

text \<open>The stack after \<open>CSI = flags ; 1 u\<close>.\<close>

definition set_top :: "u32 \<Rightarrow> u32 list \<Rightarrow> u32 list" where
  "set_top f kb = (if kb = [] then [f] else butlast kb @ [f])"

lemma runs_keyboard:
  assumes "unat f < 10 ^ 9"
  shows "runs (csi (0x3d # dec_bytes (unat f) @ [0x3b, 0x31]) 0x75)
              (\<lambda>ms. ms\<lparr>keyboard := set_top f (keyboard ms)\<rparr>)"
proof -
  let ?ps = "0x3d # dec_bytes (unat f) @ [0x3b, 0x31]"
  have "length ?ps \<le> MAX_PARAMS"
    using length_dec_bytes [OF assms] by (simp add: MAX_PARAMS_def)
  then have "runs (csi ?ps 0x75) (csi_modes ?ps 0x75)"
    by (intro runs_csi) (simp_all add: param_byte_def)
  moreover have "csi_modes ?ps 0x75 = (\<lambda>ms. ms\<lparr>keyboard := set_top f (keyboard ms)\<rparr>)"
    using assms
    by (intro ext) (simp add: csi_modes_def csi_marker_def parse_num_dec keyboard_set_def nth_num_def
        u32_or_def set_top_def parse_num_def [of "[0x31]"] is_digit_def dec_value_def)
  ultimately show ?thesis by simp
qed

section \<open>Taking one mode table to another\<close>

definition takes :: "bytes \<Rightarrow> modes \<Rightarrow> modes \<Rightarrow> bool" where
  "takes bs ms ms' \<longleftrightarrow> (\<forall>t. t_scan t = Ground \<and> t_modes t = ms \<longrightarrow>
     t_scan (fold step1 bs t) = Ground \<and> t_modes (fold step1 bs t) = ms')"

lemma takes_runs: "runs bs g \<Longrightarrow> takes bs ms (g ms)"
  by (simp add: takes_def runs_def)

lemma takes_nil [intro]: "takes [] ms ms"
  by (simp add: takes_def)

lemma takes_append: "takes bs a b \<Longrightarrow> takes cs b c \<Longrightarrow> takes (bs @ cs) a c"
  by (simp add: takes_def)

lemma takes_eq: "takes bs a b \<Longrightarrow> b = c \<Longrightarrow> takes bs a c"
  by simp

lemma takes_dec_seq: "set_dec m on ms = ms' \<Longrightarrow> takes (dec_seq m on) ms ms'"
  using takes_runs [OF runs_dec_seq] by blast

lemma takes_alt:
  assumes "modes_wf body" "modes_wf live" "alt_screen ms = alt_screen body"
  shows "takes (postamble_alt body live) ms (ms\<lparr>alt_screen := alt_screen live\<rparr>)"
  using assms
  by (auto simp: postamble_alt_def modes_wf_def set_dec_def ALT_SCREEN_MODES_def
      intro!: takes_dec_seq intro: takes_eq [OF takes_nil])

text \<open>A group of mutually exclusive modes, read and written through \<open>get\<close> and \<open>put\<close>.\<close>

lemma takes_group:
  assumes upd: "\<And>m on. m \<in> S \<Longrightarrow> set_dec m on ms = put (group_slot on m b)"
    and id: "put b = ms"
    and dom: "case b of None \<Rightarrow> True | Some m \<Rightarrow> m \<in> S"
    and lv: "case l of None \<Rightarrow> True | Some m \<Rightarrow> m \<in> S"
  shows "takes (postamble_group b l) ms (put l)"
proof (cases l)
  case None
  with upd id dom show ?thesis
    by (cases b) (auto simp: postamble_group_def group_slot_def intro!: takes_dec_seq)
next
  case (Some m)
  with upd id lv show ?thesis
    by (cases "b = Some m") (auto simp: postamble_group_def group_slot_def intro!: takes_dec_seq)
qed

lemma set_dec_tracking:
  "m \<in> set MOUSE_TRACKING \<Longrightarrow>
   set_dec m on ms = ms\<lparr>mouse_tracking := group_slot on m (mouse_tracking ms)\<rparr>"
  by (auto simp: set_dec_def ALT_SCREEN_MODES_def MOUSE_TRACKING_def)

lemma set_dec_encoding:
  "m \<in> set MOUSE_ENCODING \<Longrightarrow>
   set_dec m on ms = ms\<lparr>mouse_encoding := group_slot on m (mouse_encoding ms)\<rparr>"
  by (auto simp: set_dec_def ALT_SCREEN_MODES_def MOUSE_TRACKING_def MOUSE_ENCODING_def)

lemma takes_group_tracking:
  assumes "modes_wf body" "modes_wf live" "mouse_tracking ms = mouse_tracking body"
  shows "takes (postamble_group (mouse_tracking body) (mouse_tracking live)) ms
               (ms\<lparr>mouse_tracking := mouse_tracking live\<rparr>)"
  by (rule takes_group [where S = "set MOUSE_TRACKING"])
    (use assms in \<open>simp_all add: set_dec_tracking modes_wf_def\<close>)

lemma takes_group_encoding:
  assumes "modes_wf body" "modes_wf live" "mouse_encoding ms = mouse_encoding body"
  shows "takes (postamble_group (mouse_encoding body) (mouse_encoding live)) ms
               (ms\<lparr>mouse_encoding := mouse_encoding live\<rparr>)"
  by (rule takes_group [where S = "set MOUSE_ENCODING"])
    (use assms in \<open>simp_all add: set_dec_encoding modes_wf_def\<close>)

lemma takes_keypad:
  assumes "keypad_application ms = keypad_application body"
  shows "takes (postamble_keypad body live) ms
               (ms\<lparr>keypad_application := keypad_application live\<rparr>)"
  using assms takes_runs [OF runs_keypad(1), of ms] takes_runs [OF runs_keypad(2), of ms]
  by (auto simp: postamble_keypad_def intro: takes_eq [OF takes_nil])

lemma takes_keyboard:
  assumes "keyboard_flags ms = keyboard_flags body" "unat (keyboard_flags live) < 10 ^ 9"
  shows "\<exists>kb. takes (postamble_keyboard body live) ms (ms\<lparr>keyboard := kb\<rparr>) \<and>
              keyboard_flags (ms\<lparr>keyboard := kb\<rparr>) = keyboard_flags live"
proof (cases "keyboard_flags body = keyboard_flags live")
  case True
  then have "takes (postamble_keyboard body live) ms (ms\<lparr>keyboard := keyboard ms\<rparr>)"
    by (auto simp: postamble_keyboard_def)
  with True assms(1) show ?thesis by (intro exI [of _ "keyboard ms"]) simp
next
  case False
  with takes_runs [OF runs_keyboard [OF assms(2)], of ms] show ?thesis
    by (intro exI [of _ "set_top (keyboard_flags live) (keyboard ms)"])
      (simp add: postamble_keyboard_def keyboard_flags_def set_top_def)
qed

section \<open>The DEC modes kept in the table\<close>

abbreviation upd_flag :: "nat \<Rightarrow> bool \<Rightarrow> modes \<Rightarrow> modes" where
  "upd_flag i v ms \<equiv> ms\<lparr>dec_flags := (dec_flags ms)[i := v]\<rparr>"

lemma position_tracked:
  "position (\<lambda>(m, _). m = 1) TRACKED_MODES = Some 0"
  "position (\<lambda>(m, _). m = 6) TRACKED_MODES = Some 1"
  "position (\<lambda>(m, _). m = 7) TRACKED_MODES = Some 2"
  "position (\<lambda>(m, _). m = 25) TRACKED_MODES = Some 3"
  "position (\<lambda>(m, _). m = 1004) TRACKED_MODES = Some 4"
  "position (\<lambda>(m, _). m = 2004) TRACKED_MODES = Some 5"
  "position (\<lambda>(m, _). m = 2026) TRACKED_MODES = Some 6"
  by (simp_all add: TRACKED_MODES_def)

lemma set_dec_tracked:
  "set_dec 1 v ms = upd_flag 0 v ms" "set_dec 6 v ms = upd_flag 1 v ms"
  "set_dec 7 v ms = upd_flag 2 v ms" "set_dec 25 v ms = upd_flag 3 v ms"
  "set_dec 1004 v ms = upd_flag 4 v ms" "set_dec 2004 v ms = upd_flag 5 v ms"
  by (simp_all add: set_dec_def ALT_SCREEN_MODES_def MOUSE_TRACKING_def MOUSE_ENCODING_def
      position_tracked)

lemma modes_dec_tracked:
  "modes_dec ms 1 = Some (dec_flags ms ! 0)" "modes_dec ms 6 = Some (dec_flags ms ! 1)"
  "modes_dec ms 7 = Some (dec_flags ms ! 2)" "modes_dec ms 25 = Some (dec_flags ms ! 3)"
  "modes_dec ms 1004 = Some (dec_flags ms ! 4)" "modes_dec ms 2004 = Some (dec_flags ms ! 5)"
  "modes_dec ms 2026 = Some (dec_flags ms ! 6)"
  by (simp_all add: modes_dec_def position_tracked)

lemma takes_flag:
  assumes "set_dec m v ms = upd_flag i v ms" "dec_flags ms ! i = b"
  shows "takes (if b = v then [] else dec_seq m v) ms (upd_flag i v ms)"
proof (cases "b = v")
  case True
  then have v: "v = dec_flags ms ! i" using assms(2) by simp
  have "upd_flag i v ms = ms" unfolding v by simp
  with True show ?thesis by auto
next
  case False
  with takes_dec_seq [OF assms(1)] show ?thesis by simp
qed

lemma takes_cursor:
  assumes "dec_flags ms ! 3 = dec_flags body ! 3"
  shows "takes (postamble_cursor body live) ms (upd_flag 3 (dec_flags live ! 3) ms)"
proof -
  have "postamble_cursor body live =
      (if dec_flags body ! 3 = dec_flags live ! 3 then [] else dec_seq 25 (dec_flags live ! 3))"
    by (simp add: postamble_cursor_def modes_dec_tracked dec_seq_25 dec_seq_def)
  with takes_flag [OF set_dec_tracked(4) assms] show ?thesis by simp
qed

lemma takes_homing:
  assumes "scroll_region ms = scroll_region body" "dec_flags ms ! 1 = dec_flags body ! 1"
    and region: "case scroll_region live of None \<Rightarrow> True | Some (tp, bt) \<Rightarrow> 1 \<le> tp \<and> tp < bt"
  shows "takes (postamble_homing body live) ms
           (upd_flag 1 (dec_flags live ! 1) (ms\<lparr>scroll_region := scroll_region live\<rparr>))"
proof -
  let ?r = "if scroll_region body \<noteq> scroll_region live then
           (case scroll_region live of
              Some (tp, bottom) \<Rightarrow>
                csi (dec_bytes (unat tp) @ 0x3b # dec_bytes (unat bottom)) 0x72
            | None \<Rightarrow> csi [] 0x72)
         else []"
  let ?o = "if dec_flags body ! 1 = dec_flags live ! 1 then []
            else dec_seq 6 (dec_flags live ! 1)"
  let ?ms1 = "ms\<lparr>scroll_region := scroll_region live\<rparr>"
  have r: "takes ?r ms ?ms1"
    using assms(1) region takes_runs [OF runs_region, of _ _ ms] takes_runs [OF runs_region_reset, of ms]
    by (auto split: option.split intro: takes_eq [OF takes_nil])
  have "takes ?o ?ms1 (upd_flag 1 (dec_flags live ! 1) ?ms1)"
    by (rule takes_flag) (use assms(2) in \<open>simp_all add: set_dec_tracked\<close>)
  with r have ro: "takes (?r @ ?o) ms (upd_flag 1 (dec_flags live ! 1) ?ms1)"
    by (rule takes_append)
  have save: "takes [0x1b, 0x37] ms ms" and restore: "takes [0x1b, 0x38] ms' ms'" for ms'
    using takes_runs [OF runs_save_cursor(1), of ms] takes_runs [OF runs_save_cursor(2), of ms']
    by simp_all
  have whole: "takes ([0x1b, 0x37] @ (?r @ ?o) @ [0x1b, 0x38]) ms
      (upd_flag 1 (dec_flags live ! 1) ?ms1)"
    by (rule takes_append [OF save takes_append [OF ro restore]])
  have eq: "postamble_homing body live =
      (if ?r @ ?o \<noteq> [] then [0x1b, 0x37] @ (?r @ ?o) @ [0x1b, 0x38] else [])"
    unfolding postamble_homing_def Let_def modes_dec_tracked
    by (simp add: dec_seq_6 dec_seq_def)
  show ?thesis
  proof (cases "?r @ ?o = []")
    case True
    then show ?thesis using ro unfolding eq by (simp only: if_False simp_thms)
  next
    case False
    then show ?thesis using whole unfolding eq by (simp only: if_True simp_thms)
  qed
qed

definition flag_seq :: "modes \<Rightarrow> modes \<Rightarrow> nat \<Rightarrow> u16 \<Rightarrow> bytes" where
  "flag_seq body live i m =
     (if dec_flags body ! i = dec_flags live ! i then [] else dec_seq m (dec_flags live ! i))"

lemma takes_flag_seq:
  assumes "set_dec m (dec_flags live ! i) ms = upd_flag i (dec_flags live ! i) ms"
    and "dec_flags ms ! i = dec_flags body ! i"
  shows "takes (flag_seq body live i m) ms (upd_flag i (dec_flags live ! i) ms)"
  using takes_flag [OF assms] by (simp add: flag_seq_def)

lemma enumerate_tracked:
  "List.enumerate 0 TRACKED_MODES =
     [(0, 1, False), (1, 6, False), (2, 7, True), (3, 25, True),
      (4, 1004, False), (5, 2004, False), (6, 2026, False)]"
  unfolding TRACKED_MODES_def by (simp add: numeral_eq_Suc del: One_nat_def)

lemma postamble_dec_segments:
  "postamble_dec body live =
     flag_seq body live 0 1 @ flag_seq body live 2 7 @
     flag_seq body live 4 1004 @ flag_seq body live 5 2004"
  by (simp add: postamble_dec_def enumerate_tracked flag_seq_def)

lemma takes_dec:
  assumes "\<And>i. i \<in> {0, 2, 4, 5} \<Longrightarrow> dec_flags ms ! i = dec_flags body ! i"
  shows "takes (postamble_dec body live) ms
     (upd_flag 5 (dec_flags live ! 5) (upd_flag 4 (dec_flags live ! 4)
       (upd_flag 2 (dec_flags live ! 2) (upd_flag 0 (dec_flags live ! 0) ms))))"
proof -
  let ?l = "dec_flags live"
  let ?m1 = "upd_flag 0 (?l ! 0) ms"
  let ?m2 = "upd_flag 2 (?l ! 2) ?m1"
  let ?m3 = "upd_flag 4 (?l ! 4) ?m2"
  have "takes (flag_seq body live 0 1) ms ?m1"
    by (rule takes_flag_seq [OF set_dec_tracked(1)]) (simp add: assms)
  moreover have "takes (flag_seq body live 2 7) ?m1 ?m2"
    by (rule takes_flag_seq [OF set_dec_tracked(3)]) (simp add: assms)
  moreover have "takes (flag_seq body live 4 1004) ?m2 ?m3"
    by (rule takes_flag_seq [OF set_dec_tracked(5)]) (simp add: assms)
  moreover have "takes (flag_seq body live 5 2004) ?m3 (upd_flag 5 (?l ! 5) ?m3)"
    by (rule takes_flag_seq [OF set_dec_tracked(6)]) (simp add: assms)
  ultimately show ?thesis
    unfolding postamble_dec_segments by (blast intro: takes_append)
qed

section \<open>The client ends in the live modes\<close>

text \<open>
  Agreement on everything a reattach restores: synchronized output (2026) is left
  out on purpose, and of the keyboard stack only the flags in force count.
\<close>

definition modes_agree :: "modes \<Rightarrow> modes \<Rightarrow> bool" where
  "modes_agree a b \<longleftrightarrow>
     alt_screen a = alt_screen b \<and>
     (\<forall>(m, _) \<in> set TRACKED_MODES. m \<noteq> 2026 \<longrightarrow> modes_dec a m = modes_dec b m) \<and>
     mouse_tracking a = mouse_tracking b \<and> mouse_encoding a = mouse_encoding b \<and>
     scroll_region a = scroll_region b \<and>
     keypad_application a = keypad_application b \<and> keyboard_flags a = keyboard_flags b"

text \<open>The two values the text of a sequence cannot carry back: see the theorems below.\<close>

definition expressible :: "modes \<Rightarrow> bool" where
  "expressible ms \<longleftrightarrow> unat (keyboard_flags ms) < 10 ^ 9 \<and>
     (case scroll_region ms of None \<Rightarrow> True | Some (tp, bt) \<Rightarrow> tp < bt)"

lemma takes_postamble:
  assumes wb: "modes_wf body" and wl: "modes_wf live" and ex: "expressible live"
  shows "\<exists>ms'. takes (postamble body live) body ms' \<and> modes_agree ms' live \<and>
               modes_dec ms' 2026 = modes_dec body 2026"
proof (cases "body = live")
  case True
  then show ?thesis by (intro exI [of _ body]) (auto simp: postamble_def modes_agree_def)
next
  case False
  let ?l = "dec_flags live"
  let ?m1 = "body\<lparr>alt_screen := alt_screen live\<rparr>"
  let ?m2 = "upd_flag 1 (?l ! 1) (?m1\<lparr>scroll_region := scroll_region live\<rparr>)"
  let ?m3 = "upd_flag 5 (?l ! 5) (upd_flag 4 (?l ! 4) (upd_flag 2 (?l ! 2) (upd_flag 0 (?l ! 0) ?m2)))"
  let ?m4 = "?m3\<lparr>mouse_tracking := mouse_tracking live\<rparr>"
  let ?m5 = "?m4\<lparr>mouse_encoding := mouse_encoding live\<rparr>"
  let ?m6 = "?m5\<lparr>keypad_application := keypad_application live\<rparr>"
  have region: "case scroll_region live of None \<Rightarrow> True | Some (tp, bt) \<Rightarrow> 1 \<le> tp \<and> tp < bt"
    using wl ex by (auto simp: modes_wf_def expressible_def split: option.splits)
  have "keyboard_flags ?m6 = keyboard_flags body" by (simp add: keyboard_flags_def)
  then obtain kb where k: "takes (postamble_keyboard body live) ?m6 (?m6\<lparr>keyboard := kb\<rparr>)"
    and kf: "keyboard_flags (?m6\<lparr>keyboard := kb\<rparr>) = keyboard_flags live"
    using takes_keyboard [of ?m6 body live] ex by (auto simp: expressible_def)
  let ?m7 = "?m6\<lparr>keyboard := kb\<rparr>"
  let ?m8 = "upd_flag 3 (?l ! 3) ?m7"
  have s1: "takes (postamble_alt body live) body ?m1" by (rule takes_alt [OF wb wl refl])
  have s2: "takes (postamble_homing body live) ?m1 ?m2"
    by (rule takes_homing) (use region in simp_all)
  have s3: "takes (postamble_dec body live) ?m2 ?m3"
    by (rule takes_dec) auto
  have s4: "takes (postamble_group (mouse_tracking body) (mouse_tracking live)) ?m3 ?m4"
    by (rule takes_group_tracking [OF wb wl]) simp
  have s5: "takes (postamble_group (mouse_encoding body) (mouse_encoding live)) ?m4 ?m5"
    by (rule takes_group_encoding [OF wb wl]) simp
  have s6: "takes (postamble_keypad body live) ?m5 ?m6" by (rule takes_keypad) simp
  have s8: "takes (postamble_cursor body live) ?m7 ?m8" by (rule takes_cursor) simp
  have "takes (postamble body live) body ?m8"
    unfolding postamble_def if_not_P [OF False]
    by (intro takes_append [OF s1] takes_append [OF s2] takes_append [OF s3] takes_append [OF s4]
        takes_append [OF s5] takes_append [OF s6] takes_append [OF k] s8)
  moreover have "length (dec_flags body) = 7" "length ?l = 7"
    using wb wl by (simp_all add: modes_wf_def TRACKED_MODES_def)
  then have "modes_agree ?m8 live" "modes_dec ?m8 2026 = modes_dec body 2026"
    using kf by (auto simp: modes_agree_def TRACKED_MODES_def modes_dec_tracked keyboard_flags_def
        split: if_splits)
  ultimately show ?thesis by blast
qed

lemma postamble_restores:
  assumes body: "t = feed replayed (tracker_starting_at n)" and ground: "t_scan t = Ground"
    and live: "live = t_modes (feed stream (tracker_starting_at m))" and ex: "expressible live"
  shows "t_scan (feed (postamble (t_modes t) live) t) = Ground \<and>
         modes_agree (t_modes (feed (postamble (t_modes t) live) t)) live \<and>
         modes_dec (t_modes (feed (postamble (t_modes t) live) t)) 2026 = modes_dec (t_modes t) 2026"
proof -
  have wf: "modes_wf (t_modes (feed bs (tracker_starting_at k)))" for bs k
    using fold_step1_wf [of "tracker_starting_at k" bs]
    by (simp add: feed_step1) (simp add: tracker_starting_at_def)
  have "modes_wf (t_modes t)" "modes_wf live" using wf body live by simp_all
  from takes_postamble [OF this ex] obtain ms' where
    "takes (postamble (t_modes t) live) (t_modes t) ms'" "modes_agree ms' live"
    "modes_dec ms' 2026 = modes_dec (t_modes t) 2026" by blast
  moreover have "tracker_inv t" using body by (simp add: feed_step1 tracker_inv_fold)
  ultimately show ?thesis using ground by (simp add: takes_def feed_step1)
qed

text \<open>C29: A client that replayed any stretch of output ending outside an escape sequence,
  and then reads the postamble computed for the live modes, is outside any sequence again
  and agrees with the live modes on everything tracked; synchronized output alone keeps
  the value the replay left.\<close>

theorem postamble_restores_live_modes:
  assumes body: "t = feed replayed (tracker_starting_at n)" and ground: "t_scan t = Ground"
    and live: "live = t_modes (feed stream (tracker_starting_at m))" and ex: "expressible live"
  shows "t_scan (feed (postamble (t_modes t) live) t) = Ground \<and>
         modes_agree (t_modes (feed (postamble (t_modes t) live) t)) live \<and>
         modes_dec (t_modes (feed (postamble (t_modes t) live) t)) 2026 = modes_dec (t_modes t) 2026"
  using assms by (rule postamble_restores)

text \<open>A program in the alternate screen with bracketed paste on, replayed from a cut that
  lost both.\<close>

definition demo_stream :: bytes where
  "demo_stream = dec_seq 1049 True @ dec_seq 2004 True"

lemma demo_live:
  "t_modes (feed demo_stream (tracker_starting_at 0)) =
     set_dec 2004 True (set_dec 1049 True modes_default)"
proof -
  have "runs demo_stream (set_dec 2004 True \<circ> set_dec 1049 True)"
    unfolding demo_stream_def by (intro runs_append runs_dec_seq)
  then show ?thesis
    by (simp add: runs_def feed_step1) (simp add: tracker_starting_at_def)
qed

lemma demo_expressible: "expressible (t_modes (feed demo_stream (tracker_starting_at 0)))"
  unfolding demo_live
  by (simp add: expressible_def keyboard_flags_def modes_default_def set_dec_tracked)
     (simp add: set_dec_def ALT_SCREEN_MODES_def)

theorem postamble_restores_live_modes_witness:
  "modes_agree
     (t_modes (feed (postamble (t_modes (feed [] (tracker_starting_at 7)))
                 (t_modes (feed demo_stream (tracker_starting_at 0))))
        (feed [] (tracker_starting_at 7))))
     (t_modes (feed demo_stream (tracker_starting_at 0)))"
proof -
  have "t_scan (feed [] (tracker_starting_at 7)) = Ground"
    by (simp add: feed.simps tracker_starting_at_def)
  from postamble_restores_live_modes [OF refl this refl demo_expressible] show ?thesis by blast
qed

text \<open>The bounds of a scroll region are compared before they are clamped to 16 bits, so
  \<open>CSI 65535 ; 65536 r\<close> records the region \<open>(65535, 65535)\<close>, which the tracker itself
  reads back as the full screen.\<close>

theorem scroll_region_clamp_collapses:
  "scroll_region (set_scroll_region [Some 65535, Some 65536] ms) = Some (65535, 65535) \<and>
   scroll_region (set_scroll_region [Some 65535, Some 65535] ms) = None"
  by (simp add: set_scroll_region_def nth_num_def u32_or_def clamp_u16_def u16_try_from_def)

end
