(* ===== verification/Replay_Log.thy ===== *)
theory Replay_Log
  imports Ring_Buffer Vt_Postamble
begin

text \<open>
  The replay log of a PTY (\<open>crates/relay/src/reader.rs\<close>): the ring and the mode
  tracker under one lock, its snapshot, and the bytes an attaching client is sent.
  A panic (a slice out of range, \<open>split_off\<close> past the end) is \<open>None\<close>.
\<close>

section \<open>State and operations\<close>

record replay_log =
  l_ring :: ring
  l_modes :: tracker

record replay =
  rp_bytes :: bytes
  rp_alt_screen :: bool

record replay_snapshot =
  s_snap :: bytes
  s_offset :: u64
  s_live :: modes
  s_alt_entry_end :: "u64 option"
  s_seq_start :: "u64 option"

definition log_push :: "bytes \<Rightarrow> replay_log \<Rightarrow> replay_log option" where
  "log_push bs l =
     (case ring_push bs (l_ring l) of
        None \<Rightarrow> None
      | Some r \<Rightarrow> Some \<lparr>l_ring = r, l_modes = feed bs (l_modes l)\<rparr>)"

definition log_new :: "nat \<Rightarrow> bytes \<Rightarrow> replay_log option" where
  "log_new capacity prefill =
     (case ring_new capacity of
        None \<Rightarrow> None
      | Some r \<Rightarrow> log_push prefill \<lparr>l_ring = r, l_modes = tracker_new\<rparr>)"

definition log_raw :: "replay_log \<Rightarrow> bytes option" where
  "log_raw l = ring_snapshot (l_ring l)"

definition log_snapshot :: "replay_log \<Rightarrow> replay_snapshot option" where
  "log_snapshot l =
     (case ring_snapshot (l_ring l) of
        None \<Rightarrow> None
      | Some s \<Rightarrow> Some \<lparr>s_snap = s, s_offset = t_offset (l_modes l), s_live = t_modes (l_modes l),
                         s_alt_entry_end = alt_entry_end (l_modes l),
                         s_seq_start = seq_start (l_modes l)\<rparr>)"

text \<open>\<open>Vec::split_off\<close>: the kept front and the returned back.\<close>

definition split_off :: "nat \<Rightarrow> 'a list \<Rightarrow> ('a list \<times> 'a list) option" where
  "split_off i xs = (if i \<le> length xs then Some (take i xs, drop i xs) else None)"

definition body_start :: "replay_snapshot \<Rightarrow> nat" where
  "body_start s =
     (if s_offset s > word_of_nat (length (s_snap s)) then align_start (s_snap s) else 0)"

definition build_evicted :: "replay_snapshot \<Rightarrow> bool" where
  "build_evicted s =
     (let body_start_offset = s_offset s - word_of_nat (length (s_snap s) - body_start s)
      in case s_alt_entry_end s of None \<Rightarrow> False | Some e \<Rightarrow> e \<le> body_start_offset)"

text \<open>The index in the snapshot at which the unfinished sequence is cut off, if it is there.\<close>

definition build_tail_at :: "replay_snapshot \<Rightarrow> nat option" where
  "build_tail_at s =
     (let first_offset = s_offset s - word_of_nat (length (s_snap s))
      in case s_seq_start s of
           Some start \<Rightarrow>
             (if start \<ge> first_offset \<and> unat (start - first_offset) \<ge> body_start s
              then Some (unat (start - first_offset)) else None)
         | None \<Rightarrow> None)"

definition build_cut :: "replay_snapshot \<Rightarrow> (bytes \<times> bytes) option" where
  "build_cut s =
     (case build_tail_at s of
        Some i \<Rightarrow> split_off i (s_snap s)
      | None \<Rightarrow> Some (s_snap s, []))"

definition build_body :: "replay_snapshot \<Rightarrow> bytes \<Rightarrow> bytes option" where
  "build_body s snap =
     (if build_evicted s then Some [] else map_option snd (split_off (body_start s) snap))"

definition build :: "replay_snapshot \<Rightarrow> replay option" where
  "build s =
     (case build_cut s of
        None \<Rightarrow> None
      | Some (snap, tail) \<Rightarrow>
          (case build_body s snap of
             None \<Rightarrow> None
           | Some body \<Rightarrow>
               Some \<lparr>rp_bytes = body @
                       postamble (t_modes (feed body tracker_new)) (s_live s) @ tail,
                     rp_alt_screen = (alt_screen (s_live s) \<noteq> None)\<rparr>))"

section \<open>An unfinished sequence can be replayed on its own\<close>

text \<open>Two trackers are scanning alike: the parameters only matter inside a CSI.\<close>

definition same_scan :: "tracker \<Rightarrow> tracker \<Rightarrow> bool" where
  "same_scan t u \<longleftrightarrow> t_scan t = t_scan u \<and>
     (t_scan t = Csi \<longrightarrow> t_params t = t_params u \<and> params_overflowed t = params_overflowed u)"

lemma step1_scan:
  "t_scan (step1 b t) = t_scan (advance b (t\<lparr>t_offset := t_offset t + 1\<rparr>))"
  "t_params (step1 b t) = t_params (advance b (t\<lparr>t_offset := t_offset t + 1\<rparr>))"
  "params_overflowed (step1 b t) = params_overflowed (advance b (t\<lparr>t_offset := t_offset t + 1\<rparr>))"
  "t_modes (step1 b t) = t_modes (advance b (t\<lparr>t_offset := t_offset t + 1\<rparr>))"
  by (auto simp: step1_def step_def Let_def split: scan.split)

lemma same_scan_esc: "same_scan (advance_esc b t) (advance_esc b u)"
  by (simp add: same_scan_def advance_esc_def)

lemma same_scan_advance: "same_scan t u \<Longrightarrow> same_scan (advance b t) (advance b u)"
proof -
  assume s: "same_scan t u"
  then have sc: "t_scan u = t_scan t" by (simp add: same_scan_def)
  show ?thesis
  proof (cases "t_scan t")
    case Csi
    with s have "t_params t = t_params u" "params_overflowed t = params_overflowed u"
      by (simp_all add: same_scan_def)
    with Csi sc show ?thesis by (simp add: same_scan_def advance_def)
  next
    case Esc
    with sc show ?thesis
      by (simp add: advance_def same_scan_esc) (simp add: same_scan_def)
  next
    case StrEsc
    with sc show ?thesis
      by (simp add: advance_def same_scan_esc) (simp add: same_scan_def)
  qed (use sc in \<open>simp_all add: same_scan_def advance_def\<close>)
qed

lemma same_scan_step1: "same_scan t u \<Longrightarrow> same_scan (step1 b t) (step1 b u)"
  using same_scan_advance [of "t\<lparr>t_offset := t_offset t + 1\<rparr>" "u\<lparr>t_offset := t_offset u + 1\<rparr>" b]
  by (simp add: same_scan_def step1_scan)

text \<open>The modes change only where a sequence ends.\<close>

lemma modes_mid_esc:
  "t_scan (advance_esc b t) = Ground \<or> t_modes (advance_esc b t) = t_modes t"
  by (simp add: advance_esc_def)

lemma modes_mid_csi:
  assumes "t_scan t = Csi" "t_scan (advance b t) \<noteq> Ground"
  shows "t_modes (advance b t) = t_modes t"
proof (cases "0x40 \<le> b \<and> b \<le> 0x7e")
  case True
  then have "b \<noteq> 0x18 \<and> b \<noteq> 0x1a \<and> \<not> b \<le> 0x3f" by (auto simp: word_le_nat_alt)
  with True assms show ?thesis by (simp add: advance_def)
next
  case False
  with assms(1) show ?thesis by (auto simp: advance_def)
qed

lemma modes_mid_advance:
  "t_scan (advance b t) \<noteq> Ground \<Longrightarrow> t_modes (advance b t) = t_modes t"
  using modes_mid_esc [of b t] modes_mid_esc [of b "t\<lparr>t_scan := Esc\<rparr>"] modes_mid_csi [of t b]
  by (cases "t_scan t") (simp_all add: advance_def split: if_splits)

lemma modes_mid_sequence: "t_scan (step1 b t) \<noteq> Ground \<Longrightarrow> t_modes (step1 b t) = t_modes t"
  using modes_mid_advance [of b "t\<lparr>t_offset := t_offset t + 1\<rparr>"] by (simp add: step1_scan)

definition in_flight :: "bytes \<Rightarrow> tracker \<Rightarrow> bool" where
  "in_flight suf t \<longleftrightarrow> (\<forall>g. t_scan g = Ground \<longrightarrow>
     same_scan (fold step1 suf g) t \<and> t_modes (fold step1 suf g) = t_modes g)"

lemma in_flight_step:
  assumes "in_flight suf t" and "t_scan (step1 b t) \<noteq> Ground"
  shows "in_flight (suf @ [b]) (step1 b t)"
  unfolding in_flight_def
proof (intro allI impI)
  fix g :: tracker assume g: "t_scan g = Ground"
  let ?f = "fold step1 suf g"
  from assms(1) g have s: "same_scan ?f t" and m: "t_modes ?f = t_modes g"
    by (auto simp: in_flight_def)
  from same_scan_step1 [OF s, of b] have s': "same_scan (step1 b ?f) (step1 b t)" .
  then have "t_scan (step1 b ?f) \<noteq> Ground" using assms(2) by (simp add: same_scan_def)
  with m s' show "same_scan (fold step1 (suf @ [b]) g) (step1 b t) \<and>
      t_modes (fold step1 (suf @ [b]) g) = t_modes g"
    by (simp add: modes_mid_sequence)
qed

lemma in_flight_fresh:
  "t_scan (step1 0x1b t) = Esc \<Longrightarrow> in_flight [0x1b] (step1 0x1b t)"
  by (auto simp: in_flight_def same_scan_def step1_scan advance_def)

text \<open>What the tracker knows of the stream it was fed.\<close>

definition tracks :: "bytes \<Rightarrow> tracker \<Rightarrow> bool" where
  "tracks stream t \<longleftrightarrow> t_offset t = word_of_nat (length stream) \<and>
     (case seq_start t of
        None \<Rightarrow> t_scan t = Ground
      | Some s \<Rightarrow> t_scan t \<noteq> Ground \<and> (\<exists>p < length stream. s = word_of_nat p \<and>
          in_flight (drop p stream) t \<and>
          t_modes (fold step1 (take p stream) tracker_new) = t_modes t))"

lemma seq_start_step1:
  "seq_start (step1 b t) =
     (if t_scan (step1 b t) = Ground then None
      else if t_scan (step1 b t) = Esc \<and> b = 0x1b \<and> t_scan t \<noteq> Str
      then Some (if t_offset t + 1 = 0 then 0 else t_offset t)
      else seq_start t)"
  and t_offset_step1: "t_offset (step1 b t) = t_offset t + 1"
proof -
  have frame_esc: "t_offset (advance_esc b u) = t_offset u \<and> seq_start (advance_esc b u) = seq_start u"
    for b u by (simp add: advance_esc_def)
  have frame_dec: "t_offset (set_dec_modes on l u) = t_offset u \<and>
      seq_start (set_dec_modes on l u) = seq_start u" for on l u
    unfolding set_dec_modes_def by (induction l arbitrary: u) (auto simp: Let_def)
  have frame_csi: "t_offset (dispatch_csi b u) = t_offset u \<and>
      seq_start (dispatch_csi b u) = seq_start u" for b u
    by (simp add: dispatch_csi_def Let_def frame_dec split: prod.split)
  have frame: "t_offset (advance b u) = t_offset u \<and> seq_start (advance b u) = seq_start u" for b u
    by (simp add: advance_def frame_esc frame_csi split: scan.split)
  show "t_offset (step1 b t) = t_offset t + 1"
    by (cases "t_scan (advance b (t\<lparr>t_offset := t_offset t + 1\<rparr>))")
      (simp_all add: step1_def step_def Let_def frame)
  show "seq_start (step1 b t) =
     (if t_scan (step1 b t) = Ground then None
      else if t_scan (step1 b t) = Esc \<and> b = 0x1b \<and> t_scan t \<noteq> Str
      then Some (if t_offset t + 1 = 0 then 0 else t_offset t)
      else seq_start t)"
    unfolding step1_scan(1)
    by (cases "t_scan (advance b (t\<lparr>t_offset := t_offset t + 1\<rparr>))")
      (simp_all add: step1_def step_def Let_def frame)
qed

lemma scan_leaves_ground: "t_scan t = Ground \<Longrightarrow> t_scan (step1 b t) \<noteq> Ground \<Longrightarrow>
    b = 0x1b \<and> t_scan (step1 b t) = Esc"
  by (auto simp: step1_scan advance_def split: if_splits)

lemma tracks_feed:
  "length stream < 2 ^ 64 \<Longrightarrow> tracks stream (fold step1 stream tracker_new)"
proof (induction stream rule: rev_induct)
  case Nil
  then show ?case by (simp add: tracks_def tracker_new_def tracker_starting_at_def)
next
  case (snoc b bs)
  let ?t = "fold step1 bs tracker_new"
  let ?n = "length bs"
  from snoc have tr: "tracks bs ?t" and n: "Suc ?n < 2 ^ 64" by simp_all
  have off: "t_offset ?t = word_of_nat ?n" using tr by (simp add: tracks_def)
  have nz: "t_offset ?t + 1 \<noteq> 0"
  proof
    assume "t_offset ?t + 1 = 0"
    then have "(word_of_nat (Suc ?n) :: u64) = 0" by (simp add: off add.commute)
    then have "2 ^ 64 dvd Suc ?n" by (simp only: word_of_nat_eq_0_iff) simp
    then show False using n by (meson dvd_imp_le not_less zero_less_Suc)
  qed
  have off': "t_offset (step1 b ?t) = word_of_nat (length (bs @ [b]))"
    by (simp add: t_offset_step1 off)
  consider (ground) "t_scan (step1 b ?t) = Ground"
    | (fresh) "t_scan (step1 b ?t) = Esc" "b = 0x1b" "t_scan ?t \<noteq> Str"
    | (going) "t_scan (step1 b ?t) \<noteq> Ground"
        "\<not> (t_scan (step1 b ?t) = Esc \<and> b = 0x1b \<and> t_scan ?t \<noteq> Str)"
    by blast
  then show ?case
  proof cases
    case ground
    then show ?thesis using off' by (simp add: tracks_def seq_start_step1)
  next
    case fresh
    then have "seq_start (step1 b ?t) = Some (word_of_nat ?n)"
      using nz by (simp add: seq_start_step1 off)
    moreover have "in_flight [b] (step1 b ?t)" "t_modes (step1 b ?t) = t_modes ?t"
      using fresh in_flight_fresh [of ?t] modes_mid_sequence [of b ?t] by auto
    ultimately show ?thesis using fresh(1) off'
      by (auto simp: tracks_def intro!: exI [of _ ?n])
  next
    case going
    then have ng: "t_scan ?t \<noteq> Ground" using scan_leaves_ground [of ?t b] by auto
    then obtain p where p: "seq_start ?t = Some (word_of_nat p)" "p < ?n"
      "in_flight (drop p bs) ?t" "t_modes (fold step1 (take p bs) tracker_new) = t_modes ?t"
      using tr by (auto simp: tracks_def split: option.splits)
    have "seq_start (step1 b ?t) = Some (word_of_nat p)"
      using going p(1) by (auto simp: seq_start_step1)
    moreover have "in_flight (drop p (bs @ [b])) (step1 b ?t)"
      using in_flight_step [OF p(3) going(1)] p(2) by simp
    moreover have "t_modes (step1 b ?t) = t_modes ?t" using modes_mid_sequence [OF going(1)] .
    ultimately show ?thesis using going(1) off' p(2,4)
      by (auto simp: tracks_def intro!: exI [of _ p])
  qed
qed

section \<open>The log holds the stream\<close>

definition holds :: "nat \<Rightarrow> bytes \<Rightarrow> replay_log \<Rightarrow> bool" where
  "holds c stream l \<longleftrightarrow> ring_inv (l_ring l) \<and> cap (l_ring l) = c \<and>
     ring_view (l_ring l) = lastn c stream \<and> l_modes l = fold step1 stream tracker_new"

lemma tracker_inv_stream [simp]: "tracker_inv (fold step1 bs tracker_new)"
  by (simp add: tracker_inv_fold tracker_new_def)

lemma log_push_holds:
  assumes "holds c stream l"
  shows "\<exists>l'. log_push bs l = Some l' \<and> holds c (stream @ bs) l'"
proof -
  from assms have inv: "ring_inv (l_ring l)" by (simp add: holds_def)
  from ring_push_ok [OF inv, of bs] obtain r where
    "ring_push bs (l_ring l) = Some r" "ring_inv r" "cap r = cap (l_ring l)"
    "ring_view r = lastn (cap (l_ring l)) (ring_view (l_ring l) @ bs)" by blast
  with assms show ?thesis
    by (simp add: log_push_def holds_def feed_step1 lastn_lastn_append)
qed

lemma log_new_holds:
  "0 < c \<Longrightarrow> \<exists>l. log_new c prefill = Some l \<and> holds c prefill l"
proof -
  assume "0 < c"
  then obtain r where r: "ring_new c = Some r" by (auto simp: ring_new_def)
  from ring_new_inv [OF r] have "holds c [] \<lparr>l_ring = r, l_modes = tracker_new\<rparr>"
    by (simp add: holds_def)
  from log_push_holds [OF this, of prefill] r show ?thesis by (simp add: log_new_def)
qed

lemma log_pushes_hold:
  "holds c stream l \<Longrightarrow> \<exists>l'. fold_opt log_push chunks l = Some l' \<and>
     holds c (stream @ concat chunks) l'"
proof (induction chunks arbitrary: stream l)
  case Nil
  then show ?case by simp
next
  case (Cons b bs)
  from log_push_holds [OF Cons.prems, of b] obtain l1 where
    "log_push b l = Some l1" "holds c (stream @ b) l1" by blast
  with Cons.IH [of "stream @ b" l1] show ?case by simp
qed

definition snapshot_of :: "nat \<Rightarrow> bytes \<Rightarrow> replay_snapshot" where
  "snapshot_of c stream =
     (let t = fold step1 stream tracker_new in
      \<lparr>s_snap = lastn c stream, s_offset = t_offset t, s_live = t_modes t,
       s_alt_entry_end = alt_entry_end t, s_seq_start = seq_start t\<rparr>)"

lemma log_snapshot_holds: "holds c stream l \<Longrightarrow> log_snapshot l = Some (snapshot_of c stream)"
  by (simp add: holds_def log_snapshot_def ring_snapshot_view snapshot_of_def Let_def)

lemma holds_raw: "holds c stream l \<Longrightarrow> log_raw l = Some (lastn c stream)"
  by (simp add: holds_def log_raw_def ring_snapshot_view)

section \<open>Offsets\<close>

lemma unat_of_nat64: "n < 2 ^ 64 \<Longrightarrow> unat (word_of_nat n :: u64) = n"
  by (simp add: unat_of_nat take_bit_nat_eq_self)

lemma t_offset_stream: "t_offset (fold step1 bs t) = t_offset t + word_of_nat (length bs)"
  by (induction bs arbitrary: t) (simp_all add: t_offset_step1)

lemma snapshot_simps [simp]:
  "s_snap (snapshot_of c stream) = lastn c stream"
  "s_live (snapshot_of c stream) = t_modes (fold step1 stream tracker_new)"
  "s_alt_entry_end (snapshot_of c stream) = alt_entry_end (fold step1 stream tracker_new)"
  "s_seq_start (snapshot_of c stream) = seq_start (fold step1 stream tracker_new)"
  by (simp_all add: snapshot_of_def Let_def)

lemma snapshot_offset [simp]: "s_offset (snapshot_of c stream) = word_of_nat (length stream)"
  by (simp add: snapshot_of_def Let_def t_offset_stream)
    (simp add: tracker_new_def tracker_starting_at_def)

lemma snapshot_first_offset:
  "s_offset (snapshot_of c stream) - word_of_nat (length (lastn c stream)) =
     word_of_nat (length stream - c)"
proof -
  have "length stream = (length stream - c) + length (lastn c stream)" by simp
  then have "(word_of_nat (length stream) :: u64) =
      word_of_nat (length stream - c) + word_of_nat (length (lastn c stream))"
    by (metis of_nat_add)
  then show ?thesis by simp
qed

lemma align_start_le: "align_start snap \<le> length snap"
  using align_start_facts [of snap] by (auto simp: clean_cut_def split: if_splits)

lemma body_start_le: "body_start s \<le> length (s_snap s)"
  by (simp add: body_start_def align_start_le)

lemma body_start_unwrapped:
  "length stream < 2 ^ 64 \<Longrightarrow> length stream \<le> c \<Longrightarrow> body_start (snapshot_of c stream) = 0"
  by (simp add: body_start_def)

text \<open>Where the unfinished sequence starts, and that the log's snapshot holds all of it.\<close>

lemma build_tail_at_Some:
  assumes n: "length stream < 2 ^ 64" and t: "build_tail_at (snapshot_of c stream) = Some i"
  shows "\<exists>p. seq_start (fold step1 stream tracker_new) = Some (word_of_nat p) \<and> p < length stream \<and>
     i = p - (length stream - c) \<and> length stream - c \<le> p \<and>
     body_start (snapshot_of c stream) \<le> i \<and> i < length (lastn c stream) \<and>
     drop i (lastn c stream) = drop p stream \<and>
     in_flight (drop p stream) (fold step1 stream tracker_new) \<and>
     t_modes (fold step1 (take p stream) tracker_new) = t_modes (fold step1 stream tracker_new)"
proof -
  let ?t = "fold step1 stream tracker_new" and ?f = "length stream - c"
  have first: "s_offset (snapshot_of c stream) - word_of_nat (length (lastn c stream)) =
      word_of_nat ?f" by (rule snapshot_first_offset)
  from t obtain st where st: "seq_start ?t = Some st" and ge: "st \<ge> word_of_nat ?f"
    and i: "i = unat (st - word_of_nat ?f)" and bs: "body_start (snapshot_of c stream) \<le> i"
    unfolding build_tail_at_def snapshot_simps first
    by (auto simp: Let_def split: option.splits if_splits)
  from tracks_feed [OF n] st obtain p where p: "st = word_of_nat p" "p < length stream"
    "in_flight (drop p stream) ?t" "t_modes (fold step1 (take p stream) tracker_new) = t_modes ?t"
    by (auto simp: tracks_def)
  have up: "unat (word_of_nat p :: u64) = p" "unat (word_of_nat ?f :: u64) = ?f"
    using n p(2) by (simp_all add: unat_of_nat64)
  have fp: "?f \<le> p" using ge p(1) up by (simp add: word_le_nat_alt)
  have ip: "i = p - ?f" using i p(1) up ge by (simp add: unat_sub)
  have "drop i (lastn c stream) = drop p stream" using fp ip by (simp add: lastn_def)
  moreover have "i < length (lastn c stream)" using ip fp p(2) by simp arith
  ultimately show ?thesis using st p fp ip bs by auto
qed

section \<open>Attaching\<close>

lemma build_snapshot_ok:
  assumes "length stream < 2 ^ 64"
  shows "\<exists>r. build (snapshot_of c stream) = Some r"
proof -
  let ?s = "snapshot_of c stream"
  show ?thesis
  proof (cases "build_tail_at ?s")
    case None
    then show ?thesis using body_start_le [of ?s]
      by (simp add: build_def build_cut_def build_body_def split_off_def)
  next
    case (Some i)
    from build_tail_at_Some [OF assms Some] have "body_start ?s \<le> i"
      "i \<le> length (lastn c stream)" by auto
    with Some show ?thesis
      by (simp add: build_def build_cut_def build_body_def split_off_def)
  qed
qed

lemma log_stream:
  assumes "log_new c prefill = Some l0" and "fold_opt log_push chunks l0 = Some l"
  shows "holds c (prefill @ concat chunks) l"
proof -
  have "0 < c" using assms(1) by (auto simp: log_new_def ring_new_def split: if_splits option.splits)
  from log_new_holds [OF this, of prefill] assms(1) have "holds c prefill l0" by simp
  from log_pushes_hold [OF this, of chunks] assms(2) show ?thesis by simp
qed

lemma build_total:
  assumes "log_new c prefill = Some l0" and "fold_opt log_push chunks l0 = Some l"
    and "length (prefill @ concat chunks) < 2 ^ 64"
  shows "\<exists>s r. log_snapshot l = Some s \<and> build s = Some r"
  using log_snapshot_holds [OF log_stream [OF assms(1,2)]] build_snapshot_ok [OF assms(3)] by auto

text \<open>Building a replay never panics, whatever was printed and however small the ring.\<close>

theorem build_never_panics:
  assumes "log_new c prefill = Some l0" and "fold_opt log_push chunks l0 = Some l"
    and "length (prefill @ concat chunks) < 2 ^ 64"
  shows "\<exists>s r. log_snapshot l = Some s \<and> build s = Some r"
  using assms by (rule build_total)

text \<open>
  What the client needs from the cut: the kept body leaves it outside any sequence, and
  the sequence the stream ends inside, if any, still starts within the log.
\<close>

definition clean_replay :: "replay_snapshot \<Rightarrow> bool" where
  "clean_replay s \<longleftrightarrow>
     (case build_cut s of
        None \<Rightarrow> False
      | Some (snap, tail) \<Rightarrow>
          (case build_body s snap of
             None \<Rightarrow> False
           | Some body \<Rightarrow> t_scan (feed body tracker_new) = Ground)) \<and>
     (s_seq_start s \<noteq> None \<longrightarrow> build_tail_at s \<noteq> None)"

text \<open>The client's view after reading bytes from power-on.\<close>

definition client_after :: "bytes \<Rightarrow> tracker" where
  "client_after bs = feed bs tracker_new"

lemma client_after_build:
  assumes n: "length stream < 2 ^ 64" and clean: "clean_replay (snapshot_of c stream)"
    and r: "build (snapshot_of c stream) = Some r"
    and ex: "expressible (t_modes (fold step1 stream tracker_new))"
  shows "same_scan (client_after (rp_bytes r)) (fold step1 stream tracker_new) \<and>
         modes_agree (t_modes (client_after (rp_bytes r))) (t_modes (fold step1 stream tracker_new))"
proof -
  let ?s = "snapshot_of c stream" and ?live = "fold step1 stream tracker_new"
  from clean obtain snap tail body where cut: "build_cut ?s = Some (snap, tail)"
    and body: "build_body ?s snap = Some body" and g: "t_scan (feed body tracker_new) = Ground"
    and kept: "seq_start ?live \<noteq> None \<longrightarrow> build_tail_at ?s \<noteq> None"
    by (auto simp: clean_replay_def split: option.splits)
  let ?b = "feed body tracker_new"
  let ?p = "feed (postamble (t_modes ?b) (t_modes ?live)) ?b"
  have rb: "rp_bytes r = body @ postamble (t_modes ?b) (t_modes ?live) @ tail"
    using r cut body by (auto simp: build_def)
  have inv: "tracker_inv tracker_new" by (simp add: tracker_new_def)
  then have client: "client_after (rp_bytes r) = fold step1 tail ?p"
    unfolding rb client_after_def by (simp add: feed_step1 tracker_inv_fold)
  have live: "?live = feed stream (tracker_starting_at 0)"
    by (simp add: feed_step1 tracker_new_def)
  have p: "t_scan ?p = Ground" "modes_agree (t_modes ?p) (t_modes ?live)"
    using postamble_restores [of ?b body 0 "t_modes ?live" stream 0] g ex live
    by (simp_all add: tracker_new_def)
  show ?thesis
  proof (cases "build_tail_at ?s")
    case None
    then have "seq_start ?live = None" "tail = []"
      using kept cut by (auto simp: build_cut_def)
    moreover have "t_scan ?live = Ground"
      using tracks_feed [OF n] calculation(1) by (simp add: tracks_def)
    ultimately show ?thesis using p client by (simp add: same_scan_def)
  next
    case (Some i)
    then have "tail = drop i (lastn c stream)"
      using cut by (auto simp: build_cut_def split_off_def split: if_splits)
    with build_tail_at_Some [OF n Some] have "in_flight tail ?live" by auto
    with p client show ?thesis by (simp add: in_flight_def)
  qed
qed

lemma fold_same_scan: "same_scan t u \<Longrightarrow> same_scan (fold step1 bs t) (fold step1 bs u)"
  by (induction bs arbitrary: t u) (auto intro: same_scan_step1)

text \<open>C1: An attaching client that reads a clean replay is in the terminal modes the program
  left in force, and whatever output follows, it scans it exactly as a client that had been
  there from the start.\<close>

theorem replay_reaches_live_state:
  assumes log: "log_new c prefill = Some l0" "fold_opt log_push chunks l0 = Some l"
    and size: "length (prefill @ concat chunks) < 2 ^ 64"
    and snap: "log_snapshot l = Some s" and clean: "clean_replay s" and b: "build s = Some r"
    and ex: "expressible (s_live s)"
  shows "modes_agree (t_modes (client_after (rp_bytes r))) (s_live s) \<and>
         same_scan (client_after (rp_bytes r @ later)) (feed later (l_modes l))"
proof -
  let ?st = "prefill @ concat chunks"
  have h: "holds c ?st l" by (rule log_stream [OF log])
  with snap have s: "s = snapshot_of c ?st" by (simp add: log_snapshot_holds)
  have lm: "l_modes l = fold step1 ?st tracker_new" using h by (simp add: holds_def)
  have inv: "tracker_inv tracker_new" by (simp add: tracker_new_def)
  from client_after_build [OF size clean [unfolded s] b [unfolded s]] ex s
  have a: "same_scan (client_after (rp_bytes r)) (fold step1 ?st tracker_new)"
    "modes_agree (t_modes (client_after (rp_bytes r))) (t_modes (fold step1 ?st tracker_new))"
    by simp_all
  have "client_after (rp_bytes r @ later) = fold step1 later (client_after (rp_bytes r))"
    using inv by (simp add: client_after_def feed_step1 tracker_inv_fold)
  moreover have "feed later (l_modes l) = fold step1 later (fold step1 ?st tracker_new)"
    unfolding lm by (rule feed_step1 [OF tracker_inv_stream])
  ultimately show ?thesis using a s fold_same_scan [OF a(1), of later] by simp
qed

section \<open>An unwrapped ring replays the stream itself\<close>

text \<open>The recorded entry of the alternate screen lies after the bytes that made it.\<close>

lemma alt_entry_step1:
  "t_alt_entry_end (step1 b t) \<in> {None, t_alt_entry_end t, Some (t_offset t + 1)}"
proof -
  have esc: "t_alt_entry_end (advance_esc b u) \<in> {None, t_alt_entry_end u}" for b u
    by (simp add: advance_esc_def)
  have dec: "t_alt_entry_end (set_dec_modes on l u) \<in> {t_alt_entry_end u, Some (t_offset u)}" for on l u
  proof (induction l arbitrary: u)
    case Nil
    then show ?case by (simp add: set_dec_modes_def)
  next
    case (Cons m l)
    let ?u = "u\<lparr>t_modes := set_dec m on (t_modes u)\<rparr>"
    show ?case
      using Cons.IH [of ?u] Cons.IH [of "?u\<lparr>t_alt_entry_end := Some (t_offset u)\<rparr>"]
      by (auto simp: set_dec_modes_def Let_def)
  qed
  have csi: "t_alt_entry_end (dispatch_csi b u) \<in> {t_alt_entry_end u, Some (t_offset u)}" for b u
    using dec [of _ _ "u\<lparr>t_params := []\<rparr>"]
    by (simp add: dispatch_csi_def Let_def split: prod.split)
  let ?u = "t\<lparr>t_offset := t_offset t + 1\<rparr>"
  have "t_alt_entry_end (advance b ?u) \<in> {None, t_alt_entry_end t, Some (t_offset t + 1)}"
    using esc [of b ?u] esc [of b "?u\<lparr>t_scan := Esc\<rparr>"] csi [of b ?u]
    by (cases "t_scan t") (auto simp: advance_def)
  then show ?thesis
    by (cases "t_scan (advance b ?u)") (auto simp: step1_def step_def Let_def)
qed

lemma alt_entry_stream:
  "length stream < 2 ^ 64 \<Longrightarrow> t_alt_entry_end (fold step1 stream tracker_new) = Some e \<Longrightarrow>
   0 < unat e \<and> unat e \<le> length stream"
proof (induction stream arbitrary: e rule: rev_induct)
  case Nil
  then show ?case by (simp add: tracker_new_def tracker_starting_at_def)
next
  case (snoc b bs)
  let ?t = "fold step1 bs tracker_new"
  have "t_offset ?t + 1 = word_of_nat (Suc (length bs))"
    by (simp add: t_offset_stream) (simp add: tracker_new_def tracker_starting_at_def add.commute)
  then have "unat (t_offset ?t + 1) = Suc (length bs)"
    using snoc.prems(1) unat_of_nat64 [of "Suc (length bs)"] by (simp del: of_nat_Suc)
  with alt_entry_step1 [of b ?t] snoc show ?case by fastforce
qed

lemma build_unwrapped:
  assumes n: "length st < 2 ^ 64" and fits: "length st \<le> c" and b: "build (snapshot_of c st) = Some r"
  shows "rp_bytes r = st"
proof -
  let ?s = "snapshot_of c st"
  have bs: "body_start ?s = 0" by (rule body_start_unwrapped [OF n fits])
  have whole: "lastn c st = st" using fits by simp
  have ev: "\<not> build_evicted ?s"
    using alt_entry_stream [OF n] bs whole
    by (auto simp: build_evicted_def alt_entry_end_def word_le_nat_alt split: option.splits)
  have inv: "tracker_inv tracker_new" by (simp add: tracker_new_def)
  show ?thesis
  proof (cases "build_tail_at ?s")
    case None
    with b bs ev whole inv show ?thesis
      by (auto simp: build_def build_cut_def build_body_def split_off_def postamble_def feed_step1)
  next
    case (Some i)
    from build_tail_at_Some [OF n Some] fits have i: "i < length st"
      "t_modes (fold step1 (take i st) tracker_new) = t_modes (fold step1 st tracker_new)"
      by auto
    with Some b bs ev whole inv show ?thesis
      by (auto simp: build_def build_cut_def build_body_def split_off_def postamble_def feed_step1
          split: if_splits)
  qed
qed

text \<open>Until the ring wraps, a replay is the output itself, byte for byte.\<close>

theorem unwrapped_replay_exact:
  assumes log: "log_new c prefill = Some l0" "fold_opt log_push chunks l0 = Some l"
    and fits: "length (prefill @ concat chunks) \<le> c" "length (prefill @ concat chunks) < 2 ^ 64"
    and snap: "log_snapshot l = Some s" and b: "build s = Some r"
  shows "rp_bytes r = prefill @ concat chunks"
  using build_unwrapped [OF fits(2,1)] log_snapshot_holds [OF log_stream [OF log]] snap b by simp

section \<open>The hypotheses can hold\<close>

lemma log_example:
  "0 < c \<Longrightarrow> \<exists>l0 l. log_new c prefill = Some l0 \<and> fold_opt log_push chunks l0 = Some l \<and>
     log_snapshot l = Some (snapshot_of c (prefill @ concat chunks))"
  using log_new_holds [of c prefill] log_pushes_hold log_snapshot_holds by blast

lemma build_never_panics_witness:
  "\<exists>l0 l s r. log_new 4 [0x61, 0x62, 0x63] = Some l0 \<and>
     fold_opt log_push [[0x1b, 0x5b], [0x31]] l0 = Some l \<and>
     log_snapshot l = Some s \<and> build s = Some r"
proof -
  obtain l0 l where l: "log_new 4 [0x61, 0x62, 0x63] = Some l0"
    "fold_opt log_push [[0x1b, 0x5b], [0x31]] l0 = Some l"
    using log_example [of 4 "[0x61, 0x62, 0x63]" "[[0x1b, 0x5b], [0x31]]"] by auto
  with build_never_panics [OF l] show ?thesis by auto
qed

lemma unwrapped_replay_exact_witness:
  "\<exists>l0 l s r. log_new 8 [0x61] = Some l0 \<and> fold_opt log_push [[0x62], [0x0a]] l0 = Some l \<and>
     log_snapshot l = Some s \<and> build s = Some r \<and> rp_bytes r = [0x61, 0x62, 0x0a]"
proof -
  obtain l0 l where l: "log_new 8 [0x61] = Some l0"
    "fold_opt log_push [[0x62], [0x0a]] l0 = Some l"
    using log_example [of 8 "[0x61]" "[[0x62], [0x0a]]"] by auto
  obtain s r where sr: "log_snapshot l = Some s" "build s = Some r"
    using build_total [OF l] by auto
  from unwrapped_replay_exact [OF l _ _ sr] l sr show ?thesis by simp
qed

lemma demo_ground: "t_scan (fold step1 demo_stream tracker_new) = Ground"
proof -
  have "runs demo_stream (set_dec 2004 True \<circ> set_dec 1049 True)"
    unfolding demo_stream_def by (intro runs_append runs_dec_seq)
  then show ?thesis by (simp add: runs_def tracker_new_def tracker_starting_at_def)
qed

lemma demo_length: "length demo_stream = 16"
  by (simp add: demo_stream_def dec_seq_def csi_def dec_bytes_def dec_digits.simps)

lemma demo_clean: "16 \<le> c \<Longrightarrow> clean_replay (snapshot_of c demo_stream)"
proof -
  assume c: "16 \<le> c"
  let ?s = "snapshot_of c demo_stream"
  have inv: "tracker_inv tracker_new" by (simp add: tracker_new_def)
  have n: "length demo_stream < 2 ^ 64" "length demo_stream \<le> c" using c by (simp_all add: demo_length)
  have none: "seq_start (fold step1 demo_stream tracker_new) = None"
    using tracks_feed [OF n(1)] demo_ground by (auto simp: tracks_def split: option.splits)
  have "\<not> build_evicted ?s"
    using alt_entry_stream [OF n(1)] body_start_unwrapped [OF n] n(2)
    by (auto simp: build_evicted_def alt_entry_end_def word_le_nat_alt split: option.splits)
  with none n demo_ground inv show ?thesis
    by (simp add: clean_replay_def build_cut_def build_tail_at_def Let_def build_body_def
        split_off_def body_start_unwrapped feed_step1)
qed

lemma replay_reaches_live_state_witness:
  "\<exists>l0 l s r. log_new 64 [] = Some l0 \<and> fold_opt log_push [demo_stream] l0 = Some l \<and>
     log_snapshot l = Some s \<and> build s = Some r \<and>
     modes_agree (t_modes (client_after (rp_bytes r))) (s_live s) \<and>
     same_scan (client_after (rp_bytes r @ [0x78])) (feed [0x78] (l_modes l))"
proof -
  obtain l0 l where l: "log_new 64 [] = Some l0" "fold_opt log_push [demo_stream] l0 = Some l"
    and s: "log_snapshot l = Some (snapshot_of 64 demo_stream)"
    using log_example [of 64 "[]" "[demo_stream]"] by auto
  have n: "length ([] @ concat [demo_stream]) < 2 ^ 64" by (simp add: demo_length)
  obtain r where r: "build (snapshot_of 64 demo_stream) = Some r"
    using build_total [OF l n] s by auto
  have ex: "expressible (s_live (snapshot_of 64 demo_stream))"
    using demo_expressible by (simp add: feed_step1 tracker_new_def)
  from replay_reaches_live_state [OF l n s demo_clean [of 64, simplified] r ex, of "[0x78]"] l s r
  show ?thesis by blast
qed

end
