(* ===== verification/Relay_Messages.thy ===== *)
theory Relay_Messages
  imports Prelude
begin

text \<open>
  The relay's wire vocabulary (\<open>crates/relay-proto/src/messages.rs\<close>, \<open>error.rs\<close>):
  requests, responses and notifications, with the addressing of notifications.
\<close>

definition PROTOCOL_VERSION :: u32 where "PROTOCOL_VERSION = 10"

text \<open>Nonces and proofs are byte strings (\<open>crates/relay-proto/src/auth.rs\<close>).\<close>

type_synonym nonce = bytes
type_synonym proof_bytes = bytes

datatype err_code =
    EUnknown | PtyNotFound | AuthFailed | VersionMismatch | RateLimited | EInternal

record hello =
  h_protocol_version :: u32
  h_client_id :: string
  h_client_nonce :: nonce

record hello_challenge =
  hc_server_protocol_version :: u32
  hc_server_nonce :: nonce
  hc_server_proof :: proof_bytes

record hello_ack =
  ha_server_protocol_version :: u32
  ha_session_id :: string

record pty_descriptor =
  d_pty_id :: string
  d_cwd :: string
  d_cols :: u16
  d_rows :: u16

record pty_stats =
  st_pty_id :: string
  st_bytes_in :: u64
  st_bytes_out :: u64
  st_alive_secs :: u64

record spawn_args =
  sp_cwd :: string
  sp_cols :: u16
  sp_rows :: u16
  sp_shell :: "string option"
  sp_args :: "string list"
  sp_env :: "(string \<times> string) list"
  sp_prefill :: bytes

datatype request =
    ReqHello hello
  | ReqHelloProof proof_bytes
  | ReqSpawn spawn_args
  | ReqAttach string
  | ReqWrite string bytes
  | ReqResize string u64 u16 u16
  | ReqClose string u32
  | ReqListPtys
  | ReqStats
  | ReqShutdown bool
  | ReqNotify string string string
  | ReqDetach string u64
  | ReqAgentStatus string bytes
  | ReqReplay string

datatype response =
    RespHelloAck hello_ack
  | RespHelloChallenge hello_challenge
  | SpawnOk string u64
  | AttachOk bytes u16 u16 u64
  | RespOk
  | RespPty pty_descriptor
  | PtyList "pty_descriptor list"
  | StatsOk "pty_stats list"
  | ReplayOk bytes u16 u16
  | RespErr err_code string

datatype notification =
    Output string u64 bytes
  | Exit string u64 "int option"
  | Attention string string string
  | Gapped string u64

definition UNROUTED_ATTACHMENT :: u64 where "UNROUTED_ATTACHMENT = 0"

fun notification_attachment_id :: "notification \<Rightarrow> u64 option" where
  "notification_attachment_id (Output _ a _) = Some a"
| "notification_attachment_id (Exit _ a _) = Some a"
| "notification_attachment_id (Gapped _ a) = Some a"
| "notification_attachment_id (Attention _ _ _) = None"

fun addressed_to :: "notification \<Rightarrow> u64 \<Rightarrow> notification" where
  "addressed_to (Output p _ b) i = Output p i b"
| "addressed_to (Exit p _ c) i = Exit p i c"
| "addressed_to (Gapped p _) i = Gapped p i"
| "addressed_to (Attention p t b) i = Attention p t b"

fun pty_id_of :: "notification \<Rightarrow> string" where
  "pty_id_of (Output p _ _) = p"
| "pty_id_of (Exit p _ _) = p"
| "pty_id_of (Attention p _ _) = p"
| "pty_id_of (Gapped p _) = p"

lemma addressed_to_id [simp]:
  "notification_attachment_id (addressed_to n i) = map_option (\<lambda>_. i) (notification_attachment_id n)"
  by (cases n) auto

lemma pty_id_addressed [simp]: "pty_id_of (addressed_to n i) = pty_id_of n"
  by (cases n) auto

lemma addressed_to_idem [simp]: "addressed_to (addressed_to n i) j = addressed_to n j"
  by (cases n) auto

end
