(* ===== verification/Relay_Registry.thy ===== *)
theory Relay_Registry
  imports Replay_Log Relay_Messages "HOL-Library.AList"
begin

text \<open>
  The relay daemon's PTY registry (\<open>crates/relay/src/registry.rs\<close>) and the fan-out of
  \<open>reader.rs\<close>.  Each operation is one step on the registry state; the locks the code
  takes make each of them atomic.  The operating system and the channels of the
  runtime are parameters: \<open>ts\<close> is the channel's \<open>try_send\<close> over an abstract channel
  world, and outcomes of system calls are arguments of the operation.  The two hash
  maps are association lists; no result depends on their order but the order of
  \<open>list\<close> and \<open>stats\<close>, which the code leaves open too.
\<close>

section \<open>Subscribers and fan-out\<close>

datatype send_result = SendOk | SendFull | SendClosed

type_synonym 'c try_send = "nat \<Rightarrow> notification \<Rightarrow> 'c \<Rightarrow> send_result \<times> 'c"

record subscriber =
  sub_attachment_id :: u64
  sub_tx :: nat
  sub_gapped :: bool

text \<open>
  One subscriber's turn in \<open>fan_out\<close>: the sends it attempted with their results, and
  the subscriber kept, if any.
\<close>

definition offer ::
  "'c try_send \<Rightarrow> notification \<Rightarrow> subscriber \<Rightarrow> 'c \<Rightarrow>
   (notification \<times> send_result) list \<times> subscriber option \<times> 'c" where
  "offer ts n s c =
     (let data = addressed_to n (sub_attachment_id s);
          send_data = (\<lambda>pre s c.
            (case ts (sub_tx s) data c of
               (SendOk, c') \<Rightarrow> (pre @ [(data, SendOk)], Some s, c')
             | (SendFull, c') \<Rightarrow> (pre @ [(data, SendFull)], Some (s\<lparr>sub_gapped := True\<rparr>), c')
             | (SendClosed, c') \<Rightarrow> (pre @ [(data, SendClosed)], None, c')))
      in
      if sub_gapped s then
        (let gap = Gapped (pty_id_of n) (sub_attachment_id s) in
         case ts (sub_tx s) gap c of
           (SendOk, c') \<Rightarrow> send_data [(gap, SendOk)] (s\<lparr>sub_gapped := False\<rparr>) c'
         | (SendFull, c') \<Rightarrow> ([(gap, SendFull)], Some s, c')
         | (SendClosed, c') \<Rightarrow> ([(gap, SendClosed)], None, c'))
      else send_data [] s c)"

fun fan_out :: "'c try_send \<Rightarrow> notification \<Rightarrow> subscriber list \<Rightarrow> 'c \<Rightarrow> subscriber list \<times> 'c" where
  "fan_out ts n [] c = ([], c)"
| "fan_out ts n (s # ss) c =
     (case offer ts n s c of
        (_, kept, c1) \<Rightarrow>
          (case fan_out ts n ss c1 of
             (ss', c2) \<Rightarrow> (case kept of None \<Rightarrow> ss' | Some s' \<Rightarrow> s' # ss', c2)))"

section \<open>Entries and the registry\<close>

definition EXIT_CODE_NONE :: int where "EXIT_CODE_NONE = - (2 ^ 31)"
definition REPLAY_BUFFER_BYTES :: nat where "REPLAY_BUFFER_BYTES = 1024 * 1024"
definition NUDGE_MIN_INTERVAL :: nat where "NUDGE_MIN_INTERVAL = 500"

datatype registry_error = NotFound string | Internal | Panicked

record entry =
  e_pty_id :: string
  e_cwd :: string
  e_cols :: u16
  e_rows :: u16
  e_attachments :: "(u64 \<times> (u16 \<times> u16)) list"
  e_resize_seq :: u64
  e_log :: replay_log
  e_subscribers :: "subscriber list"
  e_child_exited :: bool
  e_exit_code :: int
  e_pid :: "u32 option"
  e_bytes_in :: u64
  e_bytes_out :: u64
  e_started_at :: nat
  e_last_nudge :: "nat option"
  e_checkpointed_bytes_out :: u64

record registry =
  r_entries :: "(string \<times> entry) list"
  r_closing :: "(string \<times> entry) list"
  r_next_attachment_id :: u64
  r_restarting :: bool

definition registry_new :: registry where
  "registry_new = \<lparr>r_entries = [], r_closing = [], r_next_attachment_id = 1, r_restarting = False\<rparr>"

definition put_entry :: "string \<Rightarrow> entry \<Rightarrow> registry \<Rightarrow> registry" where
  "put_entry p e reg = reg\<lparr>r_entries := AList.update p e (r_entries reg)\<rparr>"

text \<open>
  \<open>spawn\<close>: \<open>os\<close> is what the operating system answered, the id minted and the child's
  pid, or \<open>None\<close> when opening the PTY or starting the child failed; \<open>now\<close> is the clock.
\<close>

definition spawn ::
  "spawn_args \<Rightarrow> (string \<times> u32 option) option \<Rightarrow> nat \<Rightarrow> registry \<Rightarrow>
   (registry_error + string) \<times> registry" where
  "spawn args os now reg =
     (if r_restarting reg then (Inl Internal, reg)
      else (case os of
        None \<Rightarrow> (Inl Internal, reg)
      | Some (pty_id, pid) \<Rightarrow>
          (case log_new REPLAY_BUFFER_BYTES (sp_prefill args) of
             None \<Rightarrow> (Inl Panicked, reg)
           | Some log \<Rightarrow>
               (Inr pty_id,
                put_entry pty_id
                  \<lparr>e_pty_id = pty_id, e_cwd = sp_cwd args, e_cols = sp_cols args,
                   e_rows = sp_rows args, e_attachments = [], e_resize_seq = 0,
                   e_log = log, e_subscribers = [], e_child_exited = False,
                   e_exit_code = EXIT_CODE_NONE, e_pid = pid, e_bytes_in = 0, e_bytes_out = 0,
                   e_started_at = now, e_last_nudge = None,
                   e_checkpointed_bytes_out = (if sp_prefill args \<noteq> [] then - 1 else 0)\<rparr>
                  reg))))"

text \<open>\<open>nudge\<close>: at most one repaint signal per interval; the signal itself is the system's.\<close>

definition nudge :: "nat \<Rightarrow> entry \<Rightarrow> entry" where
  "nudge now e =
     (case e_last_nudge e of
        Some t \<Rightarrow> (if now - t < NUDGE_MIN_INTERVAL then e else e\<lparr>e_last_nudge := Some now\<rparr>)
      | None \<Rightarrow> e\<lparr>e_last_nudge := Some now\<rparr>)"

text \<open>The fence queued behind the snapshot of a resync.\<close>

fun fence_subscribers ::
  "'c try_send \<Rightarrow> string \<Rightarrow> nat \<Rightarrow> subscriber list \<Rightarrow> 'c \<Rightarrow> subscriber list \<times> 'c" where
  "fence_subscribers ts p requester [] c = ([], c)"
| "fence_subscribers ts p requester (s # ss) c =
     (if sub_tx s = requester then
        (case ts (sub_tx s) (Output p (sub_attachment_id s) []) c of
           (res, c1) \<Rightarrow>
             (case fence_subscribers ts p requester ss c1 of
                (ss', c2) \<Rightarrow> (s\<lparr>sub_gapped := sub_gapped s \<or> res \<noteq> SendOk\<rparr> # ss', c2)))
      else
        (case fence_subscribers ts p requester ss c of (ss', c2) \<Rightarrow> (s # ss', c2)))"

definition replay_op ::
  "'c try_send \<Rightarrow> string \<Rightarrow> nat \<Rightarrow> nat \<Rightarrow> registry \<Rightarrow> 'c \<Rightarrow>
   (registry_error + (bytes \<times> u16 \<times> u16)) \<times> registry \<times> 'c" where
  "replay_op ts pty_id requester now reg c =
     (case map_of (r_entries reg) pty_id of
        None \<Rightarrow> (Inl (NotFound pty_id), reg, c)
      | Some e \<Rightarrow>
          (case log_snapshot (e_log e) of
             None \<Rightarrow> (Inl Panicked, reg, c)
           | Some snap \<Rightarrow>
               (case fence_subscribers ts pty_id requester (e_subscribers e) c of
                  (subs, c') \<Rightarrow>
                    let e1 = e\<lparr>e_subscribers := subs\<rparr> in
                    (case build snap of
                       None \<Rightarrow> (Inl Panicked, put_entry pty_id e1 reg, c')
                     | Some r \<Rightarrow>
                         let e2 = (if rp_alt_screen r then nudge now e1 else e1) in
                         (Inr (rp_bytes r, e_cols e2, e_rows e2), put_entry pty_id e2 reg, c')))))"

definition attach ::
  "'c try_send \<Rightarrow> string \<Rightarrow> nat \<Rightarrow> nat \<Rightarrow> registry \<Rightarrow> 'c \<Rightarrow>
   (registry_error + (bytes \<times> u16 \<times> u16 \<times> u64)) \<times> registry \<times> 'c" where
  "attach ts pty_id tx now reg c =
     (case map_of (r_entries reg) pty_id of
        None \<Rightarrow> (Inl (NotFound pty_id), reg, c)
      | Some e \<Rightarrow>
          (case log_snapshot (e_log e) of
             None \<Rightarrow> (Inl Panicked, reg, c)
           | Some snap \<Rightarrow>
               let attachment_id = r_next_attachment_id reg;
                   reg1 = reg\<lparr>r_next_attachment_id := attachment_id + 1\<rparr>;
                   c1 = (if e_child_exited e then
                           snd (ts tx (Exit pty_id attachment_id
                             (if e_exit_code e \<noteq> EXIT_CODE_NONE then Some (e_exit_code e) else None)) c)
                         else c);
                   e1 = e\<lparr>e_subscribers := e_subscribers e @
                           [\<lparr>sub_attachment_id = attachment_id, sub_tx = tx, sub_gapped = False\<rparr>]\<rparr>
               in
               (case build snap of
                  None \<Rightarrow> (Inl Panicked, put_entry pty_id e1 reg1, c1)
                | Some r \<Rightarrow>
                    let cols = e_cols e1; rows = e_rows e1;
                        e2 = e1\<lparr>e_attachments :=
                               AList.update attachment_id (cols, rows) (e_attachments e1)\<rparr>;
                        e3 = (if rp_alt_screen r then nudge now e2 else e2)
                    in (Inr (rp_bytes r, cols, rows, attachment_id), put_entry pty_id e3 reg1, c1))))"

text \<open>\<open>accepted\<close>: whether the PTY's writer queue took the bytes.\<close>

definition write_op :: "string \<Rightarrow> bytes \<Rightarrow> bool \<Rightarrow> registry \<Rightarrow> (registry_error + unit) \<times> registry" where
  "write_op pty_id bs accepted reg =
     (case map_of (r_entries reg) pty_id of
        None \<Rightarrow> (Inl (NotFound pty_id), reg)
      | Some e \<Rightarrow>
          (if accepted
           then (Inr (), put_entry pty_id (e\<lparr>e_bytes_in := e_bytes_in e + word_of_nat (length bs)\<rparr>) reg)
           else (Inl Internal, reg)))"

definition notify_op ::
  "'c try_send \<Rightarrow> string \<Rightarrow> string \<Rightarrow> string \<Rightarrow> registry \<Rightarrow> 'c \<Rightarrow>
   (registry_error + unit) \<times> registry \<times> 'c" where
  "notify_op ts pty_id title body reg c =
     (case map_of (r_entries reg) pty_id of
        None \<Rightarrow> (Inl (NotFound pty_id), reg, c)
      | Some e \<Rightarrow>
          (case fan_out ts (Attention pty_id title body) (e_subscribers e) c of
             (subs, c') \<Rightarrow> (Inr (), put_entry pty_id (e\<lparr>e_subscribers := subs\<rparr>) reg, c')))"

definition agent_status ::
  "'c try_send \<Rightarrow> string \<Rightarrow> bytes \<Rightarrow> registry \<Rightarrow> 'c \<Rightarrow>
   (registry_error + unit) \<times> registry \<times> 'c" where
  "agent_status ts pty_id payload reg c =
     (case map_of (r_entries reg) pty_id of
        None \<Rightarrow> (Inl (NotFound pty_id), reg, c)
      | Some e \<Rightarrow>
          let bs = [0x1b, 0x5d, 0x39, 0x39, 0x39, 0x39, 0x3b] @ payload @ [0x07] in
          (case fan_out ts (Output pty_id UNROUTED_ATTACHMENT bs) (e_subscribers e) c of
             (subs, c') \<Rightarrow> (Inr (), put_entry pty_id (e\<lparr>e_subscribers := subs\<rparr>) reg, c')))"

text \<open>\<open>resized\<close>: whether the system call that resizes the PTY succeeded.\<close>

definition apply_effective_size :: "bool \<Rightarrow> entry \<Rightarrow> (registry_error + unit) \<times> entry" where
  "apply_effective_size resized e =
     (if e_attachments e = [] then (Inr (), e)
      else
        let min_cols = max (Min (fst ` snd ` set (e_attachments e))) 1;
            min_rows = max (Min (snd ` snd ` set (e_attachments e))) 1
        in
        if e_cols e = min_cols \<and> e_rows e = min_rows then (Inr (), e)
        else if resized then
          (Inr (), e\<lparr>e_cols := min_cols, e_rows := min_rows, e_resize_seq := e_resize_seq e + 1\<rparr>)
        else (Inl Internal, e))"

definition resize :: "string \<Rightarrow> u64 \<Rightarrow> u16 \<Rightarrow> u16 \<Rightarrow> bool \<Rightarrow> registry \<Rightarrow>
    (registry_error + unit) \<times> registry" where
  "resize pty_id attachment_id cols rows resized reg =
     (case map_of (r_entries reg) pty_id of
        None \<Rightarrow> (Inl (NotFound pty_id), reg)
      | Some e \<Rightarrow>
          (case apply_effective_size resized
                  (e\<lparr>e_attachments := AList.update attachment_id (cols, rows) (e_attachments e)\<rparr>) of
             (res, e') \<Rightarrow> (res, put_entry pty_id e' reg)))"

definition detach :: "string \<Rightarrow> u64 \<Rightarrow> bool \<Rightarrow> registry \<Rightarrow> (registry_error + unit) \<times> registry" where
  "detach pty_id attachment_id resized reg =
     (case map_of (r_entries reg) pty_id of
        None \<Rightarrow> (Inl (NotFound pty_id), reg)
      | Some e \<Rightarrow>
          let removed = (map_of (e_attachments e) attachment_id \<noteq> None);
              e1 = e\<lparr>e_attachments := AList.delete attachment_id (e_attachments e),
                     e_subscribers :=
                       filter (\<lambda>s. sub_attachment_id s \<noteq> attachment_id) (e_subscribers e)\<rparr>
          in
          if removed then
            (case apply_effective_size resized e1 of (res, e') \<Rightarrow> (res, put_entry pty_id e' reg))
          else (Inr (), put_entry pty_id e1 reg))"

text \<open>A close takes the session out of the list and into \<open>closing\<close>; dropping it ends that.\<close>

definition begin_close :: "string \<Rightarrow> registry \<Rightarrow> (registry_error + entry) \<times> registry" where
  "begin_close pty_id reg =
     (case map_of (r_entries reg) pty_id of
        None \<Rightarrow> (Inl (NotFound pty_id), reg)
      | Some e \<Rightarrow>
          (Inr e, reg\<lparr>r_entries := AList.delete pty_id (r_entries reg),
                      r_closing := AList.update (e_pty_id e) e (r_closing reg)\<rparr>))"

definition drop_closing :: "entry \<Rightarrow> registry \<Rightarrow> registry" where
  "drop_closing e reg = reg\<lparr>r_closing := AList.delete (e_pty_id e) (r_closing reg)\<rparr>"

definition is_closing :: "string \<Rightarrow> registry \<Rightarrow> bool" where
  "is_closing pty_id reg \<longleftrightarrow> map_of (r_closing reg) pty_id \<noteq> None"

definition mark_restarting :: "registry \<Rightarrow> registry" where
  "mark_restarting reg = reg\<lparr>r_restarting := True\<rparr>"

definition live_count :: "registry \<Rightarrow> nat" where
  "live_count reg = length (r_entries reg) + length (r_closing reg)"

definition stop_if_idle :: "registry \<Rightarrow> bool \<times> registry" where
  "stop_if_idle reg =
     (if live_count reg > 0 then (False, reg) else (True, reg\<lparr>r_restarting := True\<rparr>))"

definition list_ptys :: "registry \<Rightarrow> pty_descriptor list" where
  "list_ptys reg =
     map (\<lambda>(_, e). \<lparr>d_pty_id = e_pty_id e, d_cwd = e_cwd e, d_cols = e_cols e, d_rows = e_rows e\<rparr>)
       (filter (\<lambda>(_, e). \<not> e_child_exited e) (r_entries reg))"

definition stats :: "nat \<Rightarrow> registry \<Rightarrow> pty_stats list" where
  "stats now reg =
     map (\<lambda>(_, e). \<lparr>st_pty_id = e_pty_id e, st_bytes_in = e_bytes_in e, st_bytes_out = e_bytes_out e,
                    st_alive_secs = word_of_nat ((now - e_started_at e) div 1000)\<rparr>) (r_entries reg)"

text \<open>
  \<open>publish\<close> of the reader thread: output goes into the log and out to every subscriber
  under one lock.  \<open>None\<close> is a panic.
\<close>

definition publish ::
  "'c try_send \<Rightarrow> bytes \<Rightarrow> entry \<Rightarrow> 'c \<Rightarrow> (entry \<times> 'c) option" where
  "publish ts bs e c =
     (case log_push bs (e_log e) of
        None \<Rightarrow> None
      | Some log \<Rightarrow>
          (case fan_out ts (Output (e_pty_id e) UNROUTED_ATTACHMENT bs) (e_subscribers e) c of
             (subs, c') \<Rightarrow>
               Some (e\<lparr>e_bytes_out := e_bytes_out e + word_of_nat (length bs),
                      e_log := log, e_subscribers := subs\<rparr>, c')))"

text \<open>
  The end of \<open>reader_loop\<close>: the status is stored before the flag; a session ended by a
  daemon restart keeps its checkpoint and stays quiet.
\<close>

datatype store_action = WriteScrollback string bytes u16 u16 | RemoveCheckpoint string

definition session_end ::
  "'c try_send \<Rightarrow> int option \<Rightarrow> bool \<Rightarrow> entry \<Rightarrow> 'c \<Rightarrow> entry \<times> store_action list \<times> 'c" where
  "session_end ts code by_restart e c =
     (let e1 = e\<lparr>e_exit_code := (case code of Some k \<Rightarrow> k | None \<Rightarrow> EXIT_CODE_NONE),
                 e_child_exited := True\<rparr>
      in if by_restart then (e1, [], c)
         else (case fan_out ts (Exit (e_pty_id e) UNROUTED_ATTACHMENT code) (e_subscribers e1) c of
                 (subs, c') \<Rightarrow>
                   (e1\<lparr>e_subscribers := subs\<rparr>, [RemoveCheckpoint (e_pty_id e)], c')))"

text \<open>
  One entry's turn in \<open>checkpoint_all\<close>: \<open>written\<close> says whether the store took the write,
  \<open>ended\<close> whether the child had ended by then.
\<close>

definition checkpoint_entry ::
  "bool \<Rightarrow> bool \<Rightarrow> bool \<Rightarrow> entry \<Rightarrow> (entry \<times> store_action list) option" where
  "checkpoint_entry written ended restarting e =
     (if e_child_exited e then Some (e, [])
      else if e_bytes_out e = e_checkpointed_bytes_out e then Some (e, [])
      else (case log_raw (e_log e) of
              None \<Rightarrow> None
            | Some bs \<Rightarrow>
                let w = WriteScrollback (e_pty_id e) bs (e_cols e) (e_rows e) in
                if written then
                  Some (e\<lparr>e_checkpointed_bytes_out := e_bytes_out e\<rparr>,
                        w # (if ended \<and> \<not> restarting then [RemoveCheckpoint (e_pty_id e)] else []))
                else Some (e, [w])))"

section \<open>Fan-out\<close>

lemma offer_id: "offer ts n s c = (att, Some s', c') \<Longrightarrow>
    sub_attachment_id s' = sub_attachment_id s \<and> sub_tx s' = sub_tx s"
  by (auto simp: offer_def Let_def split: if_splits prod.splits send_result.splits)

lemma fan_out_ids:
  "fan_out ts n ss c = (ss', c') \<Longrightarrow>
     sub_attachment_id ` set ss' \<subseteq> sub_attachment_id ` set ss \<and>
     (distinct (map sub_attachment_id ss) \<longrightarrow> distinct (map sub_attachment_id ss'))"
proof (induction ss arbitrary: c ss' c')
  case Nil
  then show ?case by simp
next
  case (Cons s ss)
  obtain att kept c1 where o: "offer ts n s c = (att, kept, c1)" by (metis prod_cases3)
  obtain ss1 c2 where f: "fan_out ts n ss c1 = (ss1, c2)" by fastforce
  from Cons.prems o f have ss': "ss' = (case kept of None \<Rightarrow> ss1 | Some s' \<Rightarrow> s' # ss1)"
    by simp
  from Cons.IH [OF f] have ih: "sub_attachment_id ` set ss1 \<subseteq> sub_attachment_id ` set ss"
    "distinct (map sub_attachment_id ss) \<longrightarrow> distinct (map sub_attachment_id ss1)" by auto
  show ?case
  proof (cases kept)
    case None
    with ss' ih show ?thesis by auto
  next
    case (Some s')
    with o have "sub_attachment_id s' = sub_attachment_id s" by (auto dest: offer_id)
    with Some ss' ih show ?thesis by auto
  qed
qed

text \<open>
  A subscriber over many rounds, with the channel in an arbitrary state each time
  (other senders and the reader of the queue act in between).
\<close>

fun offers :: "'c try_send \<Rightarrow> (notification \<times> 'c) list \<Rightarrow> subscriber \<Rightarrow> (notification \<times> send_result) list" where
  "offers ts [] s = []"
| "offers ts ((n, c) # rest) s =
     (case offer ts n s c of
        (att, kept, _) \<Rightarrow> att @ (case kept of None \<Rightarrow> [] | Some s' \<Rightarrow> offers ts rest s'))"

text \<open>
  A record of attempts is honest for attachment \<open>i\<close>, \<open>gapped\<close> telling whether a loss is
  still unannounced: what is accepted while one is, is the announcement, and there is no
  announcement otherwise.
\<close>

fun is_gap :: "notification \<Rightarrow> bool" where
  "is_gap (Gapped _ _) = True"
| "is_gap _ = False"

lemma is_gap_addressed [simp]: "is_gap (addressed_to n i) = is_gap n"
  by (cases n) auto

fun honest :: "u64 \<Rightarrow> bool \<Rightarrow> (notification \<times> send_result) list \<Rightarrow> bool" where
  "honest i gapped [] = True"
| "honest i gapped ((n, r) # rest) =
     (case r of
        SendOk \<Rightarrow>
          is_gap n = gapped \<and> (gapped \<longrightarrow> notification_attachment_id n = Some i) \<and>
          honest i False rest
      | SendFull \<Rightarrow> honest i True rest
      | SendClosed \<Rightarrow> rest = [])"

lemma offers_honest:
  "\<forall>(n, _) \<in> set rounds. \<not> is_gap n \<Longrightarrow>
   honest (sub_attachment_id s) (sub_gapped s) (offers ts rounds s)"
proof (induction rounds arbitrary: s)
  case Nil
  then show ?case by simp
next
  case (Cons r rounds)
  obtain n c where r: "r = (n, c)" by (cases r)
  have n: "\<not> is_gap n" using Cons.prems r by simp
  from Cons.prems have ih: "honest (sub_attachment_id s) (sub_gapped s) (offers ts rounds s)" for s
    using Cons.IH by simp
  note ih1 = ih [of s] and ih2 = ih [of "s\<lparr>sub_gapped := True\<rparr>"]
    and ih3 = ih [of "s\<lparr>sub_gapped := False\<rparr>"]
  show ?case
  proof (cases "sub_gapped s")
    case True
    with ih1 ih2 ih3 n show ?thesis unfolding r
      by (auto simp: offer_def Let_def split: prod.split send_result.split)
  next
    case False
    then have "s\<lparr>sub_gapped := False\<rparr> = s" by simp
    with False ih1 ih2 n show ?thesis unfolding r
      by (auto simp: offer_def Let_def split: prod.split send_result.split)
  qed
qed


text \<open>A queue of one place: the world is the number of free places.\<close>

definition demo_send :: "nat try_send" where
  "demo_send tx n free = (if free = 0 then (SendFull, 0) else (SendOk, free - 1))"


section \<open>Invariant of the registry\<close>

definition size_inv :: "entry \<Rightarrow> bool" where
  "size_inv e \<longleftrightarrow> e_attachments e \<noteq> [] \<longrightarrow>
     max (e_cols e) 1 = max (Min (fst ` snd ` set (e_attachments e))) 1 \<and>
     max (e_rows e) 1 = max (Min (snd ` snd ` set (e_attachments e))) 1"

definition log_ok :: "replay_log \<Rightarrow> bool" where
  "log_ok l \<longleftrightarrow> (\<exists>stream. length stream < 2 ^ 64 \<and> holds REPLAY_BUFFER_BYTES stream l)"

lemma log_okI: "length stream < 2 ^ 64 \<Longrightarrow> holds REPLAY_BUFFER_BYTES stream l \<Longrightarrow> log_ok l"
  by (auto simp: log_ok_def)

definition entry_inv :: "u64 \<Rightarrow> entry \<Rightarrow> bool" where
  "entry_inv nxt e \<longleftrightarrow>
     distinct (map fst (e_attachments e)) \<and>
     distinct (map sub_attachment_id (e_subscribers e)) \<and>
     (\<forall>s \<in> set (e_subscribers e). sub_attachment_id s < nxt) \<and>
     size_inv e \<and> log_ok (e_log e)"

definition registry_inv :: "registry \<Rightarrow> bool" where
  "registry_inv reg \<longleftrightarrow>
     distinct (map fst (r_entries reg)) \<and>
     (\<forall>(p, e) \<in> set (r_entries reg). e_pty_id e = p \<and> entry_inv (r_next_attachment_id reg) e)"

lemma registry_inv_lookup:
  "registry_inv reg \<Longrightarrow> map_of (r_entries reg) p = Some e \<Longrightarrow>
   e_pty_id e = p \<and> entry_inv (r_next_attachment_id reg) e"
  by (auto simp: registry_inv_def dest!: map_of_SomeD)

lemma entry_inv_mono: "entry_inv n e \<Longrightarrow> n \<le> m \<Longrightarrow> entry_inv m e"
  by (auto simp: entry_inv_def)

lemma in_AList_update:
  "x \<in> set (AList.update k v xs) \<Longrightarrow> distinct (map fst xs) \<Longrightarrow>
   x = (k, v) \<or> x \<in> set xs \<and> fst x \<noteq> k"
  by (induction xs) (auto split: if_splits simp: rev_image_eqI)

lemma registry_inv_put:
  "registry_inv reg \<Longrightarrow> e_pty_id e = p \<Longrightarrow> entry_inv (r_next_attachment_id reg) e \<Longrightarrow>
   registry_inv (put_entry p e reg)"
  by (auto simp: registry_inv_def put_entry_def distinct_update dest: in_AList_update)

lemma entry_inv_subs:
  "entry_inv n e \<Longrightarrow> sub_attachment_id ` set ss \<subseteq> sub_attachment_id ` set (e_subscribers e) \<Longrightarrow>
   distinct (map sub_attachment_id ss) \<Longrightarrow> entry_inv n (e\<lparr>e_subscribers := ss\<rparr>)"
  by (fastforce simp: entry_inv_def size_inv_def)

lemma entry_inv_fan_out:
  assumes "entry_inv n e" and "fan_out ts m (e_subscribers e) c = (ss, c')"
  shows "entry_inv n (e\<lparr>e_subscribers := ss\<rparr>)"
  using fan_out_ids [OF assms(2)] assms(1)
  by (intro entry_inv_subs) (auto simp: entry_inv_def)

lemma fence_ids:
  "fence_subscribers ts p q ss c = (ss', c') \<Longrightarrow>
   map sub_attachment_id ss' = map sub_attachment_id ss \<and> map sub_tx ss' = map sub_tx ss"
  by (induction ss arbitrary: c ss' c') (auto split: if_splits prod.splits)

lemma entry_inv_nudge [simp]: "entry_inv n (nudge now e) = entry_inv n e"
  by (auto simp: nudge_def entry_inv_def size_inv_def split: option.split)

lemma nudge_simps [simp]:
  "e_cols (nudge now e) = e_cols e" "e_rows (nudge now e) = e_rows e"
  "e_pty_id (nudge now e) = e_pty_id e" "e_log (nudge now e) = e_log e"
  "e_attachments (nudge now e) = e_attachments e" "e_subscribers (nudge now e) = e_subscribers e"
  by (auto simp: nudge_def split: option.split)

section \<open>Every operation keeps the invariant\<close>

lemma apply_effective_size_ok:
  assumes "apply_effective_size True e = (res, e')"
  shows "res = Inr ()" and "size_inv e'"
    and "e_attachments e \<noteq> [] \<longrightarrow>
           e_cols e' = max (Min (fst ` snd ` set (e_attachments e))) 1 \<and>
           e_rows e' = max (Min (snd ` snd ` set (e_attachments e))) 1"
    and "e_attachments e' = e_attachments e" "e_subscribers e' = e_subscribers e"
    "e_log e' = e_log e" "e_pty_id e' = e_pty_id e"
  using assms
  by (auto simp: apply_effective_size_def Let_def size_inv_def split: if_splits)

lemma max_Min_one:
  assumes "finite S" "(c :: u16) \<in> S" "\<forall>x \<in> S. max c 1 \<le> max x 1"
  shows "max (Min S) 1 = max c 1"
proof (rule antisym)
  show "max (Min S) 1 \<le> max c 1" using assms(1,2) by (meson Min_le max.mono order_refl)
  have "Min S \<in> S" using assms(1,2) by (auto intro: Min_in)
  with assms(3) show "max c 1 \<le> max (Min S) 1" by blast
qed

lemma size_inv_attach:
  assumes inv: "size_inv e" and d: "distinct (map fst (e_attachments e))"
  shows "size_inv (e\<lparr>e_attachments := AList.update i (e_cols e, e_rows e) (e_attachments e)\<rparr>)"
proof -
  let ?new = "set (AList.update i (e_cols e, e_rows e) (e_attachments e))"
  have sub: "x \<in> ?new \<Longrightarrow> x = (i, e_cols e, e_rows e) \<or> x \<in> set (e_attachments e)" for x
    using in_AList_update [OF _ d] by blast
  have mem: "(i, e_cols e, e_rows e) \<in> ?new"
    using map_of_SomeD [of "AList.update i (e_cols e, e_rows e) (e_attachments e)" i]
    by (simp add: update_conv')
  have old: "max (e_cols e) 1 \<le> max (fst (snd x)) 1 \<and> max (e_rows e) 1 \<le> max (snd (snd x)) 1"
    if x: "x \<in> set (e_attachments e)" for x
  proof -
    have ne: "e_attachments e \<noteq> []" using x by auto
    have "Min (fst ` snd ` set (e_attachments e)) \<le> fst (snd x)"
      "Min (snd ` snd ` set (e_attachments e)) \<le> snd (snd x)"
      using x by (auto intro!: Min_le)
    with inv ne show ?thesis by (auto simp: size_inv_def le_max_iff_disj)
  qed
  have c: "max (Min (fst ` snd ` ?new)) 1 = max (e_cols e) 1"
    by (rule max_Min_one) (use mem sub old in \<open>force+\<close>)
  have r: "max (Min (snd ` snd ` ?new)) 1 = max (e_rows e) 1"
    by (rule max_Min_one) (use mem sub old in \<open>force+\<close>)
  show ?thesis using c r by (simp add: size_inv_def)
qed

lemma spawn_inv:
  assumes "registry_inv reg" "spawn args os now reg = (res, reg')"
    "length (sp_prefill args) < 2 ^ 64"
  shows "registry_inv reg' \<and> res \<noteq> Inl Panicked"
proof -
  have c: "0 < REPLAY_BUFFER_BYTES" by (simp add: REPLAY_BUFFER_BYTES_def)
  from log_new_holds [OF c, of "sp_prefill args"] obtain l where
    l: "log_new REPLAY_BUFFER_BYTES (sp_prefill args) = Some l"
    "holds REPLAY_BUFFER_BYTES (sp_prefill args) l" by blast
  from log_okI [OF assms(3) l(2)] l(1) assms(1,2) show ?thesis
    by (auto simp: spawn_def split: if_splits option.splits
        intro!: registry_inv_put) (auto simp: entry_inv_def size_inv_def)
qed

lemma attach_inv:
  assumes inv: "registry_inv reg" and at: "attach ts p tx now reg c = (res, reg', c')"
    and nowrap: "r_next_attachment_id reg \<noteq> - 1"
  shows "registry_inv reg'"
proof (cases "map_of (r_entries reg) p")
  case None
  with at inv show ?thesis by (simp add: attach_def)
next
  case (Some e)
  let ?n = "r_next_attachment_id reg"
  let ?e1 = "e\<lparr>e_subscribers := e_subscribers e @
               [\<lparr>sub_attachment_id = ?n, sub_tx = tx, sub_gapped = False\<rparr>]\<rparr>"
  let ?e2 = "?e1\<lparr>e_attachments := AList.update ?n (e_cols e, e_rows e) (e_attachments e)\<rparr>"
  let ?reg1 = "reg\<lparr>r_next_attachment_id := ?n + 1\<rparr>"
  from registry_inv_lookup [OF inv Some] have p: "e_pty_id e = p" and ei: "entry_inv ?n e" by auto
  have lt: "?n < ?n + 1" by (rule less_succ_word [OF nowrap])
  have e1: "entry_inv (?n + 1) ?e1" using ei lt
    by (auto simp: entry_inv_def size_inv_def)
  then have e2: "entry_inv (?n + 1) ?e2"
    using size_inv_attach [of ?e1 ?n] by (auto simp: entry_inv_def distinct_update)
  have r1: "registry_inv ?reg1" using inv lt
    by (auto simp: registry_inv_def intro: entry_inv_mono)
  have "reg' \<in> {reg, put_entry p ?e1 ?reg1, put_entry p ?e2 ?reg1, put_entry p (nudge now ?e2) ?reg1}"
    using at Some by (auto simp: attach_def Let_def split: option.splits if_splits)
  then show ?thesis using inv r1 e1 e2 p by (auto intro!: registry_inv_put)
qed

lemma replay_op_inv:
  assumes inv: "registry_inv reg" and at: "replay_op ts p q now reg c = (res, reg', c')"
  shows "registry_inv reg'"
proof (cases "map_of (r_entries reg) p")
  case None
  with at inv show ?thesis by (simp add: replay_op_def)
next
  case (Some e)
  obtain ss c1 where f: "fence_subscribers ts p q (e_subscribers e) c = (ss, c1)" by fastforce
  let ?e1 = "e\<lparr>e_subscribers := ss\<rparr>"
  from registry_inv_lookup [OF inv Some] have p: "e_pty_id e = p"
    and ei: "entry_inv (r_next_attachment_id reg) e" by auto
  have "sub_attachment_id ` set ss = sub_attachment_id ` set (e_subscribers e)"
    using fence_ids [OF f] by (metis set_map)
  then have e1: "entry_inv (r_next_attachment_id reg) ?e1"
    using ei fence_ids [OF f] by (intro entry_inv_subs) (auto simp: entry_inv_def)
  have "reg' \<in> {reg, put_entry p ?e1 reg, put_entry p (nudge now ?e1) reg}"
    using at Some f by (auto simp: replay_op_def Let_def split: option.splits if_splits)
  then show ?thesis using inv e1 p by (auto intro!: registry_inv_put)
qed

lemma entry_inv_fields:
  "entry_inv n e \<Longrightarrow> e_attachments e' = e_attachments e \<Longrightarrow> e_subscribers e' = e_subscribers e \<Longrightarrow>
   e_cols e' = e_cols e \<Longrightarrow> e_rows e' = e_rows e \<Longrightarrow> e_log e' = e_log e \<Longrightarrow> entry_inv n e'"
  by (simp add: entry_inv_def size_inv_def)

lemma write_op_inv:
  "registry_inv reg \<Longrightarrow> write_op p bs ok reg = (res, reg') \<Longrightarrow> registry_inv reg'"
  by (auto simp: write_op_def split: option.splits if_splits
      intro!: registry_inv_put dest: registry_inv_lookup intro: entry_inv_fields)

lemma notify_op_inv:
  "registry_inv reg \<Longrightarrow> notify_op ts p title body reg c = (res, reg', c') \<Longrightarrow> registry_inv reg'"
  by (auto simp: notify_op_def split: option.splits prod.splits
      intro!: registry_inv_put dest: registry_inv_lookup intro: entry_inv_fan_out)

lemma agent_status_inv:
  "registry_inv reg \<Longrightarrow> agent_status ts p payload reg c = (res, reg', c') \<Longrightarrow> registry_inv reg'"
  by (auto simp: agent_status_def Let_def split: option.splits prod.splits
      intro!: registry_inv_put dest: registry_inv_lookup intro: entry_inv_fan_out)

lemma entry_inv_resized:
  assumes "entry_inv n e" "apply_effective_size True (e\<lparr>e_attachments := atts, e_subscribers := ss\<rparr>) = (res, e')"
    "distinct (map fst atts)" "sub_attachment_id ` set ss \<subseteq> sub_attachment_id ` set (e_subscribers e)"
    "distinct (map sub_attachment_id ss)"
  shows "entry_inv n e' \<and> e_pty_id e' = e_pty_id e"
  using apply_effective_size_ok [OF assms(2)] assms(1,3,4,5)
  by (fastforce simp: entry_inv_def)

lemma resize_inv:
  assumes inv: "registry_inv reg" and rs: "resize p i cols rows True reg = (res, reg')"
  shows "registry_inv reg'"
proof (cases "map_of (r_entries reg) p")
  case None
  with rs inv show ?thesis by (simp add: resize_def)
next
  case (Some e)
  from registry_inv_lookup [OF inv Some] have p: "e_pty_id e = p"
    and ei: "entry_inv (r_next_attachment_id reg) e" by auto
  obtain r e' where a: "apply_effective_size True
      (e\<lparr>e_attachments := AList.update i (cols, rows) (e_attachments e)\<rparr>) = (r, e')" by fastforce
  then have a': "apply_effective_size True (e\<lparr>e_attachments := AList.update i (cols, rows) (e_attachments e),
      e_subscribers := e_subscribers e\<rparr>) = (r, e')" by simp
  have "entry_inv (r_next_attachment_id reg) e' \<and> e_pty_id e' = e_pty_id e"
    by (rule entry_inv_resized [OF ei a']) (use ei in \<open>simp_all add: entry_inv_def distinct_update\<close>)
  with Some rs a p inv show ?thesis by (auto simp: resize_def intro!: registry_inv_put)
qed

lemma size_inv_unremoved:
  "map_of atts i = None \<Longrightarrow> AList.delete i atts = atts"
  by (simp add: delete_id map_of_eq_None_iff)

lemma detach_inv:
  assumes inv: "registry_inv reg" and dt: "detach p i True reg = (res, reg')"
  shows "registry_inv reg'"
proof (cases "map_of (r_entries reg) p")
  case None
  with dt inv show ?thesis by (simp add: detach_def)
next
  case (Some e)
  from registry_inv_lookup [OF inv Some] have p: "e_pty_id e = p"
    and ei: "entry_inv (r_next_attachment_id reg) e" by auto
  let ?ss = "filter (\<lambda>s. sub_attachment_id s \<noteq> i) (e_subscribers e)"
  have ss: "sub_attachment_id ` set ?ss \<subseteq> sub_attachment_id ` set (e_subscribers e)"
    "distinct (map sub_attachment_id ?ss)"
    using ei by (auto simp: entry_inv_def distinct_map_filter)
  show ?thesis
  proof (cases "map_of (e_attachments e) i")
    case None
    then have "reg' = put_entry p (e\<lparr>e_subscribers := ?ss\<rparr>) reg"
      using dt Some by (simp add: detach_def Let_def size_inv_unremoved)
    with inv p entry_inv_subs [OF ei ss] show ?thesis by (auto intro!: registry_inv_put)
  next
    case (Some sz)
    obtain r e' where a: "apply_effective_size True
        (e\<lparr>e_attachments := AList.delete i (e_attachments e), e_subscribers := ?ss\<rparr>) = (r, e')"
      by fastforce
    from entry_inv_resized [OF ei a _ ss] have
      "entry_inv (r_next_attachment_id reg) e' \<and> e_pty_id e' = e_pty_id e"
      using ei by (simp add: entry_inv_def distinct_delete)
    with \<open>map_of (r_entries reg) p = Some e\<close> Some dt a p inv show ?thesis
      by (auto simp: detach_def Let_def intro!: registry_inv_put)
  qed
qed

lemma begin_close_inv:
  "registry_inv reg \<Longrightarrow> begin_close p reg = (res, reg') \<Longrightarrow> registry_inv reg'"
  by (auto simp: begin_close_def registry_inv_def AList.delete_eq distinct_map_filter
      split: option.splits dest!: map_of_SomeD)

lemma holds_offset:
  "length st < 2 ^ 64 \<Longrightarrow> holds c st l \<Longrightarrow> unat (t_offset (l_modes l)) = length st"
  by (simp add: holds_def t_offset_stream unat_of_nat64 tracker_new_def tracker_starting_at_def)

lemma publish_inv:
  assumes inv: "registry_inv reg" and e: "map_of (r_entries reg) p = Some e"
    and pb: "publish ts bs e c = Some (e', c')"
    and room: "unat (t_offset (l_modes (e_log e))) + length bs < 2 ^ 64"
  shows "registry_inv (put_entry p e' reg)"
proof -
  from registry_inv_lookup [OF inv e] have p: "e_pty_id e = p"
    and ei: "entry_inv (r_next_attachment_id reg) e" by auto
  from ei obtain st where n: "length st < 2 ^ 64" and h: "holds REPLAY_BUFFER_BYTES st (e_log e)"
    by (auto simp: entry_inv_def log_ok_def)
  from holds_offset [OF n h] room have n': "length (st @ bs) < 2 ^ 64" by simp
  from log_push_holds [OF h, of bs] obtain l where
    l: "log_push bs (e_log e) = Some l" "holds REPLAY_BUFFER_BYTES (st @ bs) l" by blast
  obtain ss c1 where f: "fan_out ts (Output (e_pty_id e) UNROUTED_ATTACHMENT bs) (e_subscribers e) c
      = (ss, c1)" by fastforce
  from entry_inv_fan_out [OF ei f] have "entry_inv (r_next_attachment_id reg)
      (e\<lparr>e_bytes_out := e_bytes_out e + word_of_nat (length bs), e_log := l, e_subscribers := ss\<rparr>)"
    using log_okI [OF n' l(2)] by (auto simp: entry_inv_def size_inv_def)
  with pb l f p inv show ?thesis by (auto simp: publish_def intro!: registry_inv_put)
qed

lemma session_end_inv:
  assumes inv: "registry_inv reg" and e: "map_of (r_entries reg) p = Some e"
    and se: "session_end ts code by_restart e c = (e', acts, c')"
  shows "registry_inv (put_entry p e' reg)"
proof -
  from registry_inv_lookup [OF inv e] have p: "e_pty_id e = p"
    and ei: "entry_inv (r_next_attachment_id reg) e" by auto
  have "entry_inv (r_next_attachment_id reg) e' \<and> e_pty_id e' = p"
    using se ei p
    by (auto simp: session_end_def Let_def split: if_splits prod.splits
        intro: entry_inv_fields [OF entry_inv_fan_out [OF ei]] entry_inv_fields [OF ei])
  with inv show ?thesis by (auto intro!: registry_inv_put)
qed

section \<open>The registry over its whole life\<close>

text \<open>
  One step of a running daemon: any operation, from any connection or reader thread, with
  the channels in any state.  The resize of a PTY succeeds; attachment ids do not run out, and no
  session prints \<open>2 ^ 64\<close> bytes.
\<close>

inductive reg_step :: "'c try_send \<Rightarrow> registry \<Rightarrow> registry \<Rightarrow> bool" for ts where
  spawned: "spawn args os now reg = (res, reg') \<Longrightarrow> length (sp_prefill args) < 2 ^ 64 \<Longrightarrow>
    reg_step ts reg reg'"
| attached: "attach ts p tx now reg c = (res, reg', c') \<Longrightarrow> r_next_attachment_id reg \<noteq> - 1 \<Longrightarrow>
    reg_step ts reg reg'"
| replayed: "replay_op ts p q now reg c = (res, reg', c') \<Longrightarrow> reg_step ts reg reg'"
| written: "write_op p bs ok reg = (res, reg') \<Longrightarrow> reg_step ts reg reg'"
| notified: "notify_op ts p title body reg c = (res, reg', c') \<Longrightarrow> reg_step ts reg reg'"
| reported: "agent_status ts p payload reg c = (res, reg', c') \<Longrightarrow> reg_step ts reg reg'"
| resized: "resize p i cols rows True reg = (res, reg') \<Longrightarrow> reg_step ts reg reg'"
| detached: "detach p i True reg = (res, reg') \<Longrightarrow> reg_step ts reg reg'"
| closing: "begin_close p reg = (res, reg') \<Longrightarrow> reg_step ts reg reg'"
| closed: "reg' = drop_closing e reg \<Longrightarrow> reg_step ts reg reg'"
| restarting: "reg' = mark_restarting reg \<Longrightarrow> reg_step ts reg reg'"
| stopping: "stop_if_idle reg = (b, reg') \<Longrightarrow> reg_step ts reg reg'"
| published: "map_of (r_entries reg) p = Some e \<Longrightarrow> publish ts bs e c = Some (e', c') \<Longrightarrow>
    unat (t_offset (l_modes (e_log e))) + length bs < 2 ^ 64 \<Longrightarrow>
    reg_step ts reg (put_entry p e' reg)"
| ended: "map_of (r_entries reg) p = Some e \<Longrightarrow>
    session_end ts code by_restart e c = (e', acts, c') \<Longrightarrow> reg_step ts reg (put_entry p e' reg)"
| checkpointed: "map_of (r_entries reg) p = Some e \<Longrightarrow>
    checkpoint_entry wr en (r_restarting reg) e = Some (e', acts) \<Longrightarrow>
    reg_step ts reg (put_entry p e' reg)"

inductive reg_reachable :: "'c try_send \<Rightarrow> registry \<Rightarrow> bool" for ts where
  fresh: "reg_reachable ts registry_new"
| step: "reg_reachable ts reg \<Longrightarrow> reg_step ts reg reg' \<Longrightarrow> reg_reachable ts reg'"

lemma registry_inv_flags [simp]:
  "registry_inv (reg\<lparr>r_closing := cl\<rparr>) = registry_inv reg"
  "registry_inv (reg\<lparr>r_restarting := b\<rparr>) = registry_inv reg"
  by (simp_all add: registry_inv_def)

lemma checkpoint_inv:
  assumes inv: "registry_inv reg" and e: "map_of (r_entries reg) p = Some e"
    and ck: "checkpoint_entry wr en rs e = Some (e', acts)"
  shows "registry_inv (put_entry p e' reg)"
proof -
  from registry_inv_lookup [OF inv e] have p: "e_pty_id e = p"
    and ei: "entry_inv (r_next_attachment_id reg) e" by auto
  have "entry_inv (r_next_attachment_id reg) e' \<and> e_pty_id e' = p"
    using ck ei p
    by (auto simp: checkpoint_entry_def Let_def split: if_splits option.splits
        intro: entry_inv_fields [OF ei])
  with inv show ?thesis by (auto intro!: registry_inv_put)
qed

lemma reg_step_inv: "reg_step ts reg reg' \<Longrightarrow> registry_inv reg \<Longrightarrow> registry_inv reg'"
proof (induction rule: reg_step.induct)
  case (spawned args os now reg res reg')
  then show ?case using spawn_inv by blast
next
  case (closed reg' e reg)
  then show ?case by (simp add: drop_closing_def)
next
  case (restarting reg' reg)
  then show ?case by (simp add: mark_restarting_def)
next
  case (stopping reg b reg')
  then show ?case by (auto simp: stop_if_idle_def split: if_splits)
qed (auto intro: attach_inv replay_op_inv write_op_inv notify_op_inv agent_status_inv resize_inv
    detach_inv begin_close_inv publish_inv session_end_inv checkpoint_inv)

lemma registry_new_inv: "registry_inv registry_new"
  by (simp add: registry_inv_def registry_new_def)

lemma reachable_inv: "reg_reachable ts reg \<Longrightarrow> registry_inv reg"
  by (induction rule: reg_reachable.induct) (auto intro: registry_new_inv reg_step_inv)

lemma log_ok_build:
  assumes "log_ok l"
  obtains stream r where "length stream < 2 ^ 64" "holds REPLAY_BUFFER_BYTES stream l"
    "log_snapshot l = Some (snapshot_of REPLAY_BUFFER_BYTES stream)"
    "build (snapshot_of REPLAY_BUFFER_BYTES stream) = Some r"
proof -
  from assms obtain stream where "length stream < 2 ^ 64" "holds REPLAY_BUFFER_BYTES stream l"
    by (auto simp: log_ok_def)
  with build_snapshot_ok [of stream REPLAY_BUFFER_BYTES] log_snapshot_holds that show thesis by blast
qed

lemma reachable_log_ok:
  "reg_reachable ts reg \<Longrightarrow> map_of (r_entries reg) p = Some e \<Longrightarrow> log_ok (e_log e)"
  using registry_inv_lookup [OF reachable_inv] by (auto simp: entry_inv_def)

lemma log_ok_push: "log_ok l \<Longrightarrow> log_push bs l \<noteq> None"
  using log_push_holds by (fastforce simp: log_ok_def)

lemma log_ok_raw: "log_ok l \<Longrightarrow> log_raw l \<noteq> None"
  using holds_raw by (fastforce simp: log_ok_def)

lemma attach_total: "log_ok (e_log e) \<Longrightarrow> map_of (r_entries reg) p = Some e \<Longrightarrow>
    fst (attach ts p tx now reg c) \<noteq> Inl Panicked"
  by (erule log_ok_build) (simp add: attach_def Let_def)

lemma replay_op_total: "log_ok (e_log e) \<Longrightarrow> map_of (r_entries reg) p = Some e \<Longrightarrow>
    fst (replay_op ts p q now reg c) \<noteq> Inl Panicked"
  by (erule log_ok_build) (simp add: replay_op_def Let_def split: prod.split)

lemma attach_no_panic:
  "reg_reachable ts reg \<Longrightarrow> fst (attach ts p tx now reg c) \<noteq> Inl Panicked"
proof (cases "map_of (r_entries reg) p")
  case (Some e)
  then show "reg_reachable ts reg \<Longrightarrow> ?thesis" using attach_total reachable_log_ok by metis
qed (simp add: attach_def)

lemma replay_op_no_panic:
  "reg_reachable ts reg \<Longrightarrow> fst (replay_op ts p q now reg c) \<noteq> Inl Panicked"
proof (cases "map_of (r_entries reg) p")
  case (Some e)
  then show "reg_reachable ts reg \<Longrightarrow> ?thesis" using replay_op_total reachable_log_ok by metis
qed (simp add: replay_op_def)

section \<open>What a client can rely on\<close>

text \<open>C17: In every state a running daemon can reach, no request on a session panics: not an
  attach, not a resync, not the reader's next chunk, not a checkpoint.\<close>

theorem registry_never_panics:
  assumes reach: "reg_reachable ts reg"
  shows "fst (attach ts p tx now reg c) \<noteq> Inl Panicked \<and>
         fst (replay_op ts p q now reg c) \<noteq> Inl Panicked \<and>
         (\<forall>e. map_of (r_entries reg) p = Some e \<longrightarrow>
            publish ts bs e c \<noteq> None \<and> checkpoint_entry wr en rs e \<noteq> None)"
proof (cases "map_of (r_entries reg) p")
  case None
  then show ?thesis by (simp add: attach_def replay_op_def)
next
  case (Some e)
  from reachable_log_ok [OF reach Some] have ok: "log_ok (e_log e)" .
  from log_ok_push [OF ok, of bs] log_ok_raw [OF ok] have
    "publish ts bs e c \<noteq> None" "checkpoint_entry wr en rs e \<noteq> None"
    by (auto simp: publish_def checkpoint_entry_def Let_def split: prod.split)
  with attach_no_panic [OF reach, of p tx now c] replay_op_no_panic [OF reach, of p q now c] Some
  show ?thesis by simp
qed


lemma detach_subscribers:
  assumes "map_of (r_entries reg) p = Some e" and "detach p i True reg = (res, reg')"
  shows "\<exists>e'. map_of (r_entries reg') p = Some e' \<and> i \<notin> sub_attachment_id ` set (e_subscribers e')"
proof -
  obtain r ea where a: "apply_effective_size True (e\<lparr>e_attachments := AList.delete i (e_attachments e),
      e_subscribers := filter (\<lambda>s. sub_attachment_id s \<noteq> i) (e_subscribers e)\<rparr>) = (r, ea)" by fastforce
  from apply_effective_size_ok [OF a] a assms show ?thesis
    by (cases "map_of (e_attachments e) i")
      (auto simp: detach_def Let_def put_entry_def update_conv')
qed

text \<open>Detaching always succeeds on a live session; it removes the client's subscription and
  its vote on the size, leaves every other client's, and doing it again changes nothing.\<close>

theorem detach_forgets:
  assumes reach: "reg_reachable ts reg" and e: "map_of (r_entries reg) p = Some e"
    and dt: "detach p i True reg = (res, reg')"
  shows "res = Inr () \<and> detach p i True reg' = (Inr (), reg') \<and>
    (\<exists>e'. map_of (r_entries reg') p = Some e' \<and>
       e_attachments e' = filter (\<lambda>(j, _). j \<noteq> i) (e_attachments e) \<and>
       e_subscribers e' = filter (\<lambda>s. sub_attachment_id s \<noteq> i) (e_subscribers e) \<and>
       (e_attachments e' \<noteq> [] \<longrightarrow>
          max (e_cols e') 1 = max (Min (fst ` snd ` set (e_attachments e'))) 1 \<and>
          max (e_rows e') 1 = max (Min (snd ` snd ` set (e_attachments e'))) 1))"
proof -
  let ?e1 = "e\<lparr>e_attachments := AList.delete i (e_attachments e),
      e_subscribers := filter (\<lambda>s. sub_attachment_id s \<noteq> i) (e_subscribers e)\<rparr>"
  from registry_inv_lookup [OF reachable_inv [OF reach] e] have si: "size_inv e"
    by (simp add: entry_inv_def)
  obtain r ea where a: "apply_effective_size True ?e1 = (r, ea)" by fastforce
  from apply_effective_size_ok [OF a] have ea: "r = Inr ()" "size_inv ea"
    "e_attachments ea = AList.delete i (e_attachments e)"
    "e_subscribers ea = filter (\<lambda>s. sub_attachment_id s \<noteq> i) (e_subscribers e)" by simp_all
  obtain e' where e': "res = Inr ()" "reg' = put_entry p e' reg" "size_inv e'"
    "e_attachments e' = AList.delete i (e_attachments e)"
    "e_subscribers e' = filter (\<lambda>s. sub_attachment_id s \<noteq> i) (e_subscribers e)"
  proof (cases "map_of (e_attachments e) i")
    case None
    with dt e si show thesis
      by (intro that [of ?e1]) (simp_all add: detach_def Let_def size_inv_def size_inv_unremoved)
  next
    case (Some sz)
    with dt e a ea show thesis by (intro that [of ea]) (simp_all add: detach_def Let_def)
  qed
  then have l: "map_of (r_entries reg') p = Some e'" by (simp add: put_entry_def update_conv')
  have "map_of (e_attachments e') i = None" by (simp add: e'(4) delete_conv')
  moreover have same: "e'\<lparr>e_attachments := AList.delete i (e_attachments e'),
      e_subscribers := filter (\<lambda>s. sub_attachment_id s \<noteq> i) (e_subscribers e')\<rparr> = e'"
    by (simp add: e'(4,5) delete_idem)
  moreover have "put_entry p e' reg' = reg'" by (simp add: e'(2) put_entry_def)
  ultimately have "detach p i True reg' = (Inr (), reg')" using l by (simp add: detach_def Let_def)
  moreover have "AList.delete i (e_attachments e) = filter (\<lambda>(j, _). j \<noteq> i) (e_attachments e)"
    by (induction "e_attachments e" rule: list.induct) (auto simp: AList.delete_eq intro: filter_cong)
  ultimately show ?thesis using e' l by (auto simp: size_inv_def)
qed


lemma live_count_delete:
  "distinct (map fst xs) \<Longrightarrow> map_of xs p = Some e \<Longrightarrow>
   Suc (length (AList.delete p xs)) = length xs"
proof (induction xs)
  case (Cons x xs)
  then show ?case by (cases "fst x = p") (auto simp: delete_id)
qed simp

lemma live_count_update:
  "map_of xs p = None \<Longrightarrow> length (AList.update p e xs) = Suc (length xs)"
  by (induction xs) (auto split: if_splits)

text \<open>A close takes the session off the list at once, so that every later request on it is
  told it does not exist; until the closing handle goes it is still counted as live and
  reported as closing.\<close>

theorem close_unlists:
  assumes "reg_reachable ts reg" and "begin_close p reg = (Inr e, reg1)"
  shows "map_of (r_entries reg1) p = None \<and> is_closing p reg1 \<and> \<not> is_closing p (drop_closing e reg1) \<and>
    (\<not> is_closing p reg \<longrightarrow> live_count reg1 = live_count reg) \<and>
    attach ts p tx now reg1 c = (Inl (NotFound p), reg1, c) \<and>
    write_op p bs ok reg1 = (Inl (NotFound p), reg1) \<and>
    resize p i cols rows rz reg1 = (Inl (NotFound p), reg1) \<and>
    begin_close p reg1 = (Inl (NotFound p), reg1)"
proof -
  from assms(2) have e: "map_of (r_entries reg) p = Some e"
    and reg1: "reg1 = reg\<lparr>r_entries := AList.delete p (r_entries reg),
                      r_closing := AList.update (e_pty_id e) e (r_closing reg)\<rparr>"
    by (auto simp: begin_close_def split: option.splits)
  note inv = reachable_inv [OF assms(1)]
  from registry_inv_lookup [OF inv e] have p: "e_pty_id e = p" by simp
  from inv have d: "distinct (map fst (r_entries reg))" by (simp add: registry_inv_def)
  have n: "map_of (r_entries reg1) p = None" by (simp add: reg1 delete_conv')
  have "live_count reg1 = live_count reg" if "\<not> is_closing p reg"
    using live_count_delete [OF d e] that
    by (simp add: live_count_def reg1 p is_closing_def live_count_update)
  with n show ?thesis
    by (simp add: is_closing_def drop_closing_def reg1 p update_conv' delete_conv' attach_def
        write_op_def resize_def begin_close_def)
qed

lemma no_session_step:
  "reg_step ts reg reg' \<Longrightarrow> r_restarting reg \<and> r_entries reg = [] \<Longrightarrow>
   r_restarting reg' \<and> r_entries reg' = []"
  by (induction rule: reg_step.induct)
    (auto simp: spawn_def attach_def replay_op_def write_op_def notify_op_def agent_status_def
      resize_def detach_def begin_close_def drop_closing_def mark_restarting_def stop_if_idle_def
      split: if_splits)

lemma no_session_steps:
  "(reg_step ts)\<^sup>*\<^sup>* reg reg' \<Longrightarrow> r_restarting reg \<and> r_entries reg = [] \<Longrightarrow>
   r_restarting reg' \<and> r_entries reg' = []"
  by (induction rule: rtranclp_induct) (blast dest: no_session_step)+

text \<open>Once a cooperative shutdown has been accepted the daemon has no session and never gets
  another one, whatever is asked of it.\<close>

theorem accepted_shutdown_is_final:
  assumes "stop_if_idle reg = (True, reg1)" and "(reg_step ts)\<^sup>*\<^sup>* reg1 reg2"
  shows "r_entries reg2 = [] \<and> spawn args os now reg2 = (Inl Internal, reg2)"
proof -
  from assms(1) have "r_restarting reg1 \<and> r_entries reg1 = []"
    by (auto simp: stop_if_idle_def live_count_def split: if_splits)
  from no_session_steps [OF assms(2) this] show ?thesis by (simp add: spawn_def)
qed

text \<open>A detached attachment id is not retired: a later resize carrying it is accepted, and its
  screen counts in the size again although nobody is subscribed under it.\<close>

theorem resize_revives_detached:
  assumes reach: "reg_reachable ts reg" and e: "map_of (r_entries reg) p = Some e"
    and dt: "detach p i True reg = (res, reg1)"
  shows "\<exists>reg2 e2. resize p i 1 1 True reg1 = (Inr (), reg2) \<and>
    map_of (r_entries reg2) p = Some e2 \<and> e_cols e2 = 1 \<and> e_rows e2 = 1 \<and>
    i \<notin> sub_attachment_id ` set (e_subscribers e2)"
proof -
  from detach_subscribers [OF e dt] obtain e1 where
    e1: "map_of (r_entries reg1) p = Some e1" "i \<notin> sub_attachment_id ` set (e_subscribers e1)"
    by blast
  let ?e = "e1\<lparr>e_attachments := AList.update i (1, 1) (e_attachments e1)\<rparr>"
  obtain r e2 where a: "apply_effective_size True ?e = (r, e2)" by fastforce
  let ?A = "set (AList.update i (1 :: u16, 1 :: u16) (e_attachments e1))"
  have "(i, 1, 1) \<in> ?A" using map_of_SomeD [of "AList.update i (1, 1) (e_attachments e1)" i]
    by (simp add: update_conv')
  then have "Min (fst ` snd ` ?A) \<le> 1" "Min (snd ` snd ` ?A) \<le> 1" by (force intro!: Min_le)+
  with apply_effective_size_ok [OF a] have "r = Inr ()" "e_cols e2 = 1" "e_rows e2 = 1"
    "e_subscribers e2 = e_subscribers e1" by (simp_all add: max_def)
  with a e1 show ?thesis by (simp add: resize_def put_entry_def update_conv')
qed

section \<open>A running daemon\<close>

text \<open>A session restored from its scrollback, with one client attached.\<close>

definition demo_args :: spawn_args where
  "demo_args = \<lparr>sp_cwd = ''/'', sp_cols = 80, sp_rows = 24, sp_shell = None, sp_args = [],
     sp_env = [], sp_prefill = demo_stream\<rparr>"

lemma demo_daemon:
  obtains reg e s where "reg_reachable demo_send reg" "map_of (r_entries reg) ''p'' = Some e"
    "e_attachments e = [(1, 80, 24)]" "r_closing reg = []"
    "e_subscribers e = [\<lparr>sub_attachment_id = 1, sub_tx = 0, sub_gapped = False\<rparr>]"
    "log_snapshot (e_log e) = Some s" "clean_replay s" "expressible (s_live s)"
proof -
  have c: "0 < REPLAY_BUFFER_BYTES" "16 \<le> REPLAY_BUFFER_BYTES" by (simp_all add: REPLAY_BUFFER_BYTES_def)
  have n: "length demo_stream < 2 ^ 64" by (simp add: demo_length)
  from log_new_holds [OF c(1), of demo_stream] obtain l where
    l: "log_new REPLAY_BUFFER_BYTES demo_stream = Some l" "holds REPLAY_BUFFER_BYTES demo_stream l"
    by blast
  let ?s = "snapshot_of REPLAY_BUFFER_BYTES demo_stream"
  from build_snapshot_ok [OF n, of REPLAY_BUFFER_BYTES] obtain r where b: "build ?s = Some r" by blast
  obtain reg1 where sp: "spawn demo_args (Some (''p'', None)) 0 registry_new = (Inr ''p'', reg1)"
    "r_next_attachment_id reg1 = 1" "r_closing reg1 = []" and
    "\<exists>e1. map_of (r_entries reg1) ''p'' = Some e1 \<and> e_attachments e1 = [] \<and> e_subscribers e1 = [] \<and>
       e_log e1 = l \<and> e_cols e1 = 80 \<and> e_rows e1 = 24 \<and> \<not> e_child_exited e1"
    using l by (auto simp: spawn_def registry_new_def demo_args_def put_entry_def)
  then obtain e1 where e1: "map_of (r_entries reg1) ''p'' = Some e1" "e_attachments e1 = []"
    "e_subscribers e1 = []" "e_log e1 = l" "e_cols e1 = 80" "e_rows e1 = 24" "\<not> e_child_exited e1"
    by blast
  have r1: "reg_reachable demo_send reg1"
    by (rule reg_reachable.step [OF reg_reachable.fresh reg_step.spawned [OF sp(1)]])
      (simp add: demo_args_def demo_length)
  obtain res reg2 c' where at: "attach demo_send ''p'' 0 0 reg1 0 = (res, reg2, c')"
    by (metis prod_cases3)
  have r2: "reg_reachable demo_send reg2"
    by (rule reg_reachable.step [OF r1 reg_step.attached [OF at]]) (simp add: sp)
  obtain e where "map_of (r_entries reg2) ''p'' = Some e" "e_attachments e = [(1, 80, 24)]"
    "e_subscribers e = [\<lparr>sub_attachment_id = 1, sub_tx = 0, sub_gapped = False\<rparr>]" "e_log e = l"
    "r_closing reg2 = []"
    using at e1 l sp b log_snapshot_holds [OF l(2)]
    by (auto simp: attach_def Let_def put_entry_def update_conv')
  moreover have "expressible (s_live ?s)"
    using demo_expressible by (simp add: feed_step1 tracker_new_def)
  ultimately show thesis
    using that r2 log_snapshot_holds [OF l(2)] demo_clean [OF c(2)] by blast
qed

lemma registry_never_panics_witness:
  "\<exists>reg. reg_reachable demo_send reg \<and> fst (attach demo_send ''p'' 0 0 reg 0) \<noteq> Inl Panicked"
  by (rule demo_daemon)
    (use registry_never_panics [of demo_send _ "''p''" 0 0 0 0 "[]" True True True] in blast)


lemma detach_forgets_witness:
  "\<exists>reg reg' e'. reg_reachable demo_send reg \<and> detach ''p'' 1 True reg = (Inr (), reg') \<and>
     map_of (r_entries reg') ''p'' = Some e' \<and> e_attachments e' = [] \<and> e_subscribers e' = []"
proof (rule demo_daemon)
  fix reg e
  assume a: "reg_reachable demo_send reg" "map_of (r_entries reg) ''p'' = Some e"
    "e_attachments e = [(1, 80, 24)]"
    "e_subscribers e = [\<lparr>sub_attachment_id = 1, sub_tx = 0, sub_gapped = False\<rparr>]"
  obtain res reg' where d: "detach ''p'' 1 True reg = (res, reg')" by fastforce
  from detach_forgets [OF a(1,2) d] a d show ?thesis by auto
qed


lemma close_unlists_witness:
  "\<exists>reg e reg1. reg_reachable demo_send reg \<and> begin_close ''p'' reg = (Inr e, reg1) \<and>
     write_op ''p'' [3] True reg1 = (Inl (NotFound ''p''), reg1) \<and> is_closing ''p'' reg1"
proof (rule demo_daemon)
  fix reg e
  assume a: "reg_reachable demo_send reg" "map_of (r_entries reg) ''p'' = Some e"
  then obtain reg1 where b: "begin_close ''p'' reg = (Inr e, reg1)" by (simp add: begin_close_def)
  from close_unlists [OF a(1) b] have "write_op ''p'' [3] True reg1 = (Inl (NotFound ''p''), reg1)"
    "is_closing ''p'' reg1" by blast+
  with a b show ?thesis by blast
qed

lemma accepted_shutdown_is_final_witness:
  "spawn demo_args (Some (''q'', None)) 7 (registry_new\<lparr>r_restarting := True\<rparr>) =
     (Inl Internal, registry_new\<lparr>r_restarting := True\<rparr>)"
proof -
  have "stop_if_idle registry_new = (True, registry_new\<lparr>r_restarting := True\<rparr>)"
    by (simp add: stop_if_idle_def live_count_def registry_new_def)
  from accepted_shutdown_is_final [OF this rtranclp.rtrancl_refl [of "reg_step demo_send"]]
  show ?thesis by simp
qed

lemma resize_revives_detached_witness:
  "\<exists>reg reg1 reg2 e2. reg_reachable demo_send reg \<and> detach ''p'' 1 True reg = (Inr (), reg1) \<and>
     resize ''p'' 1 1 1 True reg1 = (Inr (), reg2) \<and> map_of (r_entries reg2) ''p'' = Some e2 \<and>
     e_cols e2 = 1"
proof (rule demo_daemon)
  fix reg e
  assume a: "reg_reachable demo_send reg" "map_of (r_entries reg) ''p'' = Some e"
    "e_attachments e = [(1, 80, 24)]"
  obtain res reg1 where d: "detach ''p'' 1 True reg = (res, reg1)" by fastforce
  with a have "res = Inr ()" by (simp add: detach_def Let_def apply_effective_size_def)
  with resize_revives_detached [OF a(1,2) d] a d show ?thesis by blast
qed

end
