(* ===== verification/Relay_Frame.thy ===== *)
theory Relay_Frame
  imports Relay_Messages
begin

text \<open>
  The relay's framing (\<open>crates/relay-proto/src/frame.rs\<close>, \<open>auth.rs\<close>) and the buffered
  reader of a connection (\<open>crates/relay/src/codec.rs\<close>).  The bincode crate is a
  parameter, a record of encoders and decoders; the reads of the socket are a list,
  each element one \<open>read\<close>, at most a chunk of the buffer's size, the empty one an end of
  file.
\<close>

unbundle bit_operations_syntax

section \<open>Frames\<close>

definition MAX_FRAME_SIZE :: u32 where "MAX_FRAME_SIZE = 16 * 1024 * 1024"
definition HEADER_LEN :: nat where "HEADER_LEN = 1 + 4"

datatype proto_error =
    FrameTooLarge u64 | InvalidFrameKind u8 | Encode string | Decode string | TrailingBytes nat

datatype frame_kind = KRequest | KResponse | KNotification

fun kind_byte :: "frame_kind \<Rightarrow> u8" where
  "kind_byte KRequest = 0x01"
| "kind_byte KResponse = 0x02"
| "kind_byte KNotification = 0x03"

definition kind_from_byte :: "u8 \<Rightarrow> proto_error + frame_kind" where
  "kind_from_byte b =
     (if b = 0x01 then Inr KRequest
      else if b = 0x02 then Inr KResponse
      else if b = 0x03 then Inr KNotification
      else Inl (InvalidFrameKind b))"

datatype frame =
    FrameRequest u64 request
  | FrameResponse u64 response
  | FrameNotification notification

fun frame_kind_of :: "frame \<Rightarrow> frame_kind" where
  "frame_kind_of (FrameRequest _ _) = KRequest"
| "frame_kind_of (FrameResponse _ _) = KResponse"
| "frame_kind_of (FrameNotification _) = KNotification"

text \<open>The crate's \<open>encode_to_vec\<close> and \<open>decode_from_slice\<close> at the three payload types.\<close>

record bincode =
  enc_request :: "u64 \<times> request \<Rightarrow> string + bytes"
  dec_request :: "bytes \<Rightarrow> string + ((u64 \<times> request) \<times> nat)"
  enc_response :: "u64 \<times> response \<Rightarrow> string + bytes"
  dec_response :: "bytes \<Rightarrow> string + ((u64 \<times> response) \<times> nat)"
  enc_notification :: "notification \<Rightarrow> string + bytes"
  dec_notification :: "bytes \<Rightarrow> string + (notification \<times> nat)"

definition encode_payload :: "('a \<Rightarrow> string + bytes) \<Rightarrow> 'a \<Rightarrow> proto_error + bytes" where
  "encode_payload enc v = (case enc v of Inl e \<Rightarrow> Inl (Encode e) | Inr bs \<Rightarrow> Inr bs)"

definition decode_payload :: "(bytes \<Rightarrow> string + ('a \<times> nat)) \<Rightarrow> bytes \<Rightarrow> proto_error + 'a" where
  "decode_payload dec bs =
     (case dec bs of
        Inl e \<Rightarrow> Inl (Decode e)
      | Inr (v, consumed) \<Rightarrow>
          (if consumed \<noteq> length bs then Inl (TrailingBytes (length bs - consumed)) else Inr v))"

definition be32 :: "u32 \<Rightarrow> bytes" where
  "be32 w = [ucast (drop_bit 24 w), ucast (drop_bit 16 w), ucast (drop_bit 8 w), ucast w]"

definition from_be32 :: "u8 \<Rightarrow> u8 \<Rightarrow> u8 \<Rightarrow> u8 \<Rightarrow> u32" where
  "from_be32 a b c d =
     word_of_nat (((unat a * 256 + unat b) * 256 + unat c) * 256 + unat d)"

definition encode_frame :: "bincode \<Rightarrow> frame \<Rightarrow> proto_error + bytes" where
  "encode_frame bc f =
     (case (case f of
              FrameRequest i r \<Rightarrow> encode_payload (enc_request bc) (i, r)
            | FrameResponse i r \<Rightarrow> encode_payload (enc_response bc) (i, r)
            | FrameNotification n \<Rightarrow> encode_payload (enc_notification bc) n) of
        Inl e \<Rightarrow> Inl e
      | Inr payload \<Rightarrow>
          (if length payload > unat MAX_FRAME_SIZE
           then Inl (FrameTooLarge (word_of_nat (length payload)))
           else Inr (kind_byte (frame_kind_of f) # be32 (word_of_nat (length payload)) @ payload)))"

definition decode_frame :: "bincode \<Rightarrow> bytes \<Rightarrow> proto_error + (frame \<times> nat) option" where
  "decode_frame bc buf =
     (if length buf < HEADER_LEN then Inr None
      else (case kind_from_byte (buf ! 0) of
        Inl e \<Rightarrow> Inl e
      | Inr kind \<Rightarrow>
          let payload_len = from_be32 (buf ! 1) (buf ! 2) (buf ! 3) (buf ! 4) in
          if payload_len > MAX_FRAME_SIZE then Inl (FrameTooLarge (ucast payload_len))
          else
            let total = HEADER_LEN + unat payload_len in
            if length buf < total then Inr None
            else
              let payload = take (total - HEADER_LEN) (drop HEADER_LEN buf) in
              (case (case kind of
                       KRequest \<Rightarrow> map_sum id (\<lambda>(i, r). FrameRequest i r)
                                    (decode_payload (dec_request bc) payload)
                     | KResponse \<Rightarrow> map_sum id (\<lambda>(i, r). FrameResponse i r)
                                     (decode_payload (dec_response bc) payload)
                     | KNotification \<Rightarrow> map_sum id FrameNotification
                                         (decode_payload (dec_notification bc) payload)) of
                 Inl e \<Rightarrow> Inl e
               | Inr f \<Rightarrow> Inr (Some (f, total)))))"

section \<open>Reading a connection\<close>

datatype codec_error = Io string | Proto proto_error | Eof | UnexpectedEof nat

datatype socket_read = ReadErr string | ReadBytes bytes

text \<open>
  One call of \<open>read_frame\<close>: the frame or error, the buffer left and the reads left.
  \<open>None\<close>: the reads ran out, the call is still waiting for the socket.
\<close>

fun read_frame :: "bincode \<Rightarrow> socket_read list \<Rightarrow> bytes \<Rightarrow>
    ((codec_error + frame) \<times> bytes \<times> socket_read list) option" where
  "read_frame bc reads buf =
     (case decode_frame bc buf of
        Inl e \<Rightarrow> Some (Inl (Proto e), buf, reads)
      | Inr (Some (f, consumed)) \<Rightarrow> Some (Inr f, drop consumed buf, reads)
      | Inr None \<Rightarrow>
          (case reads of
             [] \<Rightarrow> None
           | ReadErr e # rest \<Rightarrow> Some (Inl (Io e), buf, rest)
           | ReadBytes chunk # rest \<Rightarrow>
               if chunk = [] then
                 Some (Inl (if buf = [] then Eof else UnexpectedEof (length buf)), buf, rest)
               else read_frame bc rest (buf @ chunk)))"

declare read_frame.simps [simp del]

text \<open>A connection read to its end: the frames, in order, and the error that ended it.\<close>

fun read_frames :: "nat \<Rightarrow> bincode \<Rightarrow> socket_read list \<Rightarrow> bytes \<Rightarrow> frame list \<times> codec_error option" where
  "read_frames 0 bc reads buf = ([], None)"
| "read_frames (Suc n) bc reads buf =
     (case read_frame bc reads buf of
        None \<Rightarrow> ([], None)
      | Some (Inl e, _) \<Rightarrow> ([], Some e)
      | Some (Inr f, buf', reads') \<Rightarrow>
          (case read_frames n bc reads' buf' of (fs, e) \<Rightarrow> (f # fs, e)))"

section \<open>Proofs of the token\<close>

text \<open>\<open>hmac key msg\<close> is HMAC-SHA256 of the \<open>hmac\<close> and \<open>sha2\<close> crates.\<close>

type_synonym hmac = "bytes \<Rightarrow> bytes \<Rightarrow> bytes"

definition CLIENT_DOMAIN :: bytes where
  "CLIENT_DOMAIN = map (word_of_nat \<circ> of_char) ''oximux-relay/v8/client''"
definition SERVER_DOMAIN :: bytes where
  "SERVER_DOMAIN = map (word_of_nat \<circ> of_char) ''oximux-relay/v8/server''"

definition proof_of :: "hmac \<Rightarrow> bytes \<Rightarrow> bytes \<Rightarrow> nonce \<Rightarrow> nonce \<Rightarrow> proof_bytes" where
  "proof_of hm domain token server_nonce client_nonce =
     hm token (domain @ server_nonce @ client_nonce)"

definition client_proof :: "hmac \<Rightarrow> bytes \<Rightarrow> nonce \<Rightarrow> nonce \<Rightarrow> proof_bytes" where
  "client_proof hm = proof_of hm CLIENT_DOMAIN"

definition server_proof :: "hmac \<Rightarrow> bytes \<Rightarrow> nonce \<Rightarrow> nonce \<Rightarrow> proof_bytes" where
  "server_proof hm = proof_of hm SERVER_DOMAIN"

definition proofs_match :: "proof_bytes \<Rightarrow> proof_bytes \<Rightarrow> bool" where
  "proofs_match a b = (foldl (\<lambda>acc (x, y). acc OR (x XOR y)) 0 (zip a b) = 0)"

section \<open>Framing is unambiguous\<close>

text \<open>
  The crate's contract: decoding the bytes an encoder produced gives the value back and
  consumes all of them.
\<close>

definition bincode_ok :: "bincode \<Rightarrow> bool" where
  "bincode_ok bc \<longleftrightarrow>
     (\<forall>v bs. enc_request bc v = Inr bs \<longrightarrow> dec_request bc bs = Inr (v, length bs)) \<and>
     (\<forall>v bs. enc_response bc v = Inr bs \<longrightarrow> dec_response bc bs = Inr (v, length bs)) \<and>
     (\<forall>v bs. enc_notification bc v = Inr bs \<longrightarrow> dec_notification bc bs = Inr (v, length bs))"

lemma kind_round_trip [simp]: "kind_from_byte (kind_byte k) = Inr k"
  by (cases k) (simp_all add: kind_from_byte_def)

lemma base_256: "((n div 16777216 mod 256 * 256 + n div 65536 mod 256) * 256 + n div 256 mod 256) * 256 +
    n mod 256 = n" if "n < 4294967296" for n :: nat
proof -
  have "n div 65536 = n div 256 div 256" "n div 16777216 = n div 256 div 256 div 256"
    by (simp_all add: div_mult2_eq [symmetric])
  moreover have "n div 256 div 256 div 256 < 256" using that by (simp add: div_mult2_eq [symmetric])
  ultimately show ?thesis by (metis mod_less mult.commute mult_div_mod_eq)
qed

lemma from_be32_be32:
  "be32 w = [a, b, c, d] \<Longrightarrow> from_be32 a b c d = w"
proof -
  assume "be32 w = [a, b, c, d]"
  then have "unat a = unat w div 16777216 mod 256" "unat b = unat w div 65536 mod 256"
    "unat c = unat w div 256 mod 256" "unat d = unat w mod 256"
    by (auto simp: be32_def unsigned_ucast_eq unsigned_drop_bit_eq take_bit_eq_mod drop_bit_eq_div
        unsigned_take_bit_eq unat_div)
  with base_256 [of "unat w"] unsigned_less [of w, where 'a = nat] show ?thesis
    by (simp add: from_be32_def)
qed

lemma encode_frame_shape:
  assumes "encode_frame bc f = Inr bs"
  obtains payload where "bs = kind_byte (frame_kind_of f) # be32 (word_of_nat (length payload)) @ payload"
    "length payload \<le> unat MAX_FRAME_SIZE"
    "case f of FrameRequest i r \<Rightarrow> enc_request bc (i, r) = Inr payload
       | FrameResponse i r \<Rightarrow> enc_response bc (i, r) = Inr payload
       | FrameNotification n \<Rightarrow> enc_notification bc n = Inr payload"
proof -
  let ?p = "case f of FrameRequest i r \<Rightarrow> encode_payload (enc_request bc) (i, r)
            | FrameResponse i r \<Rightarrow> encode_payload (enc_response bc) (i, r)
            | FrameNotification n \<Rightarrow> encode_payload (enc_notification bc) n"
  from assms obtain payload where p: "?p = Inr payload"
    and b: "length payload \<le> unat MAX_FRAME_SIZE"
    "bs = kind_byte (frame_kind_of f) # be32 (word_of_nat (length payload)) @ payload"
    unfolding encode_frame_def by (cases ?p) (auto split: if_splits)
  from p have "case f of FrameRequest i r \<Rightarrow> enc_request bc (i, r) = Inr payload
       | FrameResponse i r \<Rightarrow> enc_response bc (i, r) = Inr payload
       | FrameNotification n \<Rightarrow> enc_notification bc n = Inr payload"
    by (cases f) (simp_all add: encode_payload_def split: sum.splits)
  then show thesis by (rule that [OF b(2,1)])
qed

lemma unat_MAX_FRAME_SIZE: "unat MAX_FRAME_SIZE = 16777216"
  by (simp add: MAX_FRAME_SIZE_def)

lemma decode_frame_header:
  assumes "kind_from_byte k = Inr kind" and "from_be32 a b c d = w" and "\<not> MAX_FRAME_SIZE < w"
  shows "decode_frame bc (k # a # b # c # d # xs) =
    (if length xs < unat w then Inr None
     else let payload = take (unat w) xs in
       (case (case kind of
                KRequest \<Rightarrow> map_sum id (\<lambda>(i, r). FrameRequest i r)
                             (decode_payload (dec_request bc) payload)
              | KResponse \<Rightarrow> map_sum id (\<lambda>(i, r). FrameResponse i r)
                              (decode_payload (dec_response bc) payload)
              | KNotification \<Rightarrow> map_sum id FrameNotification
                                  (decode_payload (dec_notification bc) payload)) of
          Inl e \<Rightarrow> Inl e | Inr f \<Rightarrow> Inr (Some (f, 5 + unat w))))"
  using assms by (simp add: decode_frame_def HEADER_LEN_def Let_def cong: if_cong
      split: frame_kind.split)

lemma decode_frame_encoded:
  assumes ok: "bincode_ok bc" and enc: "encode_frame bc f = Inr bs"
  shows "decode_frame bc (bs @ rest) = Inr (Some (f, length bs))"
    and "k < length bs \<Longrightarrow> decode_frame bc (take k bs) = Inr None"
proof -
  from encode_frame_shape [OF enc] obtain payload where
    bs: "bs = kind_byte (frame_kind_of f) # be32 (word_of_nat (length payload)) @ payload"
    and le: "length payload \<le> unat MAX_FRAME_SIZE"
    and p: "case f of FrameRequest i r \<Rightarrow> enc_request bc (i, r) = Inr payload
       | FrameResponse i r \<Rightarrow> enc_response bc (i, r) = Inr payload
       | FrameNotification n \<Rightarrow> enc_notification bc n = Inr payload" .
  let ?w = "word_of_nat (length payload) :: u32"
  obtain a b c d where abcd: "be32 ?w = [a, b, c, d]" by (simp add: be32_def)
  note w = from_be32_be32 [OF abcd]
  have n: "unat ?w = length payload" using le unat_MAX_FRAME_SIZE
    by (simp add: unat_of_nat take_bit_nat_eq_self)
  have small: "\<not> MAX_FRAME_SIZE < ?w" using le n by (simp add: word_less_nat_alt)
  have len: "length bs = 5 + length payload" by (simp add: bs abcd)
  show "decode_frame bc (bs @ rest) = Inr (Some (f, length bs))"
    unfolding len bs abcd append_Cons append_Nil
      decode_frame_header [OF kind_round_trip w small]
    using ok p n by (cases f) (simp_all add: Let_def decode_payload_def bincode_ok_def)
  assume k: "k < length bs"
  show "decode_frame bc (take k bs) = Inr None"
  proof (cases "k < 5")
    case True
    then show ?thesis by (simp add: decode_frame_def HEADER_LEN_def min_def)
  next
    case False
    then obtain j where j: "k = Suc (Suc (Suc (Suc (Suc j))))" by (auto dest!: less_imp_Suc_add
        simp: not_less le_iff_add)
    then have t: "take k bs = kind_byte (frame_kind_of f) # a # b # c # d # take j payload"
      by (simp add: bs abcd)
    show ?thesis using k len n j
      unfolding t decode_frame_header [OF kind_round_trip w small] by simp
  qed
qed

text \<open>A frame that was encoded decodes to itself whatever follows it, consuming exactly its
  own bytes, and any shorter prefix is recognised as incomplete, never as another frame or
  an error.\<close>

theorem frame_round_trip:
  assumes "bincode_ok bc" and "encode_frame bc f = Inr bs"
  shows "decode_frame bc (bs @ rest) = Inr (Some (f, length bs)) \<and>
         (\<forall>k < length bs. decode_frame bc (take k bs) = Inr None)"
  using decode_frame_encoded [OF assms] by blast

lemma read_frame_one:
  assumes ok: "bincode_ok bc" and enc: "encode_frame bc f = Inr bs"
  shows "buf @ concat chunks = bs @ rest \<Longrightarrow> [] \<notin> set chunks \<Longrightarrow>
    \<exists>buf' chunks'. read_frame bc (map ReadBytes chunks @ tail) buf =
        Some (Inr f, buf', map ReadBytes chunks' @ tail) \<and>
      buf' @ concat chunks' = rest \<and> set chunks' \<subseteq> set chunks"
proof (induction chunks arbitrary: buf)
  case Nil
  then have "decode_frame bc buf = Inr (Some (f, length bs))"
    using decode_frame_encoded(1) [OF ok enc] by simp
  with Nil show ?case by (intro exI [of _ rest] exI [of _ "[]"]) (simp add: read_frame.simps)
next
  case (Cons c cs)
  show ?case
  proof (cases "length bs \<le> length buf")
    case True
    with Cons.prems(1) have b: "buf = bs @ drop (length bs) buf" "drop (length bs) buf @ concat (c # cs) = rest"
      by (metis append_eq_append_conv_if append_take_drop_id)
        (metis True Cons.prems(1) append_eq_conv_conj drop_append diff_is_0_eq drop_0)
    then have "decode_frame bc buf = Inr (Some (f, length bs))"
      using decode_frame_encoded(1) [OF ok enc, of "drop (length bs) buf"] by simp
    with b(2) show ?thesis
      by (intro exI [of _ "drop (length bs) buf"] exI [of _ "c # cs"]) (simp add: read_frame.simps)
  next
    case False
    with Cons.prems(1) have b: "buf = take (length buf) bs"
      by (metis append_eq_append_conv_if nat_le_linear)
    from False decode_frame_encoded(2) [OF ok enc, of "length buf"] b have
      "decode_frame bc buf = Inr None" by simp
    then have "read_frame bc (map ReadBytes (c # cs) @ tail) buf =
        read_frame bc (map ReadBytes cs @ tail) (buf @ c)"
      using Cons.prems(2) by (subst read_frame.simps) auto
    with Cons.IH [of "buf @ c"] Cons.prems show ?thesis by auto
  qed
qed

lemma read_frames_all:
  assumes ok: "bincode_ok bc" and enc: "map (encode_frame bc) fs = map Inr bss"
  shows "buf @ concat chunks = concat bss \<Longrightarrow> [] \<notin> set chunks \<Longrightarrow> length fs < n \<Longrightarrow>
    read_frames n bc (map ReadBytes chunks @ [ReadBytes []]) buf = (fs, Some Eof)"
  using enc
proof (induction fs arbitrary: bss buf chunks n)
  case Nil
  then show ?case
    by (cases n; cases chunks) (auto simp: read_frame.simps decode_frame_def HEADER_LEN_def)
next
  case (Cons f fs)
  then obtain bs bss' n' where b: "bss = bs # bss'" "encode_frame bc f = Inr bs" and n: "n = Suc n'"
    by (cases bss; cases n) auto
  from read_frame_one [OF ok b(2), of buf chunks "concat bss'" "[ReadBytes []]"] Cons.prems b
  obtain buf' chunks' where r: "read_frame bc (map ReadBytes chunks @ [ReadBytes []]) buf =
      Some (Inr f, buf', map ReadBytes chunks' @ [ReadBytes []])"
    "buf' @ concat chunks' = concat bss'" "set chunks' \<subseteq> set chunks" by auto
  then have "[] \<notin> set chunks'" using Cons.prems by blast
  with Cons.IH [OF r(2), of n'] r(1) Cons.prems b n show ?case by simp
qed

text \<open>C31: However the socket cuts the bytes of a connection into reads, the frames that come out
  are those that were sent, in order, followed by a clean end of file.\<close>

theorem connection_reads_sent_frames:
  assumes "bincode_ok bc" and "map (encode_frame bc) fs = map Inr bss"
    and "concat chunks = concat bss" and "[] \<notin> set chunks" and "length fs < n"
  shows "read_frames n bc (map ReadBytes chunks @ [ReadBytes []]) [] = (fs, Some Eof)"
  by (rule read_frames_all [OF assms(1,2) _ assms(4,5)]) (simp add: assms(3))

text \<open>A codec that knows one request and one notification.\<close>

definition demo_bincode :: bincode where
  "demo_bincode = \<lparr>
     enc_request = (\<lambda>v. if v = (7, ReqListPtys) then Inr [7, 7] else Inl ''unknown''),
     dec_request = (\<lambda>bs. if bs = [7, 7] then Inr ((7, ReqListPtys), 2) else Inl ''unknown''),
     enc_response = (\<lambda>v. if v = (7, RespOk) then Inr [8] else Inl ''unknown''),
     dec_response = (\<lambda>bs. if bs = [8] then Inr ((7, RespOk), 1) else Inl ''unknown''),
     enc_notification = (\<lambda>v. Inl ''unknown''), dec_notification = (\<lambda>bs. Inl ''unknown'')\<rparr>"

lemma demo_bincode_ok: "bincode_ok demo_bincode"
  by (auto simp: bincode_ok_def demo_bincode_def split: if_splits)

lemma demo_encoded:
  "encode_frame demo_bincode (FrameRequest 7 ReqListPtys) = Inr [1, 0, 0, 0, 2, 7, 7]"
  "encode_frame demo_bincode (FrameResponse 7 RespOk) = Inr [2, 0, 0, 0, 1, 8]"
  by (simp_all add: encode_frame_def encode_payload_def demo_bincode_def unat_MAX_FRAME_SIZE)
    (simp_all add: be32_def)

lemma frame_round_trip_witness:
  "decode_frame demo_bincode [1, 0, 0, 0, 2, 7, 7, 99] = Inr (Some (FrameRequest 7 ReqListPtys, 7)) \<and>
   decode_frame demo_bincode [1, 0, 0, 0, 2, 7] = Inr None"
  using frame_round_trip [OF demo_bincode_ok demo_encoded(1), of "[99]"]
  by (auto dest: spec [of _ 6])

lemma connection_reads_sent_frames_witness:
  "read_frames 3 demo_bincode
     (map ReadBytes [[1, 0, 0], [0, 2, 7, 7, 2], [0, 0, 0, 1, 8]] @ [ReadBytes []]) [] =
     ([FrameRequest 7 ReqListPtys, FrameResponse 7 RespOk], Some Eof)"
  by (rule connection_reads_sent_frames [OF demo_bincode_ok,
        of _ "[[1, 0, 0, 0, 2, 7, 7], [2, 0, 0, 0, 1, 8]]"])
    (simp_all add: demo_encoded)

section \<open>The proofs bind direction, token and nonces\<close>

lemma or_zero: "(x :: u8) OR y = 0 \<longleftrightarrow> x = 0 \<and> y = 0"
  by (auto simp: bit_eq_iff bit_or_iff)

lemma xor_zero: "(x :: u8) XOR y = 0 \<longleftrightarrow> x = y"
  by (auto simp: bit_eq_iff bit_xor_iff)

lemma proofs_match_acc:
  "length a = length b \<Longrightarrow>
   (foldl (\<lambda>acc (x, y). acc OR (x XOR y)) (acc :: u8) (zip a b) = 0) = (acc = 0 \<and> a = b)"
  by (induction a b arbitrary: acc rule: list_induct2) (auto simp: or_zero xor_zero)

lemma proofs_match_eq: "length a = length b \<Longrightarrow> proofs_match a b \<longleftrightarrow> a = b"
  by (simp add: proofs_match_def proofs_match_acc)

lemma domains: "length CLIENT_DOMAIN = 22" "length SERVER_DOMAIN = 22" "CLIENT_DOMAIN \<noteq> SERVER_DOMAIN"
  by (simp_all add: CLIENT_DOMAIN_def SERVER_DOMAIN_def)

definition collides :: "hmac \<Rightarrow> bytes \<times> bytes \<Rightarrow> bytes \<times> bytes \<Rightarrow> bool" where
  "collides hm a b \<longleftrightarrow> a \<noteq> b \<and> hm (fst a) (snd a) = hm (fst b) (snd b)"

text \<open>A proof made in one direction, for one token and one pair of nonces, passes for no other:
  wherever the constant-time comparison accepts one for the other, the two different inputs
  of the MAC have collided.\<close>

theorem proofs_do_not_transfer:
  assumes len: "\<And>k m. length (hm k m) = 32"
    and n: "length sn = 32" "length cn = 32" "length sn' = 32" "length cn' = 32"
  shows "(proofs_match (client_proof hm t sn cn) (server_proof hm t' sn' cn') \<longrightarrow>
       collides hm (t, CLIENT_DOMAIN @ sn @ cn) (t', SERVER_DOMAIN @ sn' @ cn')) \<and>
    (proofs_match (client_proof hm t sn cn) (client_proof hm t' sn' cn') \<longrightarrow>
       (t, sn, cn) = (t', sn', cn') \<or>
       collides hm (t, CLIENT_DOMAIN @ sn @ cn) (t', CLIENT_DOMAIN @ sn' @ cn')) \<and>
    proofs_match (client_proof hm t sn cn) (client_proof hm t sn cn)"
proof -
  have m: "proofs_match (hm k m) (hm k' m') \<longleftrightarrow> hm k m = hm k' m'" for k m k' m'
    by (simp add: proofs_match_eq len)
  have "CLIENT_DOMAIN @ sn @ cn \<noteq> SERVER_DOMAIN @ sn' @ cn'"
    using domains by (auto simp: append_eq_append_conv)
  moreover have "CLIENT_DOMAIN @ sn @ cn = CLIENT_DOMAIN @ sn' @ cn' \<longleftrightarrow> sn = sn' \<and> cn = cn'"
    using n by auto
  ultimately show ?thesis
    by (simp add: client_proof_def server_proof_def proof_of_def m collides_def)
qed

lemma proofs_do_not_transfer_witness:
  "collides (\<lambda>k m. replicate 32 0) ([1], CLIENT_DOMAIN @ replicate 32 1 @ replicate 32 2)
     ([1], SERVER_DOMAIN @ replicate 32 1 @ replicate 32 2)"
  using proofs_do_not_transfer [of "\<lambda>k m. replicate 32 0" "replicate 32 1" "replicate 32 2"
      "replicate 32 1" "replicate 32 2" "[1]" "[1]"]
  by (simp add: client_proof_def server_proof_def proof_of_def)

end
