(* ===== verification/Relay_Server.thy ===== *)
theory Relay_Server
  imports Relay_Registry Relay_Frame
begin

text \<open>
  One client connection of the relay daemon (\<open>crates/relay/src/server.rs\<close>): the handshake,
  the dispatch of requests to the registry, the attachments the connection owns and their
  release when it ends, and the idle timer of the daemon.
\<close>

section \<open>Handshake\<close>

definition nat_string :: "nat \<Rightarrow> string" where
  "nat_string n = map (\<lambda>d. char_of (48 + d)) (dec_digits n)"

definition err_response :: "u64 \<Rightarrow> err_code \<Rightarrow> string \<Rightarrow> frame" where
  "err_response request_id code message = FrameResponse request_id (RespErr code message)"

datatype session_end_reason = CodecFailed codec_error | Bail string

text \<open>
  The handshake of \<open>session_loop\<close>: what \<open>read_frame\<close> returned for the first two frames,
  whether the two writes that matter succeeded, and the random nonce are arguments.
  The result is what was sent and why the session ended, if it did.
\<close>

definition handshake ::
  "hmac \<Rightarrow> bytes \<Rightarrow> string \<Rightarrow> nonce \<Rightarrow> (codec_error + frame) \<Rightarrow> codec_error option \<Rightarrow>
   (codec_error + frame) \<Rightarrow> codec_error option \<Rightarrow> frame list \<times> session_end_reason option" where
  "handshake hm token session_id server_nonce first_frame w1 second_frame w2 =
     (case first_frame of
        Inl e \<Rightarrow> ([], Some (CodecFailed e))
      | Inr (FrameRequest request_id (ReqHello h)) \<Rightarrow>
          (if h_protocol_version h \<noteq> PROTOCOL_VERSION then
             ([err_response request_id VersionMismatch
                 (''server protocol '' @ nat_string (unat PROTOCOL_VERSION) @ '', client '' @
                  nat_string (unat (h_protocol_version h)))],
              Some (Bail ''version mismatch''))
           else
             let challenge = FrameResponse request_id (RespHelloChallenge
                   \<lparr>hc_server_protocol_version = PROTOCOL_VERSION,
                    hc_server_nonce = server_nonce,
                    hc_server_proof = server_proof hm token server_nonce (h_client_nonce h)\<rparr>)
             in
             (case w1 of
                Some e \<Rightarrow> ([challenge], Some (CodecFailed e))
              | None \<Rightarrow>
                  (case second_frame of
                     Inl e \<Rightarrow> ([challenge], Some (CodecFailed e))
                   | Inr (FrameRequest proof_request_id (ReqHelloProof pf)) \<Rightarrow>
                       (if \<not> proofs_match pf (client_proof hm token server_nonce (h_client_nonce h))
                        then ([challenge, err_response proof_request_id AuthFailed ''bad token''],
                              Some (Bail ''bad token''))
                        else
                          ([challenge, FrameResponse proof_request_id (RespHelloAck
                              \<lparr>ha_server_protocol_version = PROTOCOL_VERSION,
                               ha_session_id = session_id\<rparr>)],
                           map_option CodecFailed w2))
                   | Inr _ \<Rightarrow>
                       ([challenge], Some (Bail ''client did not answer the challenge with HelloProof'')))))
      | Inr (FrameRequest request_id _) \<Rightarrow>
          ([err_response request_id AuthFailed ''expected Hello first''],
           Some (Bail ''first request from client was not Hello''))
      | Inr _ \<Rightarrow> ([], Some (Bail ''first frame from client was not a request'')))"

section \<open>Requests\<close>

fun registry_err_code :: "registry_error \<Rightarrow> err_code" where
  "registry_err_code (NotFound _) = PtyNotFound"
| "registry_err_code _ = EInternal"

text \<open>What the system answers while one request is handled.\<close>

record outcome =
  o_spawned :: "(string \<times> u32 option) option"
  o_now :: nat
  o_accepted :: bool
  o_resized :: bool
  o_detail :: string

datatype server_action = TerminateAllThenStop | NotifyShutdown

fun error_message :: "string \<Rightarrow> registry_error \<Rightarrow> string" where
  "error_message detail (NotFound p) = ''pty not found: '' @ p"
| "error_message detail _ = ''internal: '' @ detail"

definition err_from :: "outcome \<Rightarrow> registry_error \<Rightarrow> response" where
  "err_from o1 e = RespErr (registry_err_code e) (error_message (o_detail o1) e)"

text \<open>A failed call, a panic being no answer at all.\<close>

definition failed :: "outcome \<Rightarrow> registry_error \<Rightarrow> registry \<Rightarrow> 'c \<Rightarrow>
    (response \<times> server_action list \<times> registry \<times> 'c) option" where
  "failed o1 e reg c = (if e = Panicked then None else Some (err_from o1 e, [], reg, c))"

definition unit_response :: "outcome \<Rightarrow> registry_error + unit \<Rightarrow> response" where
  "unit_response o1 r = (case r of Inl e \<Rightarrow> err_from o1 e | Inr _ \<Rightarrow> RespOk)"

text \<open>\<open>handle_request\<close>; \<open>None\<close> is its \<open>unreachable!\<close>.\<close>

definition handle_request ::
  "'c try_send \<Rightarrow> nat \<Rightarrow> outcome \<Rightarrow> request \<Rightarrow> registry \<Rightarrow> 'c \<Rightarrow>
   (response \<times> server_action list \<times> registry \<times> 'c) option" where
  "handle_request ts tx o1 rq reg c =
     (case rq of
        ReqHello _ \<Rightarrow> Some (RespErr AuthFailed ''Hello already completed'', [], reg, c)
      | ReqHelloProof _ \<Rightarrow> Some (RespErr AuthFailed ''Hello already completed'', [], reg, c)
      | ReqSpawn args \<Rightarrow>
          (case spawn args (o_spawned o1) (o_now o1) reg of
             (Inl e, reg') \<Rightarrow> failed o1 e reg' c
           | (Inr pty_id, reg') \<Rightarrow>
               (case attach ts pty_id tx (o_now o1) reg' c of
                  (Inr (_, _, _, aid), reg'', c') \<Rightarrow> Some (SpawnOk pty_id aid, [], reg'', c')
                | (Inl e, reg'', c') \<Rightarrow>
                    (if e = Panicked then None else Some (SpawnOk pty_id 0, [], reg'', c'))))
      | ReqReplay pty_id \<Rightarrow>
          (case replay_op ts pty_id tx (o_now o1) reg c of
             (Inl e, reg', c') \<Rightarrow> failed o1 e reg' c'
           | (Inr (bs, cols, rows), reg', c') \<Rightarrow> Some (ReplayOk bs cols rows, [], reg', c'))
      | ReqAttach pty_id \<Rightarrow>
          (case attach ts pty_id tx (o_now o1) reg c of
             (Inl e, reg', c') \<Rightarrow> failed o1 e reg' c'
           | (Inr (bs, cols, rows, aid), reg', c') \<Rightarrow> Some (AttachOk bs cols rows aid, [], reg', c'))
      | ReqWrite pty_id bs \<Rightarrow>
          (case write_op pty_id bs (o_accepted o1) reg of
             (r, reg') \<Rightarrow> Some (unit_response o1 r, [], reg', c))
      | ReqResize pty_id aid cols rows \<Rightarrow>
          (case resize pty_id aid cols rows (o_resized o1) reg of
             (r, reg') \<Rightarrow> Some (unit_response o1 r, [], reg', c))
      | ReqDetach pty_id aid \<Rightarrow>
          (case detach pty_id aid (o_resized o1) reg of
             (r, reg') \<Rightarrow> Some (unit_response o1 r, [], reg', c))
      | ReqClose _ _ \<Rightarrow> None
      | ReqNotify pty_id title body \<Rightarrow>
          (case notify_op ts pty_id title body reg c of
             (r, reg', c') \<Rightarrow> Some (unit_response o1 r, [], reg', c'))
      | ReqAgentStatus pty_id payload \<Rightarrow>
          (case agent_status ts pty_id payload reg c of
             (r, reg', c') \<Rightarrow> Some (unit_response o1 r, [], reg', c'))
      | ReqListPtys \<Rightarrow> Some (PtyList (list_ptys reg), [], reg, c)
      | ReqStats \<Rightarrow> Some (StatsOk (stats (o_now o1) reg), [], reg, c)
      | ReqShutdown True \<Rightarrow> Some (RespOk, [TerminateAllThenStop], mark_restarting reg, c)
      | ReqShutdown False \<Rightarrow>
          (case stop_if_idle reg of
             (True, reg') \<Rightarrow> Some (RespOk, [NotifyShutdown], reg', c)
           | (False, reg') \<Rightarrow>
               Some (RespErr EInternal ''live PTYs present; refusing shutdown'', [], reg', c)))"

text \<open>
  \<open>answer_close\<close>: the reply comes at once, or when the task that finishes the close (or
  waits for the close already running) is done.
\<close>

datatype reply = ReplyNow frame | ReplyWhenClosed u64 entry | ReplyWhenOtherCloses u64 string

definition answer_close :: "outcome \<Rightarrow> u64 \<Rightarrow> string \<Rightarrow> registry \<Rightarrow> reply \<times> registry" where
  "answer_close o1 request_id pty_id reg =
     (case begin_close pty_id reg of
        (Inr e, reg') \<Rightarrow> (ReplyWhenClosed request_id e, reg')
      | (Inl (NotFound p), reg') \<Rightarrow>
          (if is_closing pty_id reg' then (ReplyWhenOtherCloses request_id pty_id, reg')
           else (ReplyNow (FrameResponse request_id (err_from o1 (NotFound p))), reg'))
      | (Inl e, reg') \<Rightarrow> (ReplyNow (FrameResponse request_id (err_from o1 e)), reg'))"

section \<open>The dispatch loop\<close>

type_synonym owned = "(string \<times> u64) list"

text \<open>
  One turn of \<open>dispatch_loop\<close> on a frame that arrived: the replies it causes, the server
  actions it starts, and the new state.  \<open>None\<close> is a panic.
\<close>

definition dispatch ::
  "'c try_send \<Rightarrow> nat \<Rightarrow> outcome \<Rightarrow> frame \<Rightarrow> owned \<Rightarrow> registry \<Rightarrow> 'c \<Rightarrow>
   (reply list \<times> server_action list \<times> owned \<times> registry \<times> 'c) option" where
  "dispatch ts tx o1 f owned reg c =
     (case f of
        FrameRequest request_id rq \<Rightarrow>
          (let attach_pty = (case rq of ReqAttach p \<Rightarrow> Some p | _ \<Rightarrow> None);
               detached = (case rq of ReqDetach p aid \<Rightarrow> Some (p, aid) | _ \<Rightarrow> None)
           in
           case rq of
             ReqClose pty_id grace_ms \<Rightarrow>
               (case answer_close o1 request_id pty_id reg of
                  (rep, reg') \<Rightarrow> Some ([rep], [], owned, reg', c))
           | _ \<Rightarrow>
               (case handle_request ts tx o1 rq reg c of
                  None \<Rightarrow> None
                | Some (resp, acts, reg', c') \<Rightarrow>
                    let owned1 =
                          (case resp of
                             SpawnOk p aid \<Rightarrow> owned @ [(p, aid)]
                           | AttachOk _ _ _ aid \<Rightarrow>
                               (case attach_pty of Some p \<Rightarrow> owned @ [(p, aid)] | None \<Rightarrow> owned)
                           | _ \<Rightarrow> owned);
                        owned2 =
                          (case detached of
                             Some key \<Rightarrow> filter (\<lambda>pair. pair \<noteq> key) owned1
                           | None \<Rightarrow> owned1)
                    in Some ([ReplyNow (FrameResponse request_id resp)], acts, owned2, reg', c')))
      | _ \<Rightarrow> Some ([], [], owned, reg, c))"

text \<open>The release at the end; \<open>rz\<close> is what each resize system call returned.\<close>

fun release :: "owned \<Rightarrow> bool list \<Rightarrow> registry \<Rightarrow> registry" where
  "release [] rz reg = reg"
| "release ((p, aid) # owned) rz reg =
     (case rz of
        [] \<Rightarrow> release owned [] (snd (detach p aid True reg))
      | b # rz' \<Rightarrow> release owned rz' (snd (detach p aid b reg)))"

section \<open>Idle shutdown\<close>

text \<open>
  \<open>spawn_idle_gc\<close>: after each tick, what the counters read; the result is the tick at
  which the daemon is told to stop.
\<close>

fun idle_gc :: "nat \<Rightarrow> nat \<Rightarrow> nat \<Rightarrow> (nat \<times> nat) list \<Rightarrow> nat option" where
  "idle_gc tick timeout idle_for [] = None"
| "idle_gc tick timeout idle_for ((live, sessions) # rest) =
     (if live = 0 \<and> sessions = 0 then
        (if timeout \<le> idle_for + tick then Some 0
         else map_option Suc (idle_gc tick timeout (idle_for + tick) rest))
      else map_option Suc (idle_gc tick timeout 0 rest))"

section \<open>Who gets in\<close>

text \<open>A connection is served exactly when its first frame is a hello of this protocol version
  and its second carries the MAC of the nonces under the token, and both answers were
  written; every other exchange ends the session.\<close>

theorem handshake_requires_token:
  assumes len: "\<And>k m. length (hm k m) = 32"
    and pf: "\<And>j pf. f2 = Inr (FrameRequest j (ReqHelloProof pf)) \<Longrightarrow> length pf = 32"
  shows "snd (handshake hm token sid nonce f1 w1 f2 w2) = None \<longleftrightarrow>
    (\<exists>i h j. f1 = Inr (FrameRequest i (ReqHello h)) \<and> h_protocol_version h = PROTOCOL_VERSION \<and>
       w1 = None \<and>
       f2 = Inr (FrameRequest j (ReqHelloProof (client_proof hm token nonce (h_client_nonce h)))) \<and>
       w2 = None)"
proof -
  have m: "f2 = Inr (FrameRequest j (ReqHelloProof p)) \<Longrightarrow>
      proofs_match p (client_proof hm token nonce cn) \<longleftrightarrow> p = client_proof hm token nonce cn" for j p cn
    using pf [of j p] len by (simp add: proofs_match_eq client_proof_def proof_of_def)
  show ?thesis
  proof (cases "\<exists>i h. f1 = Inr (FrameRequest i (ReqHello h))")
    case True
    then obtain i h where f1: "f1 = Inr (FrameRequest i (ReqHello h))" by blast
    show ?thesis
    proof (cases "\<exists>j p. f2 = Inr (FrameRequest j (ReqHelloProof p))")
      case True
      then obtain j p where f2: "f2 = Inr (FrameRequest j (ReqHelloProof p))" by blast
      show ?thesis using m [OF f2] unfolding f1 f2
        by (cases w1) (auto simp: handshake_def Let_def)
    next
      case False
      then show ?thesis unfolding f1
        by (auto simp: handshake_def Let_def split: option.split sum.split frame.split request.split)
    qed
  next
    case False
    then show ?thesis
      by (auto simp: handshake_def split: sum.split frame.split request.split)
  qed
qed

fun reply_id :: "reply \<Rightarrow> u64" where
  "reply_id (ReplyNow (FrameResponse i _)) = i"
| "reply_id (ReplyNow _) = 0"
| "reply_id (ReplyWhenClosed i _) = i"
| "reply_id (ReplyWhenOtherCloses i _) = i"

lemma handle_request_total:
  assumes reach: "reg_reachable ts reg" and rq: "\<And>p g. rq \<noteq> ReqClose p g"
    and fits: "\<And>args. rq = ReqSpawn args \<Longrightarrow> length (sp_prefill args) < 2 ^ 64"
  shows "handle_request ts tx o1 rq reg c \<noteq> None"
proof (cases rq)
  case (ReqSpawn args)
  obtain r reg1 where sp: "spawn args (o_spawned o1) (o_now o1) reg = (r, reg1)" by fastforce
  from spawn_inv [OF reachable_inv [OF reach] sp fits [OF ReqSpawn]] have np: "r \<noteq> Inl Panicked" by simp
  have r1: "reg_reachable ts reg1"
    by (rule reg_reachable.step [OF reach reg_step.spawned [OF sp fits [OF ReqSpawn]]])
  have "attach ts p tx (o_now o1) reg1 c \<noteq> (Inl Panicked, y)" for p y
    using attach_no_panic [OF r1, of p tx "o_now o1" c] by auto
  then show ?thesis using sp np ReqSpawn
    by (auto simp: handle_request_def failed_def split: sum.split prod.split)
next
  case (ReqAttach p)
  have "attach ts p tx (o_now o1) reg c \<noteq> (Inl Panicked, y)" for y
    using attach_no_panic [OF reach, of p tx "o_now o1" c] by auto
  then show ?thesis using ReqAttach
    by (auto simp: handle_request_def failed_def split: sum.split prod.split)
next
  case (ReqReplay p)
  have "replay_op ts p tx (o_now o1) reg c \<noteq> (Inl Panicked, y)" for y
    using replay_op_no_panic [OF reach, of p tx "o_now o1" c] by auto
  then show ?thesis using ReqReplay
    by (auto simp: handle_request_def failed_def split: sum.split prod.split)
next
  case (ReqShutdown k)
  then show ?thesis by (cases k) (auto simp: handle_request_def split: prod.split bool.split)
qed (use rq in \<open>auto simp: handle_request_def split: prod.split\<close>)

lemma request_answered:
  assumes reach: "reg_reachable ts reg"
    and fits: "\<And>args. rq = ReqSpawn args \<Longrightarrow> length (sp_prefill args) < 2 ^ 64"
  shows "\<exists>rep rest. dispatch ts tx o1 (FrameRequest i rq) owned reg c = Some ([rep], rest) \<and>
    reply_id rep = i"
proof (cases "\<exists>p g. rq = ReqClose p g")
  case True
  then show ?thesis
    by (auto simp: dispatch_def answer_close_def split: sum.split prod.split registry_error.split)
next
  case False
  then have "handle_request ts tx o1 rq reg c \<noteq> None"
    using handle_request_total [OF reach _ fits] by blast
  with False show ?thesis by (cases rq) (auto simp: dispatch_def Let_def)
qed

text \<open>C38: Whatever a client asks of a running daemon, the dispatch loop survives it and the request
  gets exactly one reply, carrying its own id.\<close>

theorem every_request_answered_once:
  assumes reach: "reg_reachable ts reg"
    and fits: "\<And>args. rq = ReqSpawn args \<Longrightarrow> length (sp_prefill args) < 2 ^ 64"
  shows "\<exists>rep rest. dispatch ts tx o1 (FrameRequest i rq) owned reg c = Some ([rep], rest) \<and>
    reply_id rep = i"
  using assms by (rule request_answered)

section \<open>What a connection leaves behind\<close>

definition subscribed :: "registry \<Rightarrow> string \<Rightarrow> u64 \<Rightarrow> bool" where
  "subscribed reg p i \<longleftrightarrow>
     (case map_of (r_entries reg) p of
        None \<Rightarrow> False | Some e \<Rightarrow> i \<in> sub_attachment_id ` set (e_subscribers e))"

definition voting :: "registry \<Rightarrow> string \<Rightarrow> u64 \<Rightarrow> bool" where
  "voting reg p i \<longleftrightarrow>
     (case map_of (r_entries reg) p of None \<Rightarrow> False | Some e \<Rightarrow> i \<in> fst ` set (e_attachments e))"

lemma subscribed_put [simp]:
  "subscribed (put_entry q e reg) p i =
     (if p = q then i \<in> sub_attachment_id ` set (e_subscribers e) else subscribed reg p i)"
  by (simp add: subscribed_def put_entry_def update_conv')

lemma subscribed_cong: "r_entries reg' = r_entries reg \<Longrightarrow> subscribed reg' p i = subscribed reg p i"
  by (simp add: subscribed_def)

lemma subscribed_lookup:
  "map_of (r_entries reg) p = Some e \<Longrightarrow>
   subscribed reg p i = (i \<in> sub_attachment_id ` set (e_subscribers e))"
  by (simp add: subscribed_def)

lemma next_put [simp]: "r_next_attachment_id (put_entry p e reg) = r_next_attachment_id reg"
  by (simp add: put_entry_def)

text \<open>Nobody is ever subscribed under an id that was handed out before and given up.\<close>

definition gone :: "string \<Rightarrow> u64 \<Rightarrow> registry \<Rightarrow> bool" where
  "gone p i reg \<longleftrightarrow> i < r_next_attachment_id reg \<and> \<not> subscribed reg p i"

lemma apply_size_subs: "apply_effective_size b e = (r, e') \<Longrightarrow> e_subscribers e' = e_subscribers e"
  by (auto simp: apply_effective_size_def Let_def split: if_splits)

lemma gone_put:
  assumes "gone p i reg" and "map_of (r_entries reg) q = Some e"
    and "sub_attachment_id ` set (e_subscribers e') \<subseteq> sub_attachment_id ` set (e_subscribers e)"
  shows "gone p i (put_entry q e' reg)"
  using assms by (auto simp: gone_def subscribed_lookup)

lemma gone_fan_out:
  assumes "gone p i reg" and "map_of (r_entries reg) q = Some e"
    and "fan_out ts n (e_subscribers e) c = (ss, c')" and "e_subscribers e' = ss"
  shows "gone p i (put_entry q e' reg)"
  using fan_out_ids [OF assms(3)] assms(4) by (intro gone_put [OF assms(1,2)]) simp

lemma gone_attach:
  assumes g: "gone p i reg" and at: "attach ts q tx now reg c = (res, reg', c')"
    and n: "r_next_attachment_id reg \<noteq> - 1"
  shows "gone p i reg'"
proof (cases "map_of (r_entries reg) q")
  case None
  with g at show ?thesis by (simp add: attach_def)
next
  case (Some e)
  let ?n = "r_next_attachment_id reg"
  let ?r = "reg\<lparr>r_next_attachment_id := ?n + 1\<rparr>"
  let ?ss = "e_subscribers e @ [\<lparr>sub_attachment_id = ?n, sub_tx = tx, sub_gapped = False\<rparr>]"
  have g1: "gone p i ?r" "i \<noteq> ?n"
    using g less_succ_word [OF n] by (auto simp: gone_def subscribed_def)
  have "reg' = reg \<or> (\<exists>e'. reg' = put_entry q e' ?r \<and> e_subscribers e' = ?ss)"
    using at Some by (auto simp: attach_def Let_def split: option.splits if_splits)
  then show ?thesis
  proof
    assume "\<exists>e'. reg' = put_entry q e' ?r \<and> e_subscribers e' = ?ss"
    then obtain e' where "reg' = put_entry q e' ?r" "e_subscribers e' = ?ss" by blast
    with g1 subscribed_lookup [of ?r q e i] Some show ?thesis
      by (cases "p = q") (simp_all add: gone_def)
  qed (simp add: g)
qed

lemma gone_detach:
  assumes g: "gone p i reg" and dt: "detach q j b reg = (res, reg')"
  shows "gone p i reg'"
proof (cases "map_of (r_entries reg) q")
  case None
  with g dt show ?thesis by (simp add: detach_def)
next
  case (Some e)
  obtain r ea where a: "apply_effective_size b (e\<lparr>e_attachments := AList.delete j (e_attachments e),
      e_subscribers := filter (\<lambda>s. sub_attachment_id s \<noteq> j) (e_subscribers e)\<rparr>) = (r, ea)" by fastforce
  obtain e' where "reg' = put_entry q e' reg"
      "e_subscribers e' = filter (\<lambda>s. sub_attachment_id s \<noteq> j) (e_subscribers e)"
    using dt Some a apply_size_subs [OF a] by (auto simp: detach_def Let_def split: if_splits)
  then show ?thesis using gone_put [OF g Some, of e'] by auto
qed

lemma gone_step:
  "reg_step ts reg reg' \<Longrightarrow> gone p i reg \<Longrightarrow> gone p i reg'"
proof (induction rule: reg_step.induct)
  case (spawned args os now reg res reg')
  then show ?case
    by (auto simp: spawn_def gone_def split: if_splits option.splits prod.splits)
next
  case (attached q tx now reg c res reg' c')
  then show ?case by (blast intro: gone_attach)
next
  case (replayed q t now reg c res reg' c')
  then show ?case
  proof (cases "map_of (r_entries reg) q")
    case (Some e)
    obtain ss c1 where f: "fence_subscribers ts q t (e_subscribers e) c = (ss, c1)" by fastforce
    have "sub_attachment_id ` set ss = sub_attachment_id ` set (e_subscribers e)"
      using fence_ids [OF f] by (metis set_map)
    moreover have "reg' = reg \<or> (\<exists>e'. reg' = put_entry q e' reg \<and> e_subscribers e' = ss)"
      using replayed Some f by (auto simp: replay_op_def Let_def split: option.splits if_splits)
    ultimately show ?thesis using replayed gone_put [OF _ Some] by auto
  qed (simp add: replay_op_def)
next
  case (resized q j cols rows reg res reg')
  then show ?case
    by (auto simp: resize_def split: option.splits prod.splits dest!: apply_size_subs intro!: gone_put)
next
  case (detached q j reg res reg')
  then show ?case by (blast intro: gone_detach)
next
  case (closing q reg res reg')
  then show ?case
    by (auto simp: begin_close_def gone_def subscribed_def delete_conv'
        split: option.splits if_splits)
next
  case (ended q reg e code by_restart c e' acts c')
  then show ?case
    by (auto simp: session_end_def Let_def split: if_splits prod.splits
        intro: gone_fan_out gone_put)
next
  case (checkpointed q reg e wr en e' acts)
  then show ?case
    by (auto simp: checkpoint_entry_def Let_def split: if_splits option.splits intro!: gone_put)
next
  case (published q reg e bs c e' c')
  then show ?case
    by (auto simp: publish_def split: option.splits prod.splits intro: gone_fan_out)
next
  case (notified q title body reg c res reg' c')
  then show ?case
    by (auto simp: notify_op_def split: option.splits prod.splits intro: gone_fan_out)
next
  case (reported q payload reg c res reg' c')
  then show ?case
    by (auto simp: agent_status_def Let_def split: option.splits prod.splits intro: gone_fan_out)
next
  case (written q bs ok reg res reg')
  then show ?case by (auto simp: write_op_def split: option.splits if_splits intro!: gone_put)
next
  case (closed reg' e reg)
  then show ?case by (simp add: drop_closing_def gone_def subscribed_def)
next
  case (restarting reg' reg)
  then show ?case by (simp add: mark_restarting_def gone_def subscribed_def)
next
  case (stopping reg b reg')
  then show ?case by (auto simp: stop_if_idle_def gone_def subscribed_def split: if_splits)
qed

definition granted :: "frame \<Rightarrow> reply list \<Rightarrow> (string \<times> u64) list" where
  "granted f reps =
     (case reps of
        [ReplyNow (FrameResponse _ (SpawnOk p aid))] \<Rightarrow> [(p, aid)]
      | [ReplyNow (FrameResponse _ (AttachOk _ _ _ aid))] \<Rightarrow>
          (case f of FrameRequest _ (ReqAttach p) \<Rightarrow> [(p, aid)] | _ \<Rightarrow> [])
      | _ \<Rightarrow> [])"

text \<open>
  A connection while the daemon runs: between its requests anything else may happen to
  the registry.  \<open>handed\<close> collects the attachments its replies told the client of.
\<close>

inductive conn_run :: "'c try_send \<Rightarrow> nat \<Rightarrow> registry \<Rightarrow> owned \<Rightarrow> owned \<Rightarrow> bool" for ts tx where
  opened: "reg_reachable ts reg \<Longrightarrow> conn_run ts tx reg [] []"
| other: "conn_run ts tx reg owned handed \<Longrightarrow> reg_step ts reg reg' \<Longrightarrow> conn_run ts tx reg' owned handed"
| own: "conn_run ts tx reg owned handed \<Longrightarrow>
    dispatch ts tx o1 f owned reg c = Some (reps, acts, owned', reg', c') \<Longrightarrow>
    o_resized o1 \<Longrightarrow> r_next_attachment_id reg \<noteq> - 1 \<Longrightarrow>
    (\<forall>i args. f = FrameRequest i (ReqSpawn args) \<longrightarrow> length (sp_prefill args) < 2 ^ 64) \<Longrightarrow>
    conn_run ts tx reg' owned' (handed @ granted f reps)"

lemma spawn_next: "spawn args os now reg = (res, reg') \<Longrightarrow>
    r_next_attachment_id reg' = r_next_attachment_id reg"
  by (auto simp: spawn_def split: if_splits option.splits prod.splits)

lemma handle_request_steps:
  assumes h: "handle_request ts tx o1 rq reg c = Some (resp, acts, reg', c')"
    and o1: "o_resized o1" and n: "r_next_attachment_id reg \<noteq> - 1"
    and fits: "\<And>args. rq = ReqSpawn args \<Longrightarrow> length (sp_prefill args) < 2 ^ 64"
  shows "(reg_step ts)\<^sup>*\<^sup>* reg reg'"
proof (cases rq)
  case (ReqSpawn args)
  obtain r reg1 where sp: "spawn args (o_spawned o1) (o_now o1) reg = (r, reg1)" by fastforce
  note s1 = reg_step.spawned [OF sp fits [OF ReqSpawn]]
  show ?thesis
  proof (cases r)
    case (Inl e)
    with h sp ReqSpawn s1 show ?thesis
      by (auto simp: handle_request_def failed_def split: if_splits)
  next
    case (Inr p)
    obtain r2 reg2 c2 where at: "attach ts p tx (o_now o1) reg1 c = (r2, reg2, c2)"
      by (metis prod_cases3)
    from spawn_next [OF sp] n have "reg_step ts reg1 reg2" by (intro reg_step.attached [OF at]) simp
    with h sp ReqSpawn Inr at s1 show ?thesis
      by (auto simp: handle_request_def split: sum.splits if_splits intro: rtranclp.intros)
  qed
next
  case (ReqShutdown k)
  then show ?thesis using h
    by (cases k) (auto simp: handle_request_def split: prod.splits bool.splits
        intro: reg_step.restarting reg_step.stopping)
qed (use h o1 n in \<open>auto simp: handle_request_def failed_def split: prod.splits sum.splits if_splits
      intro: reg_step.intros\<close>)

lemma answer_close_step:
  "answer_close o1 i p reg = (rep, reg') \<Longrightarrow> reg_step ts reg reg'"
  by (auto simp: answer_close_def split: prod.splits sum.splits registry_error.splits if_splits
      intro: reg_step.closing)

lemma dispatch_request:
  "\<forall>p g. rq \<noteq> ReqClose p g \<Longrightarrow>
   dispatch ts tx o1 (FrameRequest i rq) owned reg c = Some (reps, acts, owned', reg', c') \<Longrightarrow>
   \<exists>resp. handle_request ts tx o1 rq reg c = Some (resp, acts, reg', c') \<and>
     reps = [ReplyNow (FrameResponse i resp)] \<and>
     owned' =
       (let owned1 = owned @ granted (FrameRequest i rq) reps in
        case rq of ReqDetach p aid \<Rightarrow> filter (\<lambda>pair. pair \<noteq> (p, aid)) owned1 | _ \<Rightarrow> owned1)"
  by (cases rq)
    (auto simp: dispatch_def Let_def granted_def split: option.splits response.splits)

lemma dispatch_steps:
  assumes d: "dispatch ts tx o1 f owned reg c = Some (reps, acts, owned', reg', c')"
    and o1: "o_resized o1" and n: "r_next_attachment_id reg \<noteq> - 1"
    and fits: "\<forall>i args. f = FrameRequest i (ReqSpawn args) \<longrightarrow> length (sp_prefill args) < 2 ^ 64"
  shows "(reg_step ts)\<^sup>*\<^sup>* reg reg'"
proof (cases f)
  case (FrameRequest i rq)
  show ?thesis
  proof (cases "\<exists>p g. rq = ReqClose p g")
    case True
    with d FrameRequest obtain p rep where "answer_close o1 i p reg = (rep, reg')"
      by (auto simp: dispatch_def split: prod.splits)
    then have "reg_step ts reg reg'" by (rule answer_close_step)
    then show ?thesis by blast
  next
    case False
    then have nc: "\<forall>p g. rq \<noteq> ReqClose p g" by blast
    from dispatch_request [OF nc d [unfolded FrameRequest]] obtain resp where
      "handle_request ts tx o1 rq reg c = Some (resp, acts, reg', c')" by blast
    from handle_request_steps [OF this o1 n] fits FrameRequest show ?thesis by simp
  qed
qed (use d in \<open>auto simp: dispatch_def\<close>)

lemma reachable_steps: "(reg_step ts)\<^sup>*\<^sup>* reg reg' \<Longrightarrow> reg_reachable ts reg \<Longrightarrow> reg_reachable ts reg'"
  by (induction rule: rtranclp_induct) (auto intro: reg_reachable.step)

lemma gone_steps: "(reg_step ts)\<^sup>*\<^sup>* reg reg' \<Longrightarrow> gone p i reg \<Longrightarrow> gone p i reg'"
  by (induction rule: rtranclp_induct) (auto intro: gone_step)

lemma next_step: "reg_step ts reg reg' \<Longrightarrow> r_next_attachment_id reg \<le> r_next_attachment_id reg'"
proof (induction rule: reg_step.induct)
  case (attached q tx now reg c res reg' c')
  then show ?case using less_succ_word [of "r_next_attachment_id reg"]
    by (auto simp: attach_def Let_def less_imp_le split: option.splits)
next
  case (spawned args os now reg res reg')
  then show ?case by (simp add: spawn_next)
qed (auto simp: replay_op_def write_op_def notify_op_def agent_status_def resize_def detach_def
    begin_close_def drop_closing_def mark_restarting_def stop_if_idle_def Let_def
    split: option.splits prod.splits if_splits)

lemma next_steps: "(reg_step ts)\<^sup>*\<^sup>* reg reg' \<Longrightarrow> r_next_attachment_id reg \<le> r_next_attachment_id reg'"
  by (induction rule: rtranclp_induct) (auto dest: next_step)

lemma attach_granted:
  "attach ts p tx now reg c = (Inr (bs, w, h, aid), reg', c') \<Longrightarrow> r_next_attachment_id reg \<noteq> - 1 \<Longrightarrow>
   aid < r_next_attachment_id reg'"
  by (auto simp: attach_def Let_def less_succ_word split: option.splits)

lemma spawn_then_attach:
  assumes sp: "spawn args os now reg = (Inr p, reg1)"
  shows "attach ts p tx now reg1 c \<noteq> (Inl (NotFound q), y)" "attach ts p tx now reg1 c \<noteq> (Inl Internal, y)"
proof -
  from sp have "map_of (r_entries reg1) p \<noteq> None"
    by (auto simp: spawn_def put_entry_def update_conv' split: if_splits option.splits prod.splits)
  then show "attach ts p tx now reg1 c \<noteq> (Inl (NotFound q), y)"
    "attach ts p tx now reg1 c \<noteq> (Inl Internal, y)"
    by (auto simp: attach_def Let_def split: option.splits)
qed

lemma failed_not_ok: "failed o1 e reg c \<noteq> Some (SpawnOk p i, x)"
  "unit_response o1 r \<noteq> SpawnOk p i" "unit_response o1 r \<noteq> AttachOk bs w h i"
  by (simp_all add: failed_def err_from_def unit_response_def split: sum.split)

lemma spawn_ok_request:
  assumes "handle_request ts tx o1 rq reg c = Some (SpawnOk p i, acts, reg', c')"
  shows "\<exists>args. rq = ReqSpawn args"
proof (cases rq)
  case (ReqShutdown k)
  with assms show ?thesis by (cases k) (simp_all add: handle_request_def split: prod.splits bool.splits)
qed (use assms in \<open>simp add: handle_request_def failed_not_ok split: prod.splits sum.splits\<close>)+

lemma granted_below:
  assumes h: "handle_request ts tx o1 rq reg c = Some (resp, acts, reg', c')"
    and n: "r_next_attachment_id reg \<noteq> - 1"
    and g: "(p, i) \<in> set (granted (FrameRequest k rq) [ReplyNow (FrameResponse k resp)])"
  shows "i < r_next_attachment_id reg'"
proof (cases rq)
  case (ReqSpawn args)
  from h ReqSpawn g obtain q reg1 where sp: "spawn args (o_spawned o1) (o_now o1) reg = (Inr q, reg1)"
    by (auto simp: handle_request_def failed_def granted_def err_from_def
        split: sum.splits prod.splits if_splits)
  obtain r2 reg2 c2 where at: "attach ts q tx (o_now o1) reg1 c = (r2, reg2, c2)"
    by (metis prod_cases3)
  have n1: "r_next_attachment_id reg1 \<noteq> - 1" using spawn_next [OF sp] n by simp
  show ?thesis
  proof (cases r2)
    case (Inl e)
    with at spawn_then_attach [OF sp, where y = "(reg2, c2)"] have "e = Panicked"
      by (cases e) auto
    with h ReqSpawn sp at Inl show ?thesis by (simp add: handle_request_def)
  next
    case (Inr x)
    with h ReqSpawn sp at g attach_granted [OF _ n1] show ?thesis
      by (cases x) (auto simp: handle_request_def granted_def)
  qed
next
  case (ReqAttach q)
  with h g show ?thesis
    by (auto simp: handle_request_def failed_def granted_def err_from_def
        split: sum.splits prod.splits if_splits intro: attach_granted [OF _ n])
qed (use h g in \<open>auto simp: granted_def split: response.splits dest: spawn_ok_request\<close>)

lemma conn_run_inv:
  "conn_run ts tx reg owned handed \<Longrightarrow>
   reg_reachable ts reg \<and>
   (\<forall>(p, i) \<in> set handed. i < r_next_attachment_id reg \<and> ((p, i) \<in> set owned \<or> gone p i reg))"
proof (induction rule: conn_run.induct)
  case (opened reg)
  then show ?case by simp
next
  case (other reg owned handed reg')
  then show ?case using next_step [OF other.hyps(2)] gone_step [OF other.hyps(2)]
    by (fastforce intro: reg_reachable.step)
next
  case (own reg owned handed o1 f c reps acts owned' reg' c')
  note st = dispatch_steps [OF own.hyps(2-5)]
  have old: "i < r_next_attachment_id reg' \<and> ((p, i) \<in> set owned \<or> gone p i reg')"
    if "(p, i) \<in> set handed" for p i
  proof -
    from own.IH that have "i < r_next_attachment_id reg" "(p, i) \<in> set owned \<or> gone p i reg" by auto
    with next_steps [OF st] gone_steps [OF st, of p i] show ?thesis by auto
  qed
  have rr: "reg_reachable ts reg'" using own.IH reachable_steps [OF st] by blast
  show ?case
  proof (cases "\<exists>k rq. f = FrameRequest k rq \<and> (\<forall>p g. rq \<noteq> ReqClose p g)")
    case False
    then have "owned' = owned \<and> granted f reps = []" using own.hyps(2)
      by (cases f) (auto simp: dispatch_def granted_def answer_close_def err_from_def
          split: prod.splits sum.splits registry_error.splits if_splits)
    with old rr show ?thesis by (auto split: prod.split)
  next
    case True
    then obtain k rq where f: "f = FrameRequest k rq" and nc: "\<forall>p g. rq \<noteq> ReqClose p g" by blast
    from dispatch_request [OF nc own.hyps(2) [unfolded f]] f obtain resp where
      h: "handle_request ts tx o1 rq reg c = Some (resp, acts, reg', c')" and
      reps: "reps = [ReplyNow (FrameResponse k resp)]" and
      ow: "owned' = (let owned1 = owned @ granted f reps in
        case rq of ReqDetach p aid \<Rightarrow> filter (\<lambda>pair. pair \<noteq> (p, aid)) owned1 | _ \<Rightarrow> owned1)" by blast
    have new: "i < r_next_attachment_id reg'" if "(p, i) \<in> set (granted f reps)" for p i
      using granted_below [OF h own.hyps(4)] that f reps by simp
    show ?thesis
    proof (cases "\<exists>p aid. rq = ReqDetach p aid")
      case False
      with ow have "owned' = owned @ granted f reps" by (cases rq) (simp_all add: Let_def)
      with old new rr show ?thesis by (auto split: prod.split)
    next
      case True
      then obtain q aid where rq: "rq = ReqDetach q aid" by blast
      then obtain r where dt: "detach q aid True reg = (r, reg')" using h own.hyps(3)
        by (auto simp: handle_request_def split: prod.splits)
      have resp: "resp = unit_response o1 r" using h rq dt own.hyps(3) by (simp add: handle_request_def)
      have "\<not> subscribed reg' q aid"
        using detach_subscribers [OF _ dt] dt
        by (cases "map_of (r_entries reg) q") (auto simp: subscribed_def detach_def)
      then have g: "aid < r_next_attachment_id reg' \<Longrightarrow> gone q aid reg'" by (simp add: gone_def)
      have "owned' = filter (\<lambda>pair. pair \<noteq> (q, aid)) owned" "granted f reps = []"
        using ow rq reps f resp by (simp_all add: granted_def failed_not_ok Let_def split: response.split)
      with g old rr show ?thesis by (auto split: prod.split)
    qed
  qed
qed

lemma gone_release: "gone p i reg \<Longrightarrow> gone p i (release owned rz reg)"
proof (induction owned rz reg rule: release.induct)
  case (2 q j owned rz reg)
  have "gone p i (snd (detach q j b reg))" for b
    using "2.prems" by (cases "detach q j b reg") (auto intro: gone_detach)
  with "2.IH" show ?case by (cases rz) auto
qed simp

lemma detach_unsubscribes:
  assumes dt: "detach p i b reg = (res, reg')"
  shows "\<not> subscribed reg' p i \<and> \<not> voting reg' p i \<and>
    r_next_attachment_id reg' = r_next_attachment_id reg"
proof (cases "map_of (r_entries reg) p")
  case None
  with dt show ?thesis by (simp add: detach_def subscribed_def voting_def)
next
  case (Some e)
  obtain r ea where a: "apply_effective_size b (e\<lparr>e_attachments := AList.delete i (e_attachments e),
      e_subscribers := filter (\<lambda>s. sub_attachment_id s \<noteq> i) (e_subscribers e)\<rparr>) = (r, ea)" by fastforce
  then have "e_attachments ea = AList.delete i (e_attachments e)"
    by (auto simp: apply_effective_size_def Let_def split: if_splits)
  with apply_size_subs [OF a] dt Some a have "\<exists>e'. reg' = put_entry p e' reg \<and>
      e_attachments e' = AList.delete i (e_attachments e) \<and>
      e_subscribers e' = filter (\<lambda>s. sub_attachment_id s \<noteq> i) (e_subscribers e)"
    by (cases "map_of (e_attachments e) i") (auto simp: detach_def Let_def)
  then show ?thesis
    by (auto simp: voting_def put_entry_def update_conv' subscribed_def AList.delete_eq)
qed

lemma not_voting_detach:
  assumes nv: "\<not> voting reg p i" and dt: "detach q j b reg = (res, reg')"
  shows "\<not> voting reg' p i"
proof (cases "map_of (r_entries reg) q")
  case None
  with nv dt show ?thesis by (simp add: detach_def)
next
  case (Some e)
  obtain r ea where a: "apply_effective_size b (e\<lparr>e_attachments := AList.delete j (e_attachments e),
      e_subscribers := filter (\<lambda>s. sub_attachment_id s \<noteq> j) (e_subscribers e)\<rparr>) = (r, ea)" by fastforce
  then have "e_attachments ea = AList.delete j (e_attachments e)"
    by (auto simp: apply_effective_size_def Let_def split: if_splits)
  with dt Some a have "\<exists>e'. reg' = put_entry q e' reg \<and>
      e_attachments e' = AList.delete j (e_attachments e)"
    by (cases "map_of (e_attachments e) j") (auto simp: detach_def Let_def)
  with nv Some show ?thesis
    by (auto simp: voting_def put_entry_def update_conv' AList.delete_eq split: option.splits if_splits)
qed

lemma release_keeps_out: "\<not> voting reg p i \<Longrightarrow> \<not> voting (release owned rz reg) p i"
proof (induction owned rz reg rule: release.induct)
  case (2 q j owned rz reg)
  have "\<not> voting (snd (detach q j b reg)) p i" for b
    using "2.prems" by (cases "detach q j b reg") (auto dest: not_voting_detach)
  with "2.IH" show ?case by (cases rz) auto
qed simp

lemma release_owned:
  "(p, i) \<in> set owned \<Longrightarrow> i < r_next_attachment_id reg \<Longrightarrow>
   gone p i (release owned rz reg) \<and> \<not> voting (release owned rz reg) p i"
proof (induction owned rz reg rule: release.induct)
  case (2 q j owned rz reg)
  have d: "r_next_attachment_id (snd (detach q j b reg)) = r_next_attachment_id reg"
    "(q, j) = (p, i) \<Longrightarrow> gone p i (snd (detach q j b reg)) \<and> \<not> voting (snd (detach q j b reg)) p i" for b
    using detach_unsubscribes [of q j b reg] "2.prems"(2)
    by (cases "detach q j b reg"; auto simp: gone_def)+
  show ?case
  proof (cases "(q, j) = (p, i)")
    case True
    with d(2) show ?thesis by (cases rz) (simp_all add: gone_release release_keeps_out)
  next
    case False
    with "2.prems" have "(p, i) \<in> set owned" by auto
    with "2.IH" d(1) "2.prems"(2) show ?thesis by (cases rz) simp_all
  qed
qed simp

text \<open>C11: However a connection ends, and whatever other clients and the sessions themselves did
  meanwhile, no attachment its replies ever handed it is still subscribed to anything
  afterwards, and none it had not detached itself still has a vote on a session's size.\<close>

theorem connection_leaves_no_attachment:
  assumes "conn_run ts tx reg owned handed" and "(p, i) \<in> set handed"
  shows "\<not> subscribed (release owned rz reg) p i \<and>
    ((p, i) \<in> set owned \<longrightarrow> \<not> voting (release owned rz reg) p i)"
proof -
  from conn_run_inv [OF assms(1)] assms(2) have
    "i < r_next_attachment_id reg" "(p, i) \<in> set owned \<or> gone p i reg" by auto
  with release_owned [of p i owned reg rz] gone_release [of p i reg owned rz] show ?thesis
    by (auto simp: gone_def)
qed

section \<open>The idle timer\<close>

definition idle_at :: "(nat \<times> nat) list \<Rightarrow> nat \<Rightarrow> bool" where
  "idle_at reads k \<longleftrightarrow> reads ! k = (0, 0)"

lemma idle_gc_Some:
  "idle_gc tick timeout acc reads = Some k \<Longrightarrow>
   k < length reads \<and> idle_at reads k \<and>
   ((\<forall>j \<le> k. idle_at reads j) \<and> timeout \<le> acc + Suc k * tick \<or>
    (\<exists>m < k. (\<forall>j. m < j \<and> j \<le> k \<longrightarrow> idle_at reads j) \<and> timeout \<le> (k - m) * tick))"
proof (induction tick timeout acc reads arbitrary: k rule: idle_gc.induct)
  case (2 tick timeout acc live sessions rest)
  show ?case
  proof (cases "live = 0 \<and> sessions = 0")
    case False
    with "2.prems" obtain k' where k: "k = Suc k'" "idle_gc tick timeout 0 rest = Some k'" by auto
    from "2.IH"(2) [OF False k(2)] have ih: "k' < length rest" "idle_at rest k'" and
      r: "(\<forall>j \<le> k'. idle_at rest j) \<and> timeout \<le> Suc k' * tick \<or>
      (\<exists>m < k'. (\<forall>j. m < j \<and> j \<le> k' \<longrightarrow> idle_at rest j) \<and> timeout \<le> (k' - m) * tick)" by auto
    from r have "\<exists>m < k. (\<forall>j. m < j \<and> j \<le> k \<longrightarrow> idle_at ((live, sessions) # rest) j) \<and>
        timeout \<le> (k - m) * tick"
    proof
      assume "(\<forall>j \<le> k'. idle_at rest j) \<and> timeout \<le> Suc k' * tick"
      then show ?thesis unfolding k
        by (intro exI [of _ 0]) (auto simp: idle_at_def nth_Cons split: nat.split)
    next
      assume "\<exists>m < k'. (\<forall>j. m < j \<and> j \<le> k' \<longrightarrow> idle_at rest j) \<and> timeout \<le> (k' - m) * tick"
      then obtain m where "m < k'" "\<forall>j. m < j \<and> j \<le> k' \<longrightarrow> idle_at rest j" "timeout \<le> (k' - m) * tick"
        by blast
      then show ?thesis unfolding k
        by (intro exI [of _ "Suc m"]) (auto simp: idle_at_def nth_Cons split: nat.split)
    qed
    with ih k show ?thesis by (simp add: idle_at_def)
  next
    case True
    show ?thesis
    proof (cases "timeout \<le> acc + tick")
      case True
      with "2.prems" \<open>live = 0 \<and> sessions = 0\<close> show ?thesis by (simp add: idle_at_def)
    next
      case False
      with "2.prems" True obtain k' where
        k: "k = Suc k'" "idle_gc tick timeout (acc + tick) rest = Some k'" by auto
      from "2.IH"(1) [OF True False k(2)] have ih: "k' < length rest" "idle_at rest k'" and
        r: "(\<forall>j \<le> k'. idle_at rest j) \<and> timeout \<le> acc + tick + Suc k' * tick \<or>
        (\<exists>m < k'. (\<forall>j. m < j \<and> j \<le> k' \<longrightarrow> idle_at rest j) \<and> timeout \<le> (k' - m) * tick)" by auto
      from r show ?thesis
      proof
        assume a: "(\<forall>j \<le> k'. idle_at rest j) \<and> timeout \<le> acc + tick + Suc k' * tick"
        then have "\<forall>j \<le> k. idle_at ((live, sessions) # rest) j" using True unfolding k
          by (auto simp: idle_at_def nth_Cons split: nat.split)
        moreover have "timeout \<le> acc + Suc k * tick" using a k by simp
        ultimately show ?thesis using ih k by (simp add: idle_at_def)
      next
        assume "\<exists>m < k'. (\<forall>j. m < j \<and> j \<le> k' \<longrightarrow> idle_at rest j) \<and> timeout \<le> (k' - m) * tick"
        then obtain m where "m < k'" "\<forall>j. m < j \<and> j \<le> k' \<longrightarrow> idle_at rest j" "timeout \<le> (k' - m) * tick"
          by blast
        then have "Suc m < k \<and> (\<forall>j. Suc m < j \<and> j \<le> k \<longrightarrow> idle_at ((live, sessions) # rest) j) \<and>
            timeout \<le> (k - Suc m) * tick" unfolding k
          by (auto simp: idle_at_def nth_Cons split: nat.split)
        with ih k show ?thesis by (auto simp: idle_at_def)
      qed
    qed
  qed
qed simp

lemma idle_gc_fires:
  "(\<forall>j \<le> k. idle_at reads j) \<Longrightarrow> k < length reads \<Longrightarrow> timeout \<le> acc + Suc k * tick \<Longrightarrow>
   \<exists>k' \<le> k. idle_gc tick timeout acc reads = Some k'"
proof (induction tick timeout acc reads arbitrary: k rule: idle_gc.induct)
  case (2 tick timeout acc live sessions rest)
  from "2.prems"(1) have i: "live = 0 \<and> sessions = 0" by (auto simp: idle_at_def dest: spec [of _ 0])
  show ?case
  proof (cases "timeout \<le> acc + tick")
    case False
    with "2.prems"(3) obtain k1 where k: "k = Suc k1" by (cases k) auto
    have "\<forall>j \<le> k1. idle_at rest j" using "2.prems"(1) k by (auto simp: idle_at_def dest: spec [of _ "Suc _"])
    with "2.IH"(1) [OF i False, of k1] "2.prems" k i False show ?thesis by auto
  qed (simp add: i)
qed simp

text \<open>The daemon stops for idleness only at the end of an unbroken stretch of ticks without
  session or client that lasts the timeout, and a stretch that long from the start of the
  watch always stops it, no later than its end.\<close>

theorem idle_gc_correct:
  "(\<forall>k. idle_gc tick timeout 0 reads = Some k \<longrightarrow>
      (\<exists>n \<le> k. (\<forall>j. n \<le> j \<and> j \<le> k \<longrightarrow> reads ! j = (0, 0)) \<and> timeout \<le> (k + 1 - n) * tick)) \<and>
   (\<forall>k < length reads. (\<forall>j \<le> k. reads ! j = (0, 0)) \<and> timeout \<le> (k + 1) * tick \<longrightarrow>
      (\<exists>k' \<le> k. idle_gc tick timeout 0 reads = Some k'))"
proof (intro conjI allI impI)
  fix k assume "idle_gc tick timeout 0 reads = Some k"
  from idle_gc_Some [OF this] show "\<exists>n \<le> k. (\<forall>j. n \<le> j \<and> j \<le> k \<longrightarrow> reads ! j = (0, 0)) \<and>
      timeout \<le> (k + 1 - n) * tick"
  proof (elim conjE disjE exE)
    assume "\<forall>j \<le> k. idle_at reads j" "timeout \<le> 0 + Suc k * tick"
    then show ?thesis by (intro exI [of _ 0]) (simp add: idle_at_def)
  next
    fix m assume "m < k" "\<forall>j. m < j \<and> j \<le> k \<longrightarrow> idle_at reads j" "timeout \<le> (k - m) * tick"
    then show ?thesis by (intro exI [of _ "Suc m"]) (simp add: idle_at_def)
  qed
next
  fix k assume "k < length reads" "(\<forall>j \<le> k. reads ! j = (0, 0)) \<and> timeout \<le> (k + 1) * tick"
  then show "\<exists>k' \<le> k. idle_gc tick timeout 0 reads = Some k'"
    using idle_gc_fires [of k reads timeout 0 tick] by (simp add: idle_at_def)
qed

section \<open>The hypotheses can hold\<close>

definition demo_hmac :: hmac where
  "demo_hmac k m = take 32 (k @ m @ replicate 32 0)"

lemma handshake_requires_token_witness:
  "snd (handshake demo_hmac [1] ''s'' [2]
     (Inr (FrameRequest 1 (ReqHello \<lparr>h_protocol_version = 10, h_client_id = ''c'', h_client_nonce = [3]\<rparr>)))
     None (Inr (FrameRequest 2 (ReqHelloProof (client_proof demo_hmac [1] [2] [3])))) None) = None"
proof -
  let ?h = "\<lparr>h_protocol_version = 10, h_client_id = ''c'', h_client_nonce = [3]\<rparr> :: hello"
  have len: "\<And>k m. length (demo_hmac k m) = 32" by (simp add: demo_hmac_def)
  then have pf: "\<And>j pf. Inr (FrameRequest 2 (ReqHelloProof (client_proof demo_hmac [1] [2] [3]))) =
      (Inr (FrameRequest j (ReqHelloProof pf)) :: codec_error + frame) \<Longrightarrow> length pf = 32"
    by (auto simp: client_proof_def proof_of_def)
  show ?thesis
    by (rule iffD2 [OF handshake_requires_token [OF len pf]]) (simp_all add: PROTOCOL_VERSION_def)
qed

definition demo_outcome :: outcome where
  "demo_outcome = \<lparr>o_spawned = Some (''p'', None), o_now = 0, o_accepted = True, o_resized = True,
     o_detail = []\<rparr>"

lemma every_request_answered_once_witness:
  "\<exists>rep rest. dispatch demo_send 0 demo_outcome (FrameRequest 9 (ReqSpawn demo_args)) [] registry_new 0 =
     Some ([rep], rest) \<and> reply_id rep = 9"
  by (rule every_request_answered_once [OF reg_reachable.fresh])
    (simp add: demo_args_def demo_length)

lemma connection_leaves_no_attachment_witness:
  "\<exists>reg owned handed p i. conn_run demo_send 0 reg owned handed \<and> (p, i) \<in> set handed \<and>
     \<not> subscribed (release owned [] reg) p i"
proof -
  let ?f = "FrameRequest 9 (ReqSpawn demo_args)"
  have fits: "length (sp_prefill demo_args) < 2 ^ 64" by (simp add: demo_args_def demo_length)
  obtain rep acts owned reg c where
    d: "dispatch demo_send 0 demo_outcome ?f [] registry_new 0 = Some ([rep], acts, owned, reg, c)"
    using request_answered [OF reg_reachable.fresh, of "ReqSpawn demo_args" demo_send 0 demo_outcome 9 "[]" 0]
      fits by (auto simp del: One_nat_def)
  from dispatch_request [OF _ d] obtain resp where
    h: "handle_request demo_send 0 demo_outcome (ReqSpawn demo_args) registry_new 0 = Some (resp, acts, reg, c)"
    and rep: "rep = ReplyNow (FrameResponse 9 resp)" by auto
  obtain r reg1 where sp: "spawn demo_args (o_spawned demo_outcome) (o_now demo_outcome) registry_new = (r, reg1)"
    by fastforce
  from spawn_inv [OF registry_new_inv sp fits] sp have "\<exists>q. r = Inr q"
    by (auto simp: spawn_def registry_new_def demo_outcome_def split: option.splits)
  with h sp have "\<exists>p i. resp = SpawnOk p i"
    by (auto simp: handle_request_def split: sum.splits prod.splits if_splits)
  then obtain p i where "resp = SpawnOk p i" by blast
  with rep have g: "granted ?f [rep] = [(p, i)]" by (simp add: granted_def)
  have "conn_run demo_send 0 reg owned ([] @ granted ?f [rep])"
    by (rule conn_run.own [OF conn_run.opened [OF reg_reachable.fresh] d])
      (simp_all add: demo_outcome_def registry_new_def demo_args_def demo_length)
  with g have run: "conn_run demo_send 0 reg owned [(p, i)]" by simp
  moreover have "(p, i) \<in> set [(p, i)]" by simp
  moreover have "\<not> subscribed (release owned [] reg) p i"
    using connection_leaves_no_attachment [OF run, of p i "[]"] by simp
  ultimately show ?thesis by blast
qed

lemma idle_gc_correct_witness:
  "\<exists>k \<le> 3. idle_gc 60 120 0 [(0, 0), (0, 0), (0, 0), (0, 0)] = Some k"
  using idle_gc_correct [of 60 120 "[(0, 0), (0, 0), (0, 0), (0, 0)]"]
  by (auto simp: nth_Cons split: nat.split dest!: spec [of "\<lambda>k. k < 4 \<longrightarrow> _ k" 3])

end
