(* ===== verification/Relay_Reader.thy ===== *)
theory Relay_Reader
  imports Relay_Registry
begin

text \<open>
  The loop that ends a session (\<open>reader_loop\<close> in \<open>crates/relay/src/reader.rs\<close>): what the
  read thread and the reap thread report through one channel, in the order it arrives, and
  what the loop does about it.  \<open>expired i\<close> says whether the wait with a deadline before the
  \<open>i\<close>-th message timed out, \<open>restarting i\<close> is the flag as loaded then, and \<open>arrived\<close> how
  many more messages had arrived when the loop drained the channel.
\<close>

section \<open>The loop\<close>

datatype pty_msg = Chunk bytes | Eof | Exited "int option"

datatype reader_action = PublishChunk bytes | EndSession "int option" bool

record reader_state =
  rd_reaped :: "int option option"
  rd_ended_by_restart :: "bool option"
  rd_actions :: "reader_action list"

definition reader_start :: reader_state where
  "reader_start = \<lparr>rd_reaped = None, rd_ended_by_restart = None, rd_actions = []\<rparr>"

definition get_or_insert :: "bool \<Rightarrow> bool option \<Rightarrow> bool option" where
  "get_or_insert b x = (case x of None \<Rightarrow> Some b | Some v \<Rightarrow> Some v)"

definition end_seen :: "bool \<Rightarrow> reader_state \<Rightarrow> reader_state" where
  "end_seen restarting st = st\<lparr>rd_ended_by_restart := get_or_insert restarting (rd_ended_by_restart st)\<rparr>"

definition publish_chunk :: "bytes \<Rightarrow> reader_state \<Rightarrow> reader_state" where
  "publish_chunk bs st = st\<lparr>rd_actions := rd_actions st @ [PublishChunk bs]\<rparr>"

text \<open>A deadline is set exactly once the child was reaped.  An empty channel is one whose
  senders are gone, or whose deadline passes.\<close>

fun main_loop ::
  "(nat \<Rightarrow> bool) \<Rightarrow> (nat \<Rightarrow> bool) \<Rightarrow> nat \<Rightarrow> pty_msg list \<Rightarrow> reader_state \<Rightarrow> reader_state \<times> pty_msg list" where
  "main_loop expired restarting i [] st = (end_seen (restarting i) st, [])"
| "main_loop expired restarting i (m # ms) st =
     (if rd_reaped st \<noteq> None \<and> expired i then (end_seen (restarting i) st, m # ms)
      else (case m of
              Chunk bs \<Rightarrow> main_loop expired restarting (i + 1) ms (publish_chunk bs st)
            | Eof \<Rightarrow> (end_seen (restarting i) st, ms)
            | Exited code \<Rightarrow>
                main_loop expired restarting (i + 1) ms
                  ((end_seen (restarting i) st)\<lparr>rd_reaped := Some code\<rparr>)))"

fun drain :: "pty_msg list \<Rightarrow> reader_state \<Rightarrow> reader_state" where
  "drain [] st = st"
| "drain (m # ms) st =
     drain ms (case m of
                 Chunk bs \<Rightarrow> publish_chunk bs st
               | Exited code \<Rightarrow> if rd_reaped st = None then st\<lparr>rd_reaped := Some code\<rparr> else st
               | Eof \<Rightarrow> st)"

fun await_exit :: "pty_msg list \<Rightarrow> int option" where
  "await_exit [] = None"
| "await_exit (Exited code # ms) = code"
| "await_exit (_ # ms) = await_exit ms"

definition reader_loop ::
  "(nat \<Rightarrow> bool) \<Rightarrow> (nat \<Rightarrow> bool) \<Rightarrow> nat \<Rightarrow> pty_msg list \<Rightarrow> reader_action list" where
  "reader_loop expired restarting arrived msgs =
     (case main_loop expired restarting 0 msgs reader_start of
        (st1, rest) \<Rightarrow>
          (let st2 = drain (take arrived rest) st1;
               code = (case rd_reaped st2 of
                         Some code \<Rightarrow> code
                       | None \<Rightarrow> await_exit (drop arrived rest));
               by_restart = (case rd_ended_by_restart st2 of
                               Some b \<Rightarrow> b
                             | None \<Rightarrow> restarting (length msgs))
           in rd_actions st2 @ [EndSession code by_restart]))"

section \<open>What the threads send\<close>

text \<open>The read thread sends the output and then \<open>Eof\<close>, the reap thread one status; the channel
  interleaves the two.\<close>

definition is_status :: "pty_msg \<Rightarrow> bool" where
  "is_status m \<longleftrightarrow> (case m of Exited _ \<Rightarrow> True | _ \<Rightarrow> False)"

definition channel_of :: "bytes list \<Rightarrow> int option \<Rightarrow> pty_msg list \<Rightarrow> bool" where
  "channel_of out code ms \<longleftrightarrow>
     filter (\<lambda>m. \<not> is_status m) ms = map Chunk out @ [Eof] \<and> filter is_status ms = [Exited code]"

fun chunks :: "pty_msg list \<Rightarrow> bytes list" where
  "chunks [] = []"
| "chunks (Chunk bs # ms) = bs # chunks ms"
| "chunks (_ # ms) = chunks ms"

lemma chunks_append [simp]: "chunks (a @ b) = chunks a @ chunks b"
  by (induction a rule: chunks.induct) simp_all

lemma chunks_filter: "chunks ms = chunks (filter (\<lambda>m. \<not> is_status m) ms)"
  by (induction ms rule: chunks.induct) (simp_all add: is_status_def)

lemma chunks_map [simp]: "chunks (map Chunk out) = out"
  by (induction out) simp_all

lemma channel_chunks: "channel_of out code ms \<Longrightarrow> chunks ms = out"
  using chunks_filter [of ms] by (simp add: channel_of_def)

section \<open>The loop's trace\<close>

text \<open>What the loop has consumed splits the channel; the output it published is that of what it
  consumed, in order.\<close>

definition loop_trace :: "bool \<Rightarrow> reader_state \<Rightarrow> reader_state \<Rightarrow> pty_msg list \<Rightarrow> pty_msg list \<Rightarrow> bool" where
  "loop_trace patient st st' used rest \<longleftrightarrow>
     rd_actions st' = rd_actions st @ map PublishChunk (chunks used) \<and>
     rd_reaped st' = fold (\<lambda>m r. case m of Exited c \<Rightarrow> Some c | _ \<Rightarrow> r) used (rd_reaped st) \<and>
     (patient \<longrightarrow> rest = [] \<or> (used \<noteq> [] \<and> last used = Eof)) \<and>
     rd_ended_by_restart st' \<noteq> None"

lemma loop_trace_step:
  "loop_trace p (publish_chunk bs st) st' used rest \<Longrightarrow> loop_trace p st st' (Chunk bs # used) rest"
  "loop_trace p ((end_seen b st)\<lparr>rd_reaped := Some c\<rparr>) st' used rest \<Longrightarrow>
   loop_trace p st st' (Exited c # used) rest"
  by (auto simp: loop_trace_def publish_chunk_def end_seen_def)

lemma loop_trace_stop:
  "p \<longrightarrow> rest = [] \<Longrightarrow> loop_trace p st (end_seen b st) [] rest"
  "loop_trace p st (end_seen b st) [Eof] rest"
  by (auto simp: loop_trace_def end_seen_def get_or_insert_def split: option.splits)

lemma main_loop_trace:
  "main_loop ex rs i ms st = (st', rest) \<Longrightarrow>
   \<exists>used. ms = used @ rest \<and> loop_trace (\<forall>i. \<not> ex i) st st' used rest"
proof (induction ex rs i ms st rule: main_loop.induct)
  case (1 ex rs i st)
  then show ?case using loop_trace_stop(1) [of "\<forall>i. \<not> ex i" "[]" st "rs i"] by auto
next
  case (2 ex rs i m ms st)
  show ?case
  proof (cases "rd_reaped st \<noteq> None \<and> ex i")
    case True
    with "2.prems" have "st' = end_seen (rs i) st" "rest = m # ms" by auto
    moreover have "(\<forall>i. \<not> ex i) \<longrightarrow> m # ms = []" using True by blast
    ultimately show ?thesis using loop_trace_stop(1) by auto
  next
    case False
    note next_step = "2.IH" [OF False] and prems = "2.prems"
    show ?thesis
    proof (cases m)
      case (Chunk bs)
      with False prems have "main_loop ex rs (i + 1) ms (publish_chunk bs st) = (st', rest)" by (simp only: main_loop.simps) simp
      from next_step(1) [OF Chunk this] obtain used
        where "ms = used @ rest" "loop_trace (\<forall>i. \<not> ex i) (publish_chunk bs st) st' used rest" by blast
      with Chunk loop_trace_step(1) show ?thesis by (intro exI [of _ "m # used"]) simp
    next
      case Eof
      with False prems have "st' = end_seen (rs i) st" "rest = ms" by auto
      with Eof loop_trace_stop(2) show ?thesis by (intro exI [of _ "[m]"]) simp
    next
      case (Exited code)
      with False prems have
        "main_loop ex rs (i + 1) ms ((end_seen (rs i) st)\<lparr>rd_reaped := Some code\<rparr>) = (st', rest)"
        by (simp only: main_loop.simps) simp
      from next_step(2) [OF Exited this] obtain used where "ms = used @ rest"
        "loop_trace (\<forall>i. \<not> ex i) ((end_seen (rs i) st)\<lparr>rd_reaped := Some code\<rparr>) st' used rest" by blast
      with Exited loop_trace_step(2) show ?thesis by (intro exI [of _ "m # used"]) simp
    qed
  qed
qed

lemma drain_trace:
  "rd_actions (drain ms st) = rd_actions st @ map PublishChunk (chunks ms) \<and>
   rd_ended_by_restart (drain ms st) = rd_ended_by_restart st \<and>
   rd_reaped (drain ms st) =
     (case rd_reaped st of Some c \<Rightarrow> Some c
      | None \<Rightarrow> (case filter is_status ms of Exited c # _ \<Rightarrow> Some c | _ \<Rightarrow> None))"
proof (induction ms arbitrary: st)
  case (Cons m ms)
  show ?case using Cons.IH [of "publish_chunk _ st"] Cons.IH [of st] Cons.IH [of "st\<lparr>rd_reaped := Some _\<rparr>"]
    by (cases m) (auto simp: publish_chunk_def is_status_def split: option.split)
qed (simp split: option.split)

lemma reaped_of_used:
  "filter is_status used = [] \<Longrightarrow> fold (\<lambda>m r. case m of Exited c \<Rightarrow> Some c | _ \<Rightarrow> r) used r = r"
  "filter is_status used = [Exited c] \<Longrightarrow>
   fold (\<lambda>m r. case m of Exited c \<Rightarrow> Some c | _ \<Rightarrow> r) used r = Some c"
proof -
  show a: "filter is_status used = [] \<Longrightarrow> fold (\<lambda>m r. case m of Exited c \<Rightarrow> Some c | _ \<Rightarrow> r) used r = r" for used r
    by (induction used arbitrary: r) (auto simp: is_status_def split: pty_msg.splits if_splits)
  show "filter is_status used = [Exited c] \<Longrightarrow>
   fold (\<lambda>m r. case m of Exited c \<Rightarrow> Some c | _ \<Rightarrow> r) used r = Some c"
    by (induction used arbitrary: r) (auto simp: is_status_def a split: pty_msg.splits if_splits)
qed

lemma await_exit_status: "filter is_status ms = [Exited c] \<Longrightarrow> await_exit ms = c"
  by (induction ms rule: await_exit.induct) (auto simp: is_status_def)

definition is_chunk :: "pty_msg \<Rightarrow> bool" where
  "is_chunk m \<longleftrightarrow> (case m of Chunk _ \<Rightarrow> True | _ \<Rightarrow> False)"

lemma ended_kept:
  "rd_ended_by_restart st = Some b \<Longrightarrow> rd_ended_by_restart (fst (main_loop ex rs i ms st)) = Some b"
  by (induction ex rs i ms st rule: main_loop.induct)
    (auto simp: end_seen_def get_or_insert_def publish_chunk_def split: pty_msg.split)

text \<open>Whether a restart ended the session is decided when the end is first seen.\<close>

lemma ended_decided:
  "rd_ended_by_restart st = None \<Longrightarrow> rd_reaped st = None \<Longrightarrow>
   rd_ended_by_restart (fst (main_loop ex rs i ms st)) = Some (rs (i + length (takeWhile is_chunk ms)))"
proof (induction ms arbitrary: i st)
  case Nil
  then show ?case by (simp add: end_seen_def get_or_insert_def)
next
  case (Cons m ms)
  show ?case
  proof (cases m)
    case (Chunk bs)
    with Cons.IH [of "publish_chunk bs st" "i + 1"] Cons.prems show ?thesis
      by (simp add: is_chunk_def publish_chunk_def)
  next
    case Eof
    with Cons.prems show ?thesis by (simp add: end_seen_def get_or_insert_def is_chunk_def)
  next
    case (Exited code)
    have "rd_ended_by_restart ((end_seen (rs i) st)\<lparr>rd_reaped := Some code\<rparr>) = Some (rs i)"
      using Cons.prems by (simp add: end_seen_def get_or_insert_def)
    from ended_kept [OF this] Exited Cons.prems show ?thesis by (simp add: is_chunk_def)
  qed
qed

lemma snoc_eof_last: "xs @ [Eof] @ ys = map Chunk out @ [Eof] \<Longrightarrow> xs = map Chunk out \<and> ys = []"
proof -
  assume e: "xs @ [Eof] @ ys = map Chunk out @ [Eof]"
  have "ys = []"
  proof (rule ccontr)
    assume "ys \<noteq> []"
    then obtain zs z where "ys = zs @ [z]" by (metis rev_exhaust)
    with e have "map Chunk out = xs @ Eof # zs" by simp
    then have "Eof \<in> Chunk ` set out" by (metis in_set_conv_decomp list.set_map)
    then show False by auto
  qed
  with e show ?thesis by simp
qed

text \<open>C26: However output, end of file and the child's status race, the session ends once, with the
  child's own status, after output the child wrote in the order it wrote it; when no drain
  deadline cuts in, after all of it.  Whether a daemon restart ended the session is the flag
  as it stood when the end was first seen.\<close>

theorem exit_follows_output:
  assumes "channel_of out code ms"
  shows "\<exists>n. reader_loop expired restarting arrived ms =
      map PublishChunk (take n out) @ [EndSession code (restarting (length (takeWhile is_chunk ms)))] \<and>
    ((\<forall>i. \<not> expired i) \<longrightarrow> take n out = out)"
proof -
  obtain st1 rest where ml: "main_loop expired restarting 0 ms reader_start = (st1, rest)" by force
  from main_loop_trace [OF ml] obtain used where u: "ms = used @ rest"
      and tr: "loop_trace (\<forall>i. \<not> expired i) reader_start st1 used rest" by blast
  let ?now = "take arrived rest" and ?later = "drop arrived rest"
  let ?st2 = "drain ?now st1"
  have rest: "rest = ?now @ ?later" by simp
  have status: "filter is_status used @ filter is_status ?now @ filter is_status ?later = [Exited code]"
    using assms u rest unfolding channel_of_def by (metis append.assoc filter_append)
  have out: "out = chunks used @ chunks ?now @ chunks ?later"
    using channel_chunks [OF assms] u rest by (metis append.assoc chunks_append)
  have reaped: "rd_reaped st1 = (if filter is_status used = [] then None else Some code)"
    using tr reaped_of_used [of used] status
    by (auto simp: loop_trace_def reader_start_def append_eq_Cons_conv)
  have "(case rd_reaped ?st2 of Some c \<Rightarrow> c | None \<Rightarrow> await_exit ?later) = code"
    using drain_trace [of ?now st1] reaped status await_exit_status [of ?later]
    by (auto simp: append_eq_Cons_conv split: if_splits)
  moreover have "rd_ended_by_restart ?st2 = Some (restarting (length (takeWhile is_chunk ms)))"
    using drain_trace [of ?now st1] ended_decided [of reader_start expired restarting 0 ms] ml
    by (simp add: reader_start_def)
  moreover have "rd_actions ?st2 = map PublishChunk (chunks used @ chunks ?now)"
    using drain_trace [of ?now st1] tr by (simp add: loop_trace_def reader_start_def)
  ultimately have r: "reader_loop expired restarting arrived ms =
      map PublishChunk (chunks used @ chunks ?now) @
      [EndSession code (restarting (length (takeWhile is_chunk ms)))]"
    by (simp add: reader_loop_def ml Let_def)
  have t: "chunks used @ chunks ?now = take (length (chunks used @ chunks ?now)) out" using out by simp
  have "chunks used @ chunks ?now = out" if "\<forall>i. \<not> expired i"
  proof -
    from tr that have "rest = [] \<or> (used \<noteq> [] \<and> last used = Eof)" by (simp add: loop_trace_def)
    then show ?thesis
    proof
      assume "used \<noteq> [] \<and> last used = Eof"
      then obtain w where "used = w @ [Eof]" by (metis append_butlast_last_id)
      with assms u have "filter (\<lambda>m. \<not> is_status m) w @ [Eof] @ filter (\<lambda>m. \<not> is_status m) rest =
          map Chunk out @ [Eof]" by (simp add: channel_of_def is_status_def)
      from snoc_eof_last [OF this] have "chunks rest = []" using chunks_filter [of rest] by simp
      with out rest show ?thesis by (metis append_Nil2 append_is_Nil_conv chunks_append)
    qed (use out in simp)
  qed
  with r t show ?thesis by metis
qed

lemma exit_follows_output_witness:
  "\<exists>n. reader_loop (\<lambda>_. False) (\<lambda>_. False) 0 [Chunk [1], Exited (Some 3), Chunk [2], Eof] =
    map PublishChunk (take n [[1], [2]]) @ [EndSession (Some 3) False]"
  using exit_follows_output [of "[[1], [2]]" "Some 3" "[Chunk [1], Exited (Some 3), Chunk [2], Eof]"
      "\<lambda>_. False" "\<lambda>_. False" 0]
  by (auto simp: channel_of_def is_status_def)

end
