(* ===== verification/Remote_Auth.thy ===== *)
theory Remote_Auth
  imports Prelude "HOL-Library.AList"
begin

text \<open>
  Pairing and reconnecting of remote devices (\<open>crates/remote-host/src/auth/mod.rs\<close>,
  \<open>pairing.rs\<close>, \<open>reconnect.rs\<close>, and the revocation side of \<open>acl.rs\<close>).  Each method of
  \<open>AuthStore\<close> is a step on the state behind its lock; what it writes through to the durable
  store and announces afterwards is a list of effects.  HMAC-SHA256 and Ed25519 are
  parameters, the random bytes of a token are an argument.
\<close>

section \<open>State\<close>

type_synonym pubkey = bytes
type_synonym hmac_sha256 = "bytes \<Rightarrow> bytes \<Rightarrow> bytes"

definition REGISTRATION_WINDOW_SECS :: u64 where "REGISTRATION_WINDOW_SECS = 60"

record pairing_slot =
  ps_secret :: bytes
  ps_session_id :: "string option"
  ps_one_time :: bool
  ps_read_only :: bool
  ps_used :: bool
  ps_expires_at :: "u64 option"

definition slot_new :: "bytes \<Rightarrow> string option \<Rightarrow> bool \<Rightarrow> pairing_slot" where
  "slot_new secret session_id one_time =
     \<lparr>ps_secret = secret, ps_session_id = session_id, ps_one_time = one_time,
      ps_read_only = False, ps_used = False, ps_expires_at = None\<rparr>"

definition slot_expiring :: "bytes \<Rightarrow> string option \<Rightarrow> bool \<Rightarrow> u64 \<Rightarrow> pairing_slot" where
  "slot_expiring secret session_id one_time expires_at =
     (slot_new secret session_id one_time)\<lparr>ps_expires_at := Some expires_at\<rparr>"

definition with_read_only :: "bool \<Rightarrow> pairing_slot \<Rightarrow> pairing_slot" where
  "with_read_only b s = s\<lparr>ps_read_only := b\<rparr>"

definition dead_at :: "u64 \<Rightarrow> pairing_slot \<Rightarrow> bool" where
  "dead_at now s \<longleftrightarrow>
     (ps_one_time s \<and> ps_used s) \<or>
     (case ps_expires_at s of None \<Rightarrow> False | Some at \<Rightarrow> now \<ge> at)"

datatype device_scope = ScopeFull | ScopeSessions "string list"

record device_record =
  dr_name :: string
  dr_revoked :: bool
  dr_scope :: device_scope
  dr_read_only :: bool
  dr_last_seen :: "u64 option"

record auth_state =
  au_pairing :: "pairing_slot option"
  au_devices :: "(pubkey \<times> device_record) list"
  au_tokens :: "(string \<times> pubkey) list"

definition auth_new :: auth_state where
  "auth_new = \<lparr>au_pairing = None, au_devices = [], au_tokens = []\<rparr>"

record stored_device =
  sd_pubkey :: pubkey
  sd_name :: string
  sd_sessions :: "string list option"
  sd_revoked :: bool
  sd_read_only :: bool
  sd_last_seen :: "u64 option"

record paired_device =
  pd_pubkey :: pubkey
  pd_name :: string

datatype pairing_event = Paired paired_device | AlreadyPaired paired_device | Unpaired paired_device

datatype auth_effect =
    PersistSaved stored_device
  | PersistRevoked pubkey bool
  | PersistRemoved pubkey
  | PersistReadOnly pubkey bool
  | PersistTouched pubkey
  | Announce pairing_event

datatype rpc_error = Unauthorized | BadRequest string

section \<open>Pairing\<close>

definition pairing_open_at :: "u64 \<Rightarrow> auth_state \<Rightarrow> bool" where
  "pairing_open_at now st =
     (case au_pairing st of None \<Rightarrow> False | Some slot \<Rightarrow> \<not> dead_at now slot)"

definition set_pairing :: "pairing_slot \<Rightarrow> auth_state \<Rightarrow> auth_state" where
  "set_pairing slot st = st\<lparr>au_pairing := Some slot\<rparr>"

definition close_pairing :: "auth_state \<Rightarrow> auth_state" where
  "close_pairing st = st\<lparr>au_pairing := None\<rparr>"

definition hex_digit :: "nat \<Rightarrow> char" where
  "hex_digit n = char_of (if n < 10 then 48 + n else 87 + n)"

definition hex_byte :: "u8 \<Rightarrow> string" where
  "hex_byte b = [hex_digit (unat b div 16), hex_digit (unat b mod 16)]"

definition hex :: "bytes \<Rightarrow> string" where
  "hex bs = concat (map hex_byte bs)"

definition issue_token :: "bytes \<Rightarrow> pubkey \<Rightarrow> auth_state \<Rightarrow> string \<times> auth_state" where
  "issue_token raw pk st = (hex raw, st\<lparr>au_tokens := AList.update (hex raw) pk (au_tokens st)\<rparr>)"

definition le64 :: "u64 \<Rightarrow> bytes" where
  "le64 w = map (\<lambda>i. ucast (drop_bit (8 * i) w)) [0..<8]"

definition registration_proof :: "hmac_sha256 \<Rightarrow> bytes \<Rightarrow> pubkey \<Rightarrow> u64 \<Rightarrow> bytes" where
  "registration_proof hm secret pk ts = hm secret (pk @ le64 ts)"

record register_req =
  rq_app_pubkey :: pubkey
  rq_device_name :: string
  rq_proof :: bytes
  rq_timestamp_secs :: u64
  rq_session_id :: "string option"

definition abs_diff :: "u64 \<Rightarrow> u64 \<Rightarrow> u64" where
  "abs_diff a b = (if a < b then b - a else a - b)"

text \<open>\<open>valid_key\<close> is \<open>VerifyingKey::from_bytes\<close>, \<open>raw\<close> the random bytes of the token.\<close>

definition register ::
  "hmac_sha256 \<Rightarrow> (pubkey \<Rightarrow> bool) \<Rightarrow> bytes \<Rightarrow> register_req \<Rightarrow> u64 \<Rightarrow> auth_state \<Rightarrow>
   (rpc_error + string) \<times> auth_state \<times> auth_effect list" where
  "register hm valid_key raw req now st =
     (case au_pairing st of
        None \<Rightarrow> (Inl Unauthorized, st, [])
      | Some slot \<Rightarrow>
          if dead_at now slot then (Inl Unauthorized, st, [])
          else if abs_diff now (rq_timestamp_secs req) > REGISTRATION_WINDOW_SECS
          then (Inl (BadRequest ''registration timestamp outside window''), st, [])
          else if registration_proof hm (ps_secret slot) (rq_app_pubkey req) (rq_timestamp_secs req)
                    \<noteq> rq_proof req
          then (Inl Unauthorized, st, [])
          else if \<not> valid_key (rq_app_pubkey req) then (Inl Unauthorized, st, [])
          else
            (case map_of (au_devices st) (rq_app_pubkey req) of
               Some known \<Rightarrow>
                 (Inl Unauthorized, st,
                  [Announce (AlreadyPaired \<lparr>pd_pubkey = rq_app_pubkey req, pd_name = dr_name known\<rparr>)])
             | None \<Rightarrow>
                 let bound = ps_session_id slot;
                     scope = (case bound of Some s \<Rightarrow> ScopeSessions [s] | None \<Rightarrow> ScopeFull);
                     read_only = ps_read_only slot;
                     st1 = (if ps_one_time slot
                            then st\<lparr>au_pairing := Some (slot\<lparr>ps_used := True\<rparr>)\<rparr> else st);
                     st2 = st1\<lparr>au_devices := AList.update (rq_app_pubkey req)
                             \<lparr>dr_name = rq_device_name req, dr_revoked = False, dr_scope = scope,
                              dr_read_only = read_only, dr_last_seen = Some now\<rparr> (au_devices st1)\<rparr>;
                     (token, st3) = issue_token raw (rq_app_pubkey req) st2;
                     stored = \<lparr>sd_pubkey = rq_app_pubkey req, sd_name = rq_device_name req,
                               sd_sessions = map_option (\<lambda>s. [s]) bound, sd_revoked = False,
                               sd_read_only = read_only, sd_last_seen = Some now\<rparr>
                 in (Inr token, st3,
                     [PersistSaved stored,
                      Announce (Paired \<lparr>pd_pubkey = rq_app_pubkey req,
                                        pd_name = rq_device_name req\<rparr>)])))"

section \<open>Reconnecting\<close>

definition is_authorized :: "auth_state \<Rightarrow> pubkey \<Rightarrow> bool" where
  "is_authorized st pk =
     (case map_of (au_devices st) pk of None \<Rightarrow> False | Some d \<Rightarrow> \<not> dr_revoked d)"

definition authorize_token :: "string \<Rightarrow> auth_state \<Rightarrow> pubkey option" where
  "authorize_token token st =
     (case map_of (au_tokens st) token of
        None \<Rightarrow> None
      | Some pk \<Rightarrow>
          (case map_of (au_devices st) pk of
             None \<Rightarrow> None
           | Some d \<Rightarrow> if \<not> dr_revoked d then Some pk else None))"

text \<open>
  \<open>sig_ok\<close> is \<open>Signature::from_slice\<close>, \<open>verify\<close> is \<open>verify_strict\<close> of the key on a message
  and a signature.
\<close>

definition verify_challenge ::
  "(pubkey \<Rightarrow> bool) \<Rightarrow> (bytes \<Rightarrow> bool) \<Rightarrow> (pubkey \<Rightarrow> bytes \<Rightarrow> bytes \<Rightarrow> bool) \<Rightarrow> bytes \<Rightarrow>
   pubkey \<Rightarrow> bytes \<Rightarrow> bytes \<Rightarrow> auth_state \<Rightarrow> (rpc_error + string) \<times> auth_state" where
  "verify_challenge valid_key sig_ok verify raw pk nonce signature st =
     (if \<not> is_authorized st pk then (Inl Unauthorized, st)
      else if \<not> valid_key pk then (Inl Unauthorized, st)
      else if \<not> sig_ok signature then (Inl (BadRequest ''bad signature''), st)
      else if \<not> verify pk nonce signature then (Inl Unauthorized, st)
      else (case issue_token raw pk st of (token, st') \<Rightarrow> (Inr token, st')))"

definition touch_last_seen :: "pubkey \<Rightarrow> u64 \<Rightarrow> auth_state \<Rightarrow> auth_state \<times> auth_effect list" where
  "touch_last_seen pk now st =
     (case map_of (au_devices st) pk of
        None \<Rightarrow> (st, [PersistTouched pk])
      | Some d \<Rightarrow>
          (st\<lparr>au_devices := AList.update pk (d\<lparr>dr_last_seen := Some now\<rparr>) (au_devices st)\<rparr>,
           [PersistTouched pk]))"

section \<open>The operator's side\<close>

definition set_read_only :: "pubkey \<Rightarrow> bool \<Rightarrow> auth_state \<Rightarrow> auth_state \<times> auth_effect list" where
  "set_read_only pk ro st =
     (case map_of (au_devices st) pk of
        None \<Rightarrow> (st, [PersistReadOnly pk ro])
      | Some d \<Rightarrow>
          (st\<lparr>au_devices := AList.update pk (d\<lparr>dr_read_only := ro\<rparr>) (au_devices st)\<rparr>,
           [PersistReadOnly pk ro]))"

definition forget :: "pubkey \<Rightarrow> auth_state \<Rightarrow> auth_state \<times> auth_effect list" where
  "forget pk st =
     (st\<lparr>au_devices := AList.delete pk (au_devices st),
         au_tokens := filter (\<lambda>(_, owner). owner \<noteq> pk) (au_tokens st)\<rparr>,
      [PersistRemoved pk])"

definition forget_self :: "pubkey \<Rightarrow> auth_state \<Rightarrow> auth_state \<times> auth_effect list" where
  "forget_self pk st =
     (let name = (case map_of (au_devices st) pk of Some d \<Rightarrow> dr_name d | None \<Rightarrow> []) in
      case forget pk st of
        (st', effs) \<Rightarrow> (st', effs @ [Announce (Unpaired \<lparr>pd_pubkey = pk, pd_name = name\<rparr>)]))"

definition revoke :: "pubkey \<Rightarrow> auth_state \<Rightarrow> auth_state \<times> auth_effect list" where
  "revoke pk st =
     (let devices = (case map_of (au_devices st) pk of
                       None \<Rightarrow> au_devices st
                     | Some d \<Rightarrow> AList.update pk (d\<lparr>dr_revoked := True\<rparr>) (au_devices st))
      in (st\<lparr>au_devices := devices,
             au_tokens := filter (\<lambda>(_, owner). owner \<noteq> pk) (au_tokens st)\<rparr>,
          [PersistRevoked pk True]))"

record device_info =
  di_pubkey :: pubkey
  di_name :: string
  di_read_only :: bool
  di_last_seen :: "u64 option"
  di_revoked :: bool

definition devices :: "auth_state \<Rightarrow> device_info list" where
  "devices st =
     map (\<lambda>(pk, d). \<lparr>di_pubkey = pk, di_name = dr_name d, di_read_only = dr_read_only d,
                     di_last_seen = dr_last_seen d, di_revoked = dr_revoked d\<rparr>) (au_devices st)"

definition device_name :: "auth_state \<Rightarrow> pubkey \<Rightarrow> string option" where
  "device_name st pk = map_option dr_name (map_of (au_devices st) pk)"

section \<open>The store over time\<close>

text \<open>Everything that changes the store, whoever asks for it.\<close>

datatype auth_op =
    OpRegister bytes register_req u64
  | OpChallenge bytes pubkey bytes bytes
  | OpTouch pubkey u64
  | OpSetPairing pairing_slot
  | OpClosePairing
  | OpReadOnly pubkey bool
  | OpForget pubkey
  | OpForgetSelf pubkey
  | OpRevoke pubkey

record crypto =
  cr_hmac :: hmac_sha256
  cr_valid_key :: "pubkey \<Rightarrow> bool"
  cr_sig_ok :: "bytes \<Rightarrow> bool"
  cr_verify :: "pubkey \<Rightarrow> bytes \<Rightarrow> bytes \<Rightarrow> bool"

fun auth_step :: "crypto \<Rightarrow> auth_op \<Rightarrow> auth_state \<Rightarrow> auth_state \<times> auth_effect list" where
  "auth_step cr (OpRegister raw req now) st = snd (register (cr_hmac cr) (cr_valid_key cr) raw req now st)"
| "auth_step cr (OpChallenge raw pk nonce sig) st =
     (snd (verify_challenge (cr_valid_key cr) (cr_sig_ok cr) (cr_verify cr) raw pk nonce sig st), [])"
| "auth_step cr (OpTouch pk now) st = touch_last_seen pk now st"
| "auth_step cr (OpSetPairing slot) st = (set_pairing slot st, [])"
| "auth_step cr OpClosePairing st = (close_pairing st, [])"
| "auth_step cr (OpReadOnly pk ro) st = set_read_only pk ro st"
| "auth_step cr (OpForget pk) st = forget pk st"
| "auth_step cr (OpForgetSelf pk) st = forget_self pk st"
| "auth_step cr (OpRevoke pk) st = revoke pk st"

definition auth_run :: "crypto \<Rightarrow> auth_op list \<Rightarrow> auth_state \<Rightarrow> auth_state" where
  "auth_run cr ops st = fold (\<lambda>op s. fst (auth_step cr op s)) ops st"

lemma auth_run_simps [simp]:
  "auth_run cr [] st = st"
  "auth_run cr (op # ops) st = auth_run cr ops (fst (auth_step cr op st))"
  by (simp_all add: auth_run_def)

lemma register_cases:
  obtains (refused) e effs where "register hm vk raw req now st = (Inl e, st, effs)"
      "\<And>sd. PersistSaved sd \<notin> set effs"
  | (accepted) slot where "au_pairing st = Some slot" "\<not> dead_at now slot"
      "\<not> abs_diff now (rq_timestamp_secs req) > REGISTRATION_WINDOW_SECS"
      "rq_proof req = registration_proof hm (ps_secret slot) (rq_app_pubkey req) (rq_timestamp_secs req)"
      "vk (rq_app_pubkey req)" "map_of (au_devices st) (rq_app_pubkey req) = None"
      "register hm vk raw req now st =
        (Inr (hex raw),
         \<lparr>au_pairing = (if ps_one_time slot then Some (slot\<lparr>ps_used := True\<rparr>) else au_pairing st),
          au_devices = AList.update (rq_app_pubkey req)
            \<lparr>dr_name = rq_device_name req, dr_revoked = False,
             dr_scope = (case ps_session_id slot of Some s \<Rightarrow> ScopeSessions [s] | None \<Rightarrow> ScopeFull),
             dr_read_only = ps_read_only slot, dr_last_seen = Some now\<rparr> (au_devices st),
          au_tokens = AList.update (hex raw) (rq_app_pubkey req) (au_tokens st)\<rparr>,
         [PersistSaved \<lparr>sd_pubkey = rq_app_pubkey req, sd_name = rq_device_name req,
             sd_sessions = map_option (\<lambda>s. [s]) (ps_session_id slot), sd_revoked = False,
             sd_read_only = ps_read_only slot, sd_last_seen = Some now\<rparr>,
          Announce (Paired \<lparr>pd_pubkey = rq_app_pubkey req, pd_name = rq_device_name req\<rparr>)])"
proof (cases "au_pairing st")
  case None
  then show thesis by (intro refused [of Unauthorized "[]"]) (simp_all add: register_def)
next
  case (Some slot)
  show thesis
  proof (cases "dead_at now slot \<or> abs_diff now (rq_timestamp_secs req) > REGISTRATION_WINDOW_SECS \<or>
      registration_proof hm (ps_secret slot) (rq_app_pubkey req) (rq_timestamp_secs req) \<noteq> rq_proof req \<or>
      \<not> vk (rq_app_pubkey req)")
    case True
    then have "\<exists>e. register hm vk raw req now st = (Inl e, st, [])"
      using Some by (elim disjE) (simp_all add: register_def)
    then show thesis using refused by fastforce
  next
    case False
    show thesis
    proof (cases "map_of (au_devices st) (rq_app_pubkey req)")
      case None
      show thesis
        by (rule accepted [OF Some]) (use False Some None in
          \<open>simp_all add: register_def Let_def issue_token_def split: option.split\<close>)
    next
      case known: (Some d)
      show thesis
        by (rule refused [of Unauthorized "[Announce (AlreadyPaired \<lparr>pd_pubkey = rq_app_pubkey req,
              pd_name = dr_name d\<rparr>)]"])
          (use False Some known in \<open>simp_all add: register_def\<close>)
    qed
  qed
qed

text \<open>Keys are unique, and every live token belongs to a device that is still authorized.\<close>

definition auth_inv :: "auth_state \<Rightarrow> bool" where
  "auth_inv st \<longleftrightarrow> distinct (map fst (au_devices st)) \<and>
     (\<forall>pk \<in> snd ` set (au_tokens st). is_authorized st pk)"

lemma is_authorized_frame [simp]:
  "is_authorized (st\<lparr>au_tokens := ts\<rparr>) pk = is_authorized st pk"
  "is_authorized (st\<lparr>au_pairing := sl\<rparr>) pk = is_authorized st pk"
  by (simp_all add: is_authorized_def)

lemma in_update:
  "x \<in> set (AList.update k v xs) \<Longrightarrow> x = (k, v) \<or> x \<in> set xs"
  by (induction xs) (auto split: if_splits)

lemma auth_inv_step: "auth_inv st \<Longrightarrow> auth_inv (fst (auth_step cr op st))"
proof (cases op)
  case (OpRegister raw req now)
  assume inv: "auth_inv st"
  show ?thesis
  proof (cases rule: register_cases [of "cr_hmac cr" "cr_valid_key cr" raw req now st])
    case (refused e effs)
    with OpRegister inv show ?thesis by simp
  next
    case (accepted slot)
    with OpRegister inv show ?thesis
      by (auto simp: auth_inv_def is_authorized_def distinct_update update_conv'
          dest!: in_update split: option.splits)
  qed
next
  case (OpChallenge raw pk nonce sig)
  assume "auth_inv st"
  then show ?thesis unfolding OpChallenge
    by (auto simp: verify_challenge_def issue_token_def auth_inv_def dest!: in_update)
next
  case (OpTouch pk now)
  assume "auth_inv st"
  then show ?thesis unfolding OpTouch
    by (auto simp: touch_last_seen_def auth_inv_def is_authorized_def distinct_update update_conv'
        split: option.splits)
next
  case (OpReadOnly pk ro)
  assume "auth_inv st"
  then show ?thesis unfolding OpReadOnly
    by (auto simp: set_read_only_def auth_inv_def is_authorized_def distinct_update update_conv'
        split: option.splits)
next
  case (OpForget pk)
  assume "auth_inv st"
  then show ?thesis unfolding OpForget
    by (auto simp: forget_def auth_inv_def is_authorized_def distinct_delete delete_conv'
        split: option.splits)
next
  case (OpForgetSelf pk)
  assume "auth_inv st"
  then show ?thesis unfolding OpForgetSelf
    by (auto simp: forget_self_def forget_def Let_def auth_inv_def is_authorized_def distinct_delete
        delete_conv' split: option.splits)
next
  case (OpRevoke pk)
  assume "auth_inv st"
  then show ?thesis unfolding OpRevoke
    by (auto simp: revoke_def Let_def auth_inv_def is_authorized_def distinct_update update_conv'
        split: option.splits)
qed (auto simp: set_pairing_def close_pairing_def auth_inv_def)

lemma auth_inv_run: "auth_inv st \<Longrightarrow> auth_inv (auth_run cr ops st)"
  by (induction ops arbitrary: st) (auto intro: auth_inv_step)

lemma auth_inv_new: "auth_inv auth_new"
  by (simp add: auth_inv_def auth_new_def)

text \<open>Whatever happened to the store since it was empty, every reconnect token it still holds
  belongs to a device that is known and not revoked, and the fast path names that device.\<close>

theorem live_tokens_are_authorized:
  "\<forall>(token, pk) \<in> set (au_tokens (auth_run cr ops auth_new)).
     is_authorized (auth_run cr ops auth_new) pk \<and>
     (\<exists>pk'. authorize_token token (auth_run cr ops auth_new) = Some pk')"
proof -
  let ?st = "auth_run cr ops auth_new"
  have inv: "auth_inv ?st" by (rule auth_inv_run [OF auth_inv_new])
  have "is_authorized ?st pk \<and> (\<exists>pk'. authorize_token token ?st = Some pk')"
    if t: "(token, pk) \<in> set (au_tokens ?st)" for token pk
  proof -
    from t obtain pk' where m: "map_of (au_tokens ?st) token = Some pk'"
      by (cases "map_of (au_tokens ?st) token") (auto simp: map_of_eq_None_iff rev_image_eqI)
    with inv t have "is_authorized ?st pk" "is_authorized ?st pk'"
      by (force simp: auth_inv_def dest: map_of_SomeD)+
    with m show ?thesis by (auto simp: authorize_token_def is_authorized_def split: option.splits)
  qed
  then show ?thesis by blast
qed

section \<open>Revocation\<close>

definition cut_off :: "pubkey \<Rightarrow> auth_state \<Rightarrow> bool" where
  "cut_off pk st \<longleftrightarrow>
     (case map_of (au_devices st) pk of None \<Rightarrow> False | Some d \<Rightarrow> dr_revoked d) \<and>
     pk \<notin> snd ` set (au_tokens st)"

lemma cut_off_step:
  assumes c: "cut_off pk st" and op: "op \<noteq> OpForget pk" "op \<noteq> OpForgetSelf pk"
  shows "cut_off pk (fst (auth_step cr op st))"
proof (cases op)
  case (OpRegister raw req now)
  show ?thesis
  proof (cases rule: register_cases [of "cr_hmac cr" "cr_valid_key cr" raw req now st])
    case (refused e effs)
    with OpRegister c show ?thesis by simp
  next
    case (accepted slot)
    with c have "rq_app_pubkey req \<noteq> pk" by (auto simp: cut_off_def)
    with OpRegister c accepted show ?thesis
      by (auto simp: cut_off_def update_conv' dest!: in_update)
  qed
next
  case (OpChallenge raw pk' nonce sig)
  have "is_authorized st pk' \<Longrightarrow> pk' \<noteq> pk"
    using c by (auto simp: is_authorized_def cut_off_def split: option.splits)
  with c show ?thesis unfolding OpChallenge
    by (auto simp: verify_challenge_def issue_token_def cut_off_def dest!: in_update)
qed (use c op in \<open>auto simp: cut_off_def touch_last_seen_def set_read_only_def forget_def
      forget_self_def revoke_def set_pairing_def close_pairing_def Let_def update_conv' delete_conv'
      split: option.splits if_splits\<close>)

lemma cut_off_run:
  "cut_off pk st \<Longrightarrow> OpForget pk \<notin> set ops \<Longrightarrow> OpForgetSelf pk \<notin> set ops \<Longrightarrow>
   cut_off pk (auth_run cr ops st)"
proof (induction ops arbitrary: st)
  case (Cons op ops)
  then have "cut_off pk (fst (auth_step cr op st))" by (intro cut_off_step) auto
  with Cons show ?case by simp
qed simp

lemma cut_off_revoke: "map_of (au_devices st) pk \<noteq> None \<Longrightarrow> cut_off pk (fst (revoke pk st))"
  by (auto simp: cut_off_def revoke_def Let_def update_conv' split: option.splits)

lemma register_known:
  "map_of (au_devices st) (rq_app_pubkey req) \<noteq> None \<Longrightarrow>
   \<exists>e. fst (register hm vk raw req now st) = Inl e"
  by (cases rule: register_cases [of hm vk raw req now st]) auto

text \<open>C9: Once a known device is revoked, nothing that happens afterwards lets it back in, no
  token, no challenge, no pairing code, however many codes the operator opens: only erasing
  its record does.\<close>

theorem revocation_is_permanent:
  assumes "map_of (au_devices st) pk \<noteq> None"
    and "OpForget pk \<notin> set ops" "OpForgetSelf pk \<notin> set ops"
    and "st' = auth_run cr ops (fst (revoke pk st))"
  shows "\<not> is_authorized st' pk \<and> authorize_token token st' \<noteq> Some pk \<and>
    fst (verify_challenge vk so vf raw pk nonce sig st') = Inl Unauthorized \<and>
    (\<exists>e. fst (register hm vk raw (req\<lparr>rq_app_pubkey := pk\<rparr>) now st') = Inl e)"
proof -
  have c: "cut_off pk st'" unfolding assms(4)
    by (rule cut_off_run [OF cut_off_revoke [OF assms(1)] assms(2,3)])
  then have na: "\<not> is_authorized st' pk"
    by (auto simp: cut_off_def is_authorized_def split: option.splits)
  moreover have "authorize_token token st' \<noteq> Some pk"
  proof
    assume "authorize_token token st' = Some pk"
    then have "map_of (au_tokens st') token = Some pk"
      by (auto simp: authorize_token_def split: option.splits if_splits)
    then have "pk \<in> snd ` set (au_tokens st')" by (force dest: map_of_SomeD)
    with c show False by (simp add: cut_off_def)
  qed
  moreover have "map_of (au_devices st') pk \<noteq> None" using c by (auto simp: cut_off_def)
  then have "\<exists>e. fst (register hm vk raw (req\<lparr>rq_app_pubkey := pk\<rparr>) now st') = Inl e"
    by (intro register_known) simp
  ultimately show ?thesis by (simp add: verify_challenge_def)
qed

section \<open>Pairing codes\<close>

definition code_spent :: "auth_state \<Rightarrow> bool" where
  "code_spent st \<longleftrightarrow>
     (case au_pairing st of None \<Rightarrow> True | Some slot \<Rightarrow> ps_one_time slot \<and> ps_used slot)"

lemma code_spent_closed: "code_spent st \<Longrightarrow> \<not> pairing_open_at now st"
  by (auto simp: code_spent_def pairing_open_at_def dead_at_def split: option.splits)

lemma code_spent_register: "code_spent st \<Longrightarrow> register hm vk raw req now st = (Inl Unauthorized, st, [])"
  by (auto simp: code_spent_def register_def dead_at_def split: option.splits)

lemma code_spent_step:
  "code_spent st \<Longrightarrow> \<forall>slot. op \<noteq> OpSetPairing slot \<Longrightarrow> code_spent (fst (auth_step cr op st))"
proof (cases op)
  case (OpRegister raw req now)
  then show "code_spent st \<Longrightarrow> ?thesis" by (simp add: code_spent_register)
qed (auto simp: code_spent_def verify_challenge_def issue_token_def touch_last_seen_def
    set_read_only_def forget_def forget_self_def revoke_def close_pairing_def Let_def
    split: option.splits)

lemma code_spent_run:
  "code_spent st \<Longrightarrow> \<forall>slot. OpSetPairing slot \<notin> set ops \<Longrightarrow> code_spent (auth_run cr ops st)"
proof (induction ops arbitrary: st)
  case (Cons op ops)
  then have "code_spent (fst (auth_step cr op st))" by (intro code_spent_step) auto
  with Cons show ?case by simp
qed simp

text \<open>C28: A one-time code pairs one device: after the first registration it admits, no
  registration succeeds and the code reads as closed until the operator opens another.\<close>

theorem one_time_code_pairs_once:
  assumes "au_pairing st = Some slot" and "ps_one_time slot"
    and "register hm vk raw req now st = (Inr token, st1, effs)"
    and "\<forall>s. OpSetPairing s \<notin> set ops"
  shows "register hm' vk' raw' req' now' (auth_run cr ops st1) =
           (Inl Unauthorized, auth_run cr ops st1, []) \<and>
         \<not> pairing_open_at now' (auth_run cr ops st1)"
proof -
  have "code_spent st1"
    by (cases rule: register_cases [of hm vk raw req now st])
      (use assms in \<open>auto simp: code_spent_def\<close>)
  from code_spent_run [OF this assms(4), of cr] show ?thesis
    by (simp add: code_spent_register code_spent_closed)
qed

lemma unat_abs_diff:
  "unat (abs_diff a b) = (if unat a < unat b then unat b - unat a else unat a - unat b)"
  by (simp add: abs_diff_def word_less_nat_alt unat_sub word_le_nat_alt)

text \<open>A registration succeeds only while a code is open, with the MAC of the device's own key
  and a time within a minute under that code's secret, for a key never recorded before; the
  device gets exactly the scope and the tier the code was minted at, every other device is
  untouched, and the token answers for it.\<close>

theorem register_admits_only_code_holders:
  assumes "register hm vk raw req now st = (Inr token, st', effs)"
  shows "\<exists>slot d. au_pairing st = Some slot \<and> pairing_open_at now st \<and>
    rq_proof req = registration_proof hm (ps_secret slot) (rq_app_pubkey req) (rq_timestamp_secs req) \<and>
    unat now \<le> unat (rq_timestamp_secs req) + 60 \<and> unat (rq_timestamp_secs req) \<le> unat now + 60 \<and>
    map_of (au_devices st) (rq_app_pubkey req) = None \<and>
    map_of (au_devices st') = (map_of (au_devices st))(rq_app_pubkey req \<mapsto> d) \<and>
    dr_scope d = (case ps_session_id slot of Some s \<Rightarrow> ScopeSessions [s] | None \<Rightarrow> ScopeFull) \<and>
    dr_read_only d = ps_read_only slot \<and> \<not> dr_revoked d \<and>
    authorize_token token st' = Some (rq_app_pubkey req)"
proof (cases rule: register_cases [of hm vk raw req now st])
  case (refused e effs)
  with assms show ?thesis by simp
next
  case (accepted slot)
  have "unat now \<le> unat (rq_timestamp_secs req) + 60 \<and> unat (rq_timestamp_secs req) \<le> unat now + 60"
    using accepted(3) unat_abs_diff [of now "rq_timestamp_secs req"]
    by (auto simp: word_less_nat_alt REGISTRATION_WINDOW_SECS_def split: if_splits)
  with accepted assms show ?thesis
    by (auto simp: pairing_open_at_def authorize_token_def update_conv')
qed

section \<open>The hypotheses can hold\<close>

definition demo_crypto :: crypto where
  "demo_crypto = \<lparr>cr_hmac = (\<lambda>k m. take 32 (k @ m)), cr_valid_key = (\<lambda>k. length k = 1),
     cr_sig_ok = (\<lambda>s. length s = 1), cr_verify = (\<lambda>k n s. s = k)\<rparr>"

definition demo_req :: register_req where
  "demo_req = \<lparr>rq_app_pubkey = [9], rq_device_name = ''phone'',
     rq_proof = registration_proof (cr_hmac demo_crypto) [1] [9] 1000,
     rq_timestamp_secs = 1000, rq_session_id = None\<rparr>"

definition demo_open :: auth_state where
  "demo_open = set_pairing (with_read_only True (slot_expiring [1] (Some ''s'') True 1100)) auth_new"

definition demo_paired :: auth_state where
  "demo_paired = \<lparr>au_pairing = Some \<lparr>ps_secret = [1], ps_session_id = Some ''s'', ps_one_time = True,
       ps_read_only = True, ps_used = True, ps_expires_at = Some 1100\<rparr>,
     au_devices = [([9], \<lparr>dr_name = ''phone'', dr_revoked = False, dr_scope = ScopeSessions [''s''],
       dr_read_only = True, dr_last_seen = Some 1010\<rparr>)],
     au_tokens = [(''ab'', [9])]\<rparr>"

lemma demo_register:
  "register (cr_hmac demo_crypto) (cr_valid_key demo_crypto) [0xab] demo_req 1010 demo_open =
     (Inr ''ab'', demo_paired,
      [PersistSaved \<lparr>sd_pubkey = [9], sd_name = ''phone'', sd_sessions = Some [''s''],
         sd_revoked = False, sd_read_only = True, sd_last_seen = Some 1010\<rparr>,
       Announce (Paired \<lparr>pd_pubkey = [9], pd_name = ''phone''\<rparr>)])"
  by (simp add: register_def demo_open_def demo_req_def demo_paired_def set_pairing_def auth_new_def
      slot_expiring_def slot_new_def with_read_only_def dead_at_def abs_diff_def
      REGISTRATION_WINDOW_SECS_def demo_crypto_def issue_token_def hex_def hex_byte_def hex_digit_def
      Let_def) code_simp

lemma revocation_is_permanent_witness:
  "\<not> is_authorized (auth_run demo_crypto [OpSetPairing (slot_new [1] None False),
       OpRegister [0xcd] demo_req 1010] (fst (revoke [9] demo_paired))) [9]"
  using revocation_is_permanent [of demo_paired "[9]" "[OpSetPairing (slot_new [1] None False),
       OpRegister [0xcd] demo_req 1010]" _ demo_crypto, OF _ _ _ refl]
  by (simp add: demo_paired_def)

lemma one_time_code_pairs_once_witness:
  "\<not> pairing_open_at 1020 (auth_run demo_crypto [OpForget [9]] demo_paired)"
  using one_time_code_pairs_once [OF _ _ demo_register, of _ "[OpForget [9]]" _ _ _ _ 1020 demo_crypto]
  by (simp add: demo_open_def set_pairing_def slot_expiring_def slot_new_def with_read_only_def)

lemma register_admits_only_code_holders_witness:
  "pairing_open_at 1010 demo_open \<and> authorize_token ''ab'' demo_paired = Some [9]"
  using register_admits_only_code_holders [OF demo_register] by (auto simp: demo_req_def)

lemma live_tokens_are_authorized_witness:
  "is_authorized (auth_run demo_crypto [OpSetPairing (with_read_only True
       (slot_expiring [1] (Some ''s'') True 1100)), OpRegister [0xab] demo_req 1010] auth_new) [9]"
proof -
  have "auth_run demo_crypto [OpSetPairing (with_read_only True
       (slot_expiring [1] (Some ''s'') True 1100)), OpRegister [0xab] demo_req 1010] auth_new = demo_paired"
    using demo_register by (simp add: demo_open_def)
  with live_tokens_are_authorized [of demo_crypto "[OpSetPairing (with_read_only True
       (slot_expiring [1] (Some ''s'') True 1100)), OpRegister [0xab] demo_req 1010]"]
  show ?thesis by (simp add: demo_paired_def)
qed

end
