(* ===== verification/Remote_Acl.thy ===== *)
theory Remote_Acl
  imports Remote_Auth
begin

text \<open>
  Who may do what on a remote-controlled desktop (\<open>crates/remote-host/src/auth/peer.rs\<close>
  and \<open>acl.rs\<close>): the callers and every authorization gate the dispatcher re-runs on each
  call, over the device records of the store.
\<close>

section \<open>Callers\<close>

datatype local_scope = LocalFull | LocalSession string | LocalMcp

fun scope_allows :: "local_scope \<Rightarrow> string \<Rightarrow> bool" where
  "scope_allows LocalFull session_id = True"
| "scope_allows (LocalSession i) session_id = (i = session_id)"
| "scope_allows LocalMcp session_id = False"

definition is_full :: "local_scope \<Rightarrow> bool" where
  "is_full sc \<longleftrightarrow> sc = LocalFull"

definition is_agent_or_operator :: "local_scope \<Rightarrow> bool" where
  "is_agent_or_operator sc \<longleftrightarrow> sc \<noteq> LocalMcp"

datatype peer = PeerLocal local_scope | PeerRemote pubkey

fun remote_pubkey :: "peer \<Rightarrow> pubkey option" where
  "remote_pubkey (PeerRemote pk) = Some pk"
| "remote_pubkey (PeerLocal _) = None"

fun is_local_operator :: "peer \<Rightarrow> bool" where
  "is_local_operator (PeerLocal sc) = is_full sc"
| "is_local_operator (PeerRemote _) = False"

fun own_session :: "peer \<Rightarrow> string option" where
  "own_session (PeerLocal (LocalSession i)) = Some i"
| "own_session (PeerLocal LocalFull) = None"
| "own_session (PeerLocal LocalMcp) = None"
| "own_session (PeerRemote _) = None"

fun is_mcp :: "peer \<Rightarrow> bool" where
  "is_mcp (PeerLocal sc) = (sc = LocalMcp)"
| "is_mcp (PeerRemote _) = False"

section \<open>Gates\<close>

fun is_allowed_for :: "auth_state \<Rightarrow> peer \<Rightarrow> string \<Rightarrow> bool" where
  "is_allowed_for st (PeerLocal sc) session_id = scope_allows sc session_id"
| "is_allowed_for st (PeerRemote pk) session_id =
     (case map_of (au_devices st) pk of
        Some d \<Rightarrow>
          \<not> dr_revoked d \<and>
          (case dr_scope d of
             ScopeFull \<Rightarrow> True
           | ScopeSessions sessions \<Rightarrow> session_id \<in> set sessions)
      | None \<Rightarrow> False)"

fun may_use_terminals :: "auth_state \<Rightarrow> peer \<Rightarrow> bool" where
  "may_use_terminals st (PeerLocal sc) = is_full sc"
| "may_use_terminals st (PeerRemote pk) =
     (case map_of (au_devices st) pk of
        Some d \<Rightarrow> \<not> dr_revoked d \<and> dr_scope d = ScopeFull
      | None \<Rightarrow> False)"

definition read_only_device :: "auth_state \<Rightarrow> pubkey \<Rightarrow> bool" where
  "read_only_device st pk =
     (case map_of (au_devices st) pk of Some d \<Rightarrow> dr_read_only d | None \<Rightarrow> False)"

definition may_drive_terminals :: "auth_state \<Rightarrow> peer \<Rightarrow> bool" where
  "may_drive_terminals st peer =
     (if \<not> may_use_terminals st peer then False
      else (case peer of
              PeerLocal _ \<Rightarrow> True
            | PeerRemote pk \<Rightarrow> \<not> read_only_device st pk))"

fun may_create_sessions :: "auth_state \<Rightarrow> peer \<Rightarrow> bool" where
  "may_create_sessions st (PeerLocal sc) = is_full sc"
| "may_create_sessions st (PeerRemote pk) =
     (case map_of (au_devices st) pk of
        Some d \<Rightarrow> \<not> dr_revoked d \<and> \<not> dr_read_only d \<and> dr_scope d = ScopeFull
      | None \<Rightarrow> False)"

fun may_read_schedules :: "auth_state \<Rightarrow> peer \<Rightarrow> bool" where
  "may_read_schedules st (PeerLocal sc) = is_full sc"
| "may_read_schedules st (PeerRemote pk) =
     (case map_of (au_devices st) pk of
        Some d \<Rightarrow> \<not> dr_revoked d \<and> dr_scope d = ScopeFull
      | None \<Rightarrow> False)"

fun may_manage_schedules :: "auth_state \<Rightarrow> peer \<Rightarrow> bool" where
  "may_manage_schedules st (PeerLocal sc) = is_full sc"
| "may_manage_schedules st (PeerRemote pk) =
     (case map_of (au_devices st) pk of
        Some d \<Rightarrow> \<not> dr_revoked d \<and> \<not> dr_read_only d \<and> dr_scope d = ScopeFull
      | None \<Rightarrow> False)"

fun may_read_worktrees :: "auth_state \<Rightarrow> peer \<Rightarrow> bool" where
  "may_read_worktrees st (PeerLocal sc) = is_full sc"
| "may_read_worktrees st (PeerRemote pk) =
     (case map_of (au_devices st) pk of
        Some d \<Rightarrow> \<not> dr_revoked d \<and> dr_scope d = ScopeFull
      | None \<Rightarrow> False)"

fun may_manage_worktrees :: "auth_state \<Rightarrow> peer \<Rightarrow> bool" where
  "may_manage_worktrees st (PeerLocal sc) = is_full sc"
| "may_manage_worktrees st (PeerRemote pk) =
     (case map_of (au_devices st) pk of
        Some d \<Rightarrow> \<not> dr_revoked d \<and> \<not> dr_read_only d \<and> dr_scope d = ScopeFull
      | None \<Rightarrow> False)"

fun may_administer_pairing :: "auth_state \<Rightarrow> peer \<Rightarrow> bool" where
  "may_administer_pairing st (PeerLocal sc) = is_full sc"
| "may_administer_pairing st (PeerRemote _) = False"

definition may_write :: "auth_state \<Rightarrow> peer \<Rightarrow> string \<Rightarrow> bool" where
  "may_write st peer session_id =
     (if \<not> is_allowed_for st peer session_id then False
      else (case peer of
              PeerLocal _ \<Rightarrow> True
            | PeerRemote pk \<Rightarrow> \<not> read_only_device st pk))"

definition may_manage_heartbeats :: "auth_state \<Rightarrow> peer \<Rightarrow> string \<Rightarrow> bool" where
  "may_manage_heartbeats st peer session_id = may_write st peer session_id"

definition may_read_heartbeats :: "auth_state \<Rightarrow> peer \<Rightarrow> string \<Rightarrow> bool" where
  "may_read_heartbeats st peer session_id = is_allowed_for st peer session_id"

fun may_attempt_heartbeat_writes :: "auth_state \<Rightarrow> peer \<Rightarrow> bool" where
  "may_attempt_heartbeat_writes st (PeerLocal sc) = is_agent_or_operator sc"
| "may_attempt_heartbeat_writes st (PeerRemote pk) =
     (case map_of (au_devices st) pk of
        Some d \<Rightarrow> \<not> dr_revoked d \<and> \<not> dr_read_only d
      | None \<Rightarrow> False)"

definition may_manage_teams :: "auth_state \<Rightarrow> peer \<Rightarrow> bool" where
  "may_manage_teams st peer = may_create_sessions st peer"

fun may_spawn_child :: "auth_state \<Rightarrow> peer \<Rightarrow> string \<Rightarrow> bool" where
  "may_spawn_child st (PeerLocal LocalFull) parent_session = True"
| "may_spawn_child st (PeerLocal (LocalSession own)) parent_session = (own = parent_session)"
| "may_spawn_child st (PeerLocal LocalMcp) parent_session = False"
| "may_spawn_child st (PeerRemote pk) parent_session = may_create_sessions st (PeerRemote pk)"

definition may_reach_descendant ::
  "auth_state \<Rightarrow> peer \<Rightarrow> string \<Rightarrow> (string \<Rightarrow> string \<Rightarrow> bool) \<Rightarrow> bool" where
  "may_reach_descendant st peer target is_descendant =
     (if is_allowed_for st peer target then True
      else (case peer of
              PeerLocal (LocalSession own) \<Rightarrow> is_descendant own target
            | _ \<Rightarrow> False))"

datatype permit_authority = PermitFull | ParentLimited | Refused

fun may_answer_permit ::
  "auth_state \<Rightarrow> peer \<Rightarrow> string \<Rightarrow> (string \<times> bool) option \<Rightarrow> permit_authority" where
  "may_answer_permit st (PeerLocal LocalFull) session child_link = PermitFull"
| "may_answer_permit st (PeerLocal (LocalSession own)) session child_link =
     (if own = session then Refused
      else (case child_link of
              Some (parent, True) \<Rightarrow> (if parent = own then ParentLimited else Refused)
            | _ \<Rightarrow> Refused))"
| "may_answer_permit st (PeerLocal LocalMcp) session child_link = Refused"
| "may_answer_permit st (PeerRemote pk) session child_link =
     (if may_write st (PeerRemote pk) session then PermitFull else Refused)"

fun may_read_team_run :: "auth_state \<Rightarrow> peer \<Rightarrow> string list \<Rightarrow> bool" where
  "may_read_team_run st (PeerLocal sc) sessions \<longleftrightarrow>
     is_full sc \<or> list_ex (scope_allows sc) sessions"
| "may_read_team_run st (PeerRemote pk) sessions =
     (case map_of (au_devices st) pk of
        Some d \<Rightarrow>
          \<not> dr_revoked d \<and>
          (case dr_scope d of
             ScopeFull \<Rightarrow> True
           | ScopeSessions scoped \<Rightarrow> list_ex (\<lambda>s. s \<in> set scoped) sessions)
      | None \<Rightarrow> False)"

fun may_read_state :: "auth_state \<Rightarrow> peer \<Rightarrow> bool" where
  "may_read_state st (PeerLocal sc) = is_agent_or_operator sc"
| "may_read_state st (PeerRemote pk) = is_authorized st pk"

fun may_control_simulator :: "auth_state \<Rightarrow> peer \<Rightarrow> bool" where
  "may_control_simulator st (PeerLocal _) = True"
| "may_control_simulator st (PeerRemote _) = False"

fun may_view_simulator :: "auth_state \<Rightarrow> peer \<Rightarrow> bool" where
  "may_view_simulator st (PeerLocal _) = True"
| "may_view_simulator st (PeerRemote pk) =
     (case map_of (au_devices st) pk of
        Some d \<Rightarrow> \<not> dr_revoked d \<and> dr_scope d = ScopeFull
      | None \<Rightarrow> False)"

fun may_write_state :: "auth_state \<Rightarrow> peer \<Rightarrow> bool" where
  "may_write_state st (PeerLocal sc) = is_agent_or_operator sc"
| "may_write_state st (PeerRemote pk) =
     (case map_of (au_devices st) pk of
        Some d \<Rightarrow> \<not> dr_revoked d \<and> \<not> dr_read_only d
      | None \<Rightarrow> False)"

section \<open>The tiers of a paired device\<close>

text \<open>The gates that only read, and those whose calls change something.\<close>

definition reads :: "auth_state \<Rightarrow> peer \<Rightarrow> string \<Rightarrow> (string \<Rightarrow> string \<Rightarrow> bool) \<Rightarrow> string list \<Rightarrow> bool list" where
  "reads st peer s desc team =
     [is_allowed_for st peer s, may_read_heartbeats st peer s, may_reach_descendant st peer s desc,
      may_read_team_run st peer team, may_read_state st peer]"

definition host_reads :: "auth_state \<Rightarrow> peer \<Rightarrow> bool list" where
  "host_reads st peer =
     [may_use_terminals st peer, may_read_schedules st peer, may_read_worktrees st peer,
      may_view_simulator st peer]"

definition writes :: "auth_state \<Rightarrow> peer \<Rightarrow> string \<Rightarrow> (string \<times> bool) option \<Rightarrow> bool list" where
  "writes st peer s link =
     [may_write st peer s, may_manage_heartbeats st peer s, may_attempt_heartbeat_writes st peer,
      may_write_state st peer, may_answer_permit st peer s link \<noteq> Refused]"

definition host_writes :: "auth_state \<Rightarrow> peer \<Rightarrow> string \<Rightarrow> bool list" where
  "host_writes st peer s =
     [may_drive_terminals st peer, may_create_sessions st peer, may_manage_schedules st peer,
      may_manage_worktrees st peer, may_administer_pairing st peer, may_manage_teams st peer,
      may_spawn_child st peer s]"

lemmas gate_defs = reads_def host_reads_def writes_def host_writes_def may_read_heartbeats_def
  may_reach_descendant_def may_write_def may_manage_heartbeats_def may_drive_terminals_def
  may_manage_teams_def read_only_device_def is_authorized_def

text \<open>A device that is unknown or revoked passes no gate at all; a read-only one passes none
  whose call changes anything; one confined to sessions passes none of the host-wide gates,
  and no gate of a session outside its list; and no paired device administers pairing or
  drives the simulator, whatever its tier.\<close>

theorem device_tiers:
  "let peer = PeerRemote pk in (\<not> is_authorized st pk \<longrightarrow>
      True \<notin> set (reads st peer s desc team @ host_reads st peer @ writes st peer s link @ host_writes st peer s)) \<and>
    (read_only_device st pk \<longrightarrow> True \<notin> set (writes st peer s link @ host_writes st peer s)) \<and>
    (\<forall>d ss. map_of (au_devices st) pk = Some d \<and> dr_scope d = ScopeSessions ss \<longrightarrow>
       True \<notin> set (host_reads st peer @ host_writes st peer s) \<and>
       (s \<notin> set ss \<longrightarrow> \<not> is_allowed_for st peer s \<and> \<not> may_write st peer s \<and>
          may_answer_permit st peer s link = Refused) \<and>
       (set team \<inter> set ss = {} \<longrightarrow> \<not> may_read_team_run st peer team)) \<and>
    \<not> may_administer_pairing st peer \<and> \<not> may_control_simulator st peer"
proof (cases "map_of (au_devices st) pk")
  case None
  then show ?thesis by (simp add: gate_defs Let_def)
next
  case (Some d)
  then show ?thesis 
    by (cases "dr_scope d") (auto simp: gate_defs Let_def list_ex_iff)
qed

text \<open>A confined agent reaches its own session and its own subtree and nothing else: no
  host-wide gate, no other session, no child under another parent; it never answers its own
  prompts, and those of another only as a limited parent of an opted-in direct child.  An
  outside MCP client passes only the simulator's gates.  Every right to change a session or
  the board implies the right to see it.\<close>

theorem local_tiers:
  "(let agent = PeerLocal (LocalSession own) in
      (is_allowed_for st agent s \<longleftrightarrow> s = own) \<and> (may_write st agent s \<longleftrightarrow> s = own) \<and>
      (may_reach_descendant st agent s desc \<longleftrightarrow> s = own \<or> desc own s) \<and>
      (may_spawn_child st agent s \<longleftrightarrow> s = own) \<and>
      \<not> (may_use_terminals st agent \<or> may_drive_terminals st agent \<or> may_create_sessions st agent \<or>
         may_read_schedules st agent \<or> may_manage_schedules st agent \<or> may_read_worktrees st agent \<or>
         may_manage_worktrees st agent \<or> may_administer_pairing st agent \<or> may_manage_teams st agent) \<and>
      may_answer_permit st agent own link = Refused \<and>
      (may_answer_permit st agent s link \<noteq> Refused \<longleftrightarrow> s \<noteq> own \<and> link = Some (own, True)) \<and>
      may_answer_permit st agent s link \<noteq> PermitFull) \<and>
   (let mcp = PeerLocal LocalMcp in
      True \<notin> set (reads st mcp s desc team @ writes st mcp s link @ host_writes st mcp s) \<and>
      \<not> (may_use_terminals st mcp \<or> may_read_schedules st mcp \<or> may_read_worktrees st mcp) \<and>
      may_control_simulator st mcp \<and> may_view_simulator st mcp) \<and>
   (may_write st peer s \<longrightarrow> is_allowed_for st peer s) \<and>
   (may_drive_terminals st peer \<longrightarrow> may_use_terminals st peer) \<and>
   (may_manage_schedules st peer \<longrightarrow> may_read_schedules st peer) \<and>
   (may_manage_worktrees st peer \<longrightarrow> may_read_worktrees st peer) \<and>
   (may_write_state st peer \<longrightarrow> may_read_state st peer)"
proof -
  have "may_write st peer s \<longrightarrow> is_allowed_for st peer s"
    "may_drive_terminals st peer \<longrightarrow> may_use_terminals st peer"
    "may_manage_schedules st peer \<longrightarrow> may_read_schedules st peer"
    "may_manage_worktrees st peer \<longrightarrow> may_read_worktrees st peer"
    "may_write_state st peer \<longrightarrow> may_read_state st peer"
    by (cases peer; simp add: may_write_def may_drive_terminals_def is_authorized_def
        split: option.split)+
  then show ?thesis
    by (auto simp: Let_def gate_defs is_full_def is_agent_or_operator_def list_ex_iff
        split: option.splits bool.splits)
qed

lemma device_tiers_witness:
  "True \<notin> set (writes demo_paired (PeerRemote [9]) ''s'' None @ host_writes demo_paired (PeerRemote [9]) ''s'') \<and>
   \<not> may_write demo_paired (PeerRemote [9]) ''t'' \<and> is_allowed_for demo_paired (PeerRemote [9]) ''s''"
proof -
  have "read_only_device demo_paired [9]" by (simp add: read_only_device_def demo_paired_def)
  moreover have "map_of (au_devices demo_paired) [9] = Some \<lparr>dr_name = ''phone'', dr_revoked = False,
      dr_scope = ScopeSessions [''s''], dr_read_only = True, dr_last_seen = Some 1010\<rparr>"
    by (simp add: demo_paired_def)
  ultimately show ?thesis
    using device_tiers [where st = demo_paired and pk = "[9]" and s = "''s''" and link = None and team = "[]"]
      device_tiers [where st = demo_paired and pk = "[9]" and s = "''t''" and link = None and team = "[]"]
    by (simp add: Let_def)
qed

lemma local_tiers_witness:
  "may_write auth_new (PeerLocal (LocalSession ''a'')) ''a'' \<and>
   is_allowed_for auth_new (PeerLocal (LocalSession ''a'')) ''a'' \<and>
   \<not> may_write auth_new (PeerLocal (LocalSession ''a'')) ''b''"
  using local_tiers [where st = auth_new and own = "''a''" and s = "''a''" and link = None and
      peer = "PeerLocal (LocalSession ''a'')"]
    local_tiers [where st = auth_new and own = "''a''" and s = "''b''" and link = None and
      peer = "PeerLocal (LocalSession ''a'')"]
  by (simp add: Let_def)

end
