(* ===== verification/Remote_Persistence.thy ===== *)
theory Remote_Persistence
  imports Remote_Acl
begin

text \<open>
  The durable record of paired devices (\<open>crates/remote-host/src/auth/persistence.rs\<close> over
  \<open>crates/storage/src/repositories/remote_device.rs\<close>) and its agreement with the store in
  memory.  The table is an association list on its primary key, each SQL statement the
  change it makes to the rows; the statements succeed.  What the memory side relies on is
  the locale \<open>device_store\<close>; the table with its conversions is an instance.
\<close>

section \<open>The table\<close>

datatype remote_scope = RemoteFull | RemoteSessions "string list"

record device_row =
  rw_name :: string
  rw_scope :: string
  rw_scope_sessions :: "string option"
  rw_revoked :: bool
  rw_read_only :: bool
  rw_last_seen :: "u64 option"

type_synonym device_table = "(string \<times> device_row) list"

fun join_nl :: "string list \<Rightarrow> string" where
  "join_nl [] = []"
| "join_nl [x] = x"
| "join_nl (x # xs) = x @ CHR 0x0A # join_nl xs"

fun encode_scope :: "remote_scope \<Rightarrow> string \<times> string option" where
  "encode_scope RemoteFull = (''full'', None)"
| "encode_scope (RemoteSessions ss) = (''sessions'', Some (join_nl ss))"

definition decode_scope :: "string \<Rightarrow> string option \<Rightarrow> remote_scope" where
  "decode_scope kind sessions =
     (if kind = ''sessions'' then
        RemoteSessions (case sessions of
            None \<Rightarrow> []
          | Some s \<Rightarrow> filter (\<lambda>x. x \<noteq> []) (split_on (CHR 0x0A) s))
      else RemoteFull)"

definition repo_upsert :: "string \<Rightarrow> string \<Rightarrow> remote_scope \<Rightarrow> bool \<Rightarrow> device_table \<Rightarrow> device_table" where
  "repo_upsert pubkey name scope revoked t =
     (case encode_scope scope of
        (kind, sessions) \<Rightarrow>
          AList.update pubkey
            (case map_of t pubkey of
               None \<Rightarrow> \<lparr>rw_name = name, rw_scope = kind, rw_scope_sessions = sessions,
                        rw_revoked = revoked, rw_read_only = False, rw_last_seen = None\<rparr>
             | Some r \<Rightarrow> r\<lparr>rw_name := name, rw_scope := kind, rw_scope_sessions := sessions,
                           rw_revoked := revoked\<rparr>) t)"

definition update_row :: "string \<Rightarrow> (device_row \<Rightarrow> device_row) \<Rightarrow> device_table \<Rightarrow> device_table" where
  "update_row pubkey f t = map (\<lambda>(k, r). (k, if k = pubkey then f r else r)) t"

definition repo_set_read_only :: "string \<Rightarrow> bool \<Rightarrow> device_table \<Rightarrow> device_table" where
  "repo_set_read_only pubkey ro = update_row pubkey (\<lambda>r. r\<lparr>rw_read_only := ro\<rparr>)"

definition repo_set_revoked :: "string \<Rightarrow> bool \<Rightarrow> device_table \<Rightarrow> device_table" where
  "repo_set_revoked pubkey revoked = update_row pubkey (\<lambda>r. r\<lparr>rw_revoked := revoked\<rparr>)"

definition repo_touch_last_seen :: "u64 \<Rightarrow> string \<Rightarrow> device_table \<Rightarrow> device_table" where
  "repo_touch_last_seen now pubkey = update_row pubkey (\<lambda>r. r\<lparr>rw_last_seen := Some now\<rparr>)"

definition repo_remove :: "string \<Rightarrow> device_table \<Rightarrow> device_table" where
  "repo_remove pubkey t = AList.delete pubkey t"

section \<open>Keys as text\<close>

definition hex_value :: "char \<Rightarrow> nat option" where
  "hex_value c =
     (let n = of_char c :: nat in
      if 48 \<le> n \<and> n \<le> 57 then Some (n - 48)
      else if 97 \<le> n \<and> n \<le> 102 then Some (n - 87)
      else if 65 \<le> n \<and> n \<le> 70 then Some (n - 55)
      else None)"

text \<open>\<open>u8::from_str_radix\<close> on two characters: a leading plus sign is accepted.\<close>

definition hex_pair :: "char \<Rightarrow> char \<Rightarrow> u8 option" where
  "hex_pair a b =
     (if a = CHR ''+'' then map_option word_of_nat (hex_value b)
      else (case (hex_value a, hex_value b) of
              (Some x, Some y) \<Rightarrow> Some (word_of_nat (16 * x + y))
            | _ \<Rightarrow> None))"

fun hex_bytes :: "string \<Rightarrow> bytes option" where
  "hex_bytes [] = Some []"
| "hex_bytes [_] = None"
| "hex_bytes (a # b # rest) =
     (case hex_pair a b of
        None \<Rightarrow> None
      | Some x \<Rightarrow> map_option ((#) x) (hex_bytes rest))"

definition hex_to_pubkey :: "string \<Rightarrow> pubkey option" where
  "hex_to_pubkey s = (if length s \<noteq> 64 then None else hex_bytes s)"

definition pubkey_to_hex :: "pubkey \<Rightarrow> string" where
  "pubkey_to_hex pk = hex pk"

lemma hex_nibble: "n < 16 \<Longrightarrow> hex_value (hex_digit n) = Some n"
proof -
  assume n: "n < 16"
  define m where "m = (if n < 10 then 48 + n else 87 + n)"
  have "(of_char (char_of m :: char) :: nat) = m" using n by (simp add: m_def)
  then have "of_char (hex_digit n) = m" by (simp add: hex_digit_def m_def)
  then show ?thesis using n by (simp add: hex_value_def Let_def m_def)
qed

lemma hex_nibble_plus: "n < 16 \<Longrightarrow> hex_digit n \<noteq> CHR ''+''"
proof
  assume n: "n < 16" and e: "hex_digit n = CHR ''+''"
  have "hex_value (CHR ''+'') = None" by (simp add: hex_value_def)
  with hex_nibble [OF n] e show False by simp
qed

lemma hex_bytes_hex: "hex_bytes (hex pk) = Some pk"
proof (induction pk)
  case (Cons b pk)
  have "unat b < 256" using unsigned_less [of b, where 'a = nat] by simp
  then have "hex_pair (hex_digit (unat b div 16)) (hex_digit (unat b mod 16)) = Some b"
    by (simp add: hex_pair_def hex_nibble hex_nibble_plus less_mult_imp_div_less)
  with Cons show ?case by (simp add: hex_def hex_byte_def)
qed (simp add: hex_def)

lemma length_hex [simp]: "length (hex pk) = 2 * length pk"
  by (induction pk) (simp_all add: hex_def hex_byte_def)

lemma hex_to_pubkey_hex [simp]: "length pk = 32 \<Longrightarrow> hex_to_pubkey (hex pk) = Some pk"
  by (simp add: hex_to_pubkey_def hex_bytes_hex)

lemma hex_inj: "hex pk = hex pk' \<longleftrightarrow> pk = pk'"
  by (metis hex_bytes_hex option.inject)

section \<open>The store behind the trait\<close>

definition stored_of_row :: "pubkey \<Rightarrow> device_row \<Rightarrow> stored_device" where
  "stored_of_row pk r =
     \<lparr>sd_pubkey = pk, sd_name = rw_name r,
      sd_sessions = (case decode_scope (rw_scope r) (rw_scope_sessions r) of
                       RemoteFull \<Rightarrow> None | RemoteSessions s \<Rightarrow> Some s),
      sd_revoked = rw_revoked r, sd_read_only = rw_read_only r, sd_last_seen = rw_last_seen r\<rparr>"

definition storage_load :: "device_table \<Rightarrow> stored_device list" where
  "storage_load t =
     List.map_filter (\<lambda>(k, r). map_option (\<lambda>pk. stored_of_row pk r) (hex_to_pubkey k)) t"

definition storage_save :: "stored_device \<Rightarrow> device_table \<Rightarrow> device_table" where
  "storage_save d =
     repo_upsert (pubkey_to_hex (sd_pubkey d)) (sd_name d)
       (case sd_sessions d of None \<Rightarrow> RemoteFull | Some ss \<Rightarrow> RemoteSessions ss) (sd_revoked d)"

definition storage_set_revoked :: "pubkey \<Rightarrow> bool \<Rightarrow> device_table \<Rightarrow> device_table" where
  "storage_set_revoked pk = repo_set_revoked (pubkey_to_hex pk)"

definition storage_set_read_only :: "pubkey \<Rightarrow> bool \<Rightarrow> device_table \<Rightarrow> device_table" where
  "storage_set_read_only pk = repo_set_read_only (pubkey_to_hex pk)"

definition storage_remove :: "pubkey \<Rightarrow> device_table \<Rightarrow> device_table" where
  "storage_remove pk = repo_remove (pubkey_to_hex pk)"

definition storage_touch_last_seen :: "u64 \<Rightarrow> pubkey \<Rightarrow> device_table \<Rightarrow> device_table" where
  "storage_touch_last_seen now pk = repo_touch_last_seen now (pubkey_to_hex pk)"

text \<open>\<open>AuthStore::with_store\<close>: the state a restarted host starts from.\<close>

definition record_of :: "stored_device \<Rightarrow> device_record" where
  "record_of d =
     \<lparr>dr_name = sd_name d, dr_revoked = sd_revoked d,
      dr_scope = (case sd_sessions d of Some ss \<Rightarrow> ScopeSessions ss | None \<Rightarrow> ScopeFull),
      dr_read_only = sd_read_only d, dr_last_seen = sd_last_seen d\<rparr>"

definition with_store :: "stored_device list \<Rightarrow> auth_state" where
  "with_store ds =
     fold (\<lambda>d st. st\<lparr>au_devices := AList.update (sd_pubkey d) (record_of d) (au_devices st)\<rparr>) ds auth_new"

section \<open>What the memory side relies on\<close>

text \<open>A device's authority: the sessions it is confined to, if it is, and whether it is revoked.\<close>

definition grants :: "stored_device list \<Rightarrow> pubkey \<Rightarrow> (string list option \<times> bool) option" where
  "grants ds = map_of (map (\<lambda>d. (sd_pubkey d, (sd_sessions d, sd_revoked d))) ds)"

definition session_id_ok :: "string \<Rightarrow> bool" where
  "session_id_ok s \<longleftrightarrow> s \<noteq> [] \<and> CHR 0x0A \<notin> set s"

definition storable :: "stored_device \<Rightarrow> bool" where
  "storable d \<longleftrightarrow> length (sd_pubkey d) = 32 \<and>
     (case sd_sessions d of None \<Rightarrow> True | Some ss \<Rightarrow> ss \<noteq> [] \<and> list_all session_id_ok ss)"

text \<open>The authority the memory side holds.\<close>

definition held :: "auth_state \<Rightarrow> pubkey \<Rightarrow> (string list option \<times> bool) option" where
  "held st pk = map_option (\<lambda>d. ((case dr_scope d of ScopeFull \<Rightarrow> None | ScopeSessions ss \<Rightarrow> Some ss), dr_revoked d))
     (map_of (au_devices st) pk)"

definition op_ok :: "auth_op \<Rightarrow> bool" where
  "op_ok op =
     (case op of
        OpTouch pk _ \<Rightarrow> length pk = 32
      | OpReadOnly pk _ \<Rightarrow> length pk = 32
      | OpForget pk \<Rightarrow> length pk = 32
      | OpForgetSelf pk \<Rightarrow> length pk = 32
      | OpRevoke pk \<Rightarrow> length pk = 32
      | OpSetPairing slot \<Rightarrow> (case ps_session_id slot of None \<Rightarrow> True | Some s \<Rightarrow> session_id_ok s)
      | _ \<Rightarrow> True)"

lemma held_cong: "au_devices st' = au_devices st \<Longrightarrow> held st' = held st"
  by (rule ext) (simp add: held_def)

lemma held_update:
  "held st = g \<Longrightarrow> au_devices st' = AList.update pk d (au_devices st) \<Longrightarrow>
   held st' = g(pk \<mapsto> ((case dr_scope d of ScopeFull \<Rightarrow> None | ScopeSessions ss \<Rightarrow> Some ss), dr_revoked d))"
  by (rule ext) (auto simp: held_def update_conv')

lemma held_delete:
  "held st = g \<Longrightarrow> au_devices st' = AList.delete pk (au_devices st) \<Longrightarrow> held st' = g(pk := None)"
  by (rule ext) (auto simp: held_def delete_conv')

locale device_store =
  fixes load :: "'db \<Rightarrow> stored_device list"
    and save :: "stored_device \<Rightarrow> 'db \<Rightarrow> 'db"
    and set_revoked :: "pubkey \<Rightarrow> bool \<Rightarrow> 'db \<Rightarrow> 'db"
    and set_read_only :: "pubkey \<Rightarrow> bool \<Rightarrow> 'db \<Rightarrow> 'db"
    and remove :: "pubkey \<Rightarrow> 'db \<Rightarrow> 'db"
    and touch :: "u64 \<Rightarrow> pubkey \<Rightarrow> 'db \<Rightarrow> 'db"
    and ok :: "'db \<Rightarrow> bool"
  assumes load_distinct: "ok db \<Longrightarrow> distinct (map sd_pubkey (load db))"
    and save_law: "ok db \<Longrightarrow> storable d \<Longrightarrow>
      ok (save d db) \<and> grants (load (save d db)) = (grants (load db))(sd_pubkey d \<mapsto> (sd_sessions d, sd_revoked d))"
    and set_revoked_law: "ok db \<Longrightarrow> length pk = 32 \<Longrightarrow>
      ok (set_revoked pk b db) \<and>
      grants (load (set_revoked pk b db)) = (grants (load db))(pk := map_option (\<lambda>(s, _). (s, b)) (grants (load db) pk))"
    and set_read_only_law: "ok db \<Longrightarrow> length pk = 32 \<Longrightarrow>
      ok (set_read_only pk b db) \<and> grants (load (set_read_only pk b db)) = grants (load db)"
    and remove_law: "ok db \<Longrightarrow> length pk = 32 \<Longrightarrow>
      ok (remove pk db) \<and> grants (load (remove pk db)) = (grants (load db))(pk := None)"
    and touch_law: "ok db \<Longrightarrow> length pk = 32 \<Longrightarrow>
      ok (touch now pk db) \<and> grants (load (touch now pk db)) = grants (load db)"

begin

text \<open>The write-through of one effect.\<close>

definition write_effect :: "u64 \<Rightarrow> auth_effect \<Rightarrow> 'db \<Rightarrow> 'db" where
  "write_effect now eff db =
     (case eff of
        PersistSaved d \<Rightarrow>
          (if sd_last_seen d \<noteq> None then touch now (sd_pubkey d) (save d db) else save d db)
      | PersistRevoked pk b \<Rightarrow> set_revoked pk b db
      | PersistRemoved pk \<Rightarrow> remove pk db
      | PersistReadOnly pk b \<Rightarrow> set_read_only pk b db
      | PersistTouched pk \<Rightarrow> touch now pk db
      | Announce _ \<Rightarrow> db)"

definition in_sync :: "auth_state \<Rightarrow> 'db \<Rightarrow> bool" where
  "in_sync st db \<longleftrightarrow> ok db \<and> grants (load db) = held st \<and>
     (\<forall>slot s. au_pairing st = Some slot \<longrightarrow> ps_session_id slot = Some s \<longrightarrow> session_id_ok s)"

lemma in_sync_step:
  assumes s: "in_sync st db" and op: "op_ok op" and vk: "\<And>k. cr_valid_key cr k \<Longrightarrow> length k = 32"
    and st: "auth_step cr op st = (st', effs)"
  shows "in_sync st' (fold (write_effect now) effs db)"
proof (cases op)
  case (OpRegister raw req at)
  show ?thesis
  proof (cases rule: register_cases [of "cr_hmac cr" "cr_valid_key cr" raw req at st])
    case (refused e effs')
    have "effs' = [] \<or> (\<exists>ev. effs' = [Announce ev])"
      using refused(1) by (auto simp: register_def Let_def split: option.splits if_splits prod.splits)
    with refused st OpRegister s show ?thesis by (auto simp: write_effect_def)
  next
    case (accepted slot)
    let ?d = "\<lparr>sd_pubkey = rq_app_pubkey req, sd_name = rq_device_name req,
             sd_sessions = map_option (\<lambda>s. [s]) (ps_session_id slot), sd_revoked = False,
             sd_read_only = ps_read_only slot, sd_last_seen = Some at\<rparr>"
    have len: "length (rq_app_pubkey req) = 32" using vk accepted by blast
    have so: "storable ?d" using s accepted(1) len
      by (auto simp: storable_def in_sync_def split: option.splits)
    have okd: "ok db" using s by (simp add: in_sync_def)
    note sv = save_law [OF okd so]
    note tl = touch_law [OF conjunct1 [OF sv] len, of now]
    have dv: "au_devices st' = AList.update (rq_app_pubkey req)
            \<lparr>dr_name = rq_device_name req, dr_revoked = False,
             dr_scope = (case ps_session_id slot of Some s \<Rightarrow> ScopeSessions [s] | None \<Rightarrow> ScopeFull),
             dr_read_only = ps_read_only slot, dr_last_seen = Some at\<rparr> (au_devices st)"
      using st OpRegister accepted by auto
    have "held st' = (held st)(rq_app_pubkey req \<mapsto> (sd_sessions ?d, sd_revoked ?d))"
      using held_update [OF refl dv] by (cases "ps_session_id slot") simp_all
    moreover have "fold (write_effect now) effs db = touch now (rq_app_pubkey req) (save ?d db)"
      using st OpRegister accepted by (auto simp: write_effect_def)
    ultimately show ?thesis using s st OpRegister accepted tl sv
      by (auto simp: in_sync_def split: if_splits)
  qed
next
  case (OpChallenge raw pk nonce sg)
  have "au_devices st' = au_devices st" "au_pairing st' = au_pairing st" "effs = []"
    using st OpChallenge by (auto simp: verify_challenge_def issue_token_def split: if_splits)
  with s held_cong [of st' st] show ?thesis by (simp add: in_sync_def)
next
  case (OpTouch pk at)
  have e: "effs = [PersistTouched pk]" "au_pairing st' = au_pairing st" "held st' = held st"
    using st OpTouch by (auto simp: touch_last_seen_def held_def fun_eq_iff update_conv' split: option.splits)
  have "ok db" "length pk = 32" using s op OpTouch by (auto simp: in_sync_def op_ok_def)
  from touch_law [OF this, of now] s e show ?thesis by (simp add: in_sync_def write_effect_def)
next
  case (OpReadOnly pk b)
  have e: "effs = [PersistReadOnly pk b]" "au_pairing st' = au_pairing st" "held st' = held st"
    using st OpReadOnly by (auto simp: set_read_only_def held_def fun_eq_iff update_conv' split: option.splits)
  have "ok db" "length pk = 32" using s op OpReadOnly by (auto simp: in_sync_def op_ok_def)
  from set_read_only_law [OF this, of b] s e show ?thesis by (simp add: in_sync_def write_effect_def)
next
  case (OpForget pk)
  have e: "effs = [PersistRemoved pk]" "au_pairing st' = au_pairing st" "held st' = (held st)(pk := None)"
    using st OpForget by (auto simp: forget_def held_def fun_eq_iff delete_conv')
  have "ok db" "length pk = 32" using s op OpForget by (auto simp: in_sync_def op_ok_def)
  from remove_law [OF this] s e show ?thesis by (simp add: in_sync_def write_effect_def)
next
  case (OpForgetSelf pk)
  obtain ev where e: "effs = [PersistRemoved pk, Announce ev]" "au_pairing st' = au_pairing st"
      "held st' = (held st)(pk := None)"
    using st OpForgetSelf by (auto simp: forget_self_def forget_def Let_def held_def fun_eq_iff delete_conv')
  have "ok db" "length pk = 32" using s op OpForgetSelf by (auto simp: in_sync_def op_ok_def)
  from remove_law [OF this] s e show ?thesis by (simp add: in_sync_def write_effect_def)
next
  case (OpRevoke pk)
  have e: "effs = [PersistRevoked pk True]" "au_pairing st' = au_pairing st"
      "held st' = (held st)(pk := map_option (\<lambda>(s, _). (s, True)) (held st pk))"
    using st OpRevoke
    by (auto simp: revoke_def Let_def held_def fun_eq_iff update_conv' split: option.splits)
  have "ok db" "length pk = 32" using s op OpRevoke by (auto simp: in_sync_def op_ok_def)
  from set_revoked_law [OF this, of True] s e show ?thesis by (simp add: in_sync_def write_effect_def)
next
  case (OpSetPairing slot)
  then have "st' = st\<lparr>au_pairing := Some slot\<rparr>" "effs = []" using st by (auto simp: set_pairing_def)
  with s op OpSetPairing held_cong [of st' st] show ?thesis by (auto simp: in_sync_def op_ok_def)
next
  case OpClosePairing
  then have "st' = st\<lparr>au_pairing := None\<rparr>" "effs = []" using st by (auto simp: close_pairing_def)
  with s held_cong [of st' st] show ?thesis by (auto simp: in_sync_def)
qed

end

lemma with_store_devices:
  "map_of (au_devices (with_store ds)) pk =
     map_of (rev (map (\<lambda>d. (sd_pubkey d, record_of d)) ds)) pk"
proof -
  have "map_of (au_devices (fold (\<lambda>d st. st\<lparr>au_devices := AList.update (sd_pubkey d) (record_of d) (au_devices st)\<rparr>) ds st)) pk =
     (map_of (au_devices st) ++ map_of (rev (map (\<lambda>d. (sd_pubkey d, record_of d)) ds))) pk" for st
    by (induction ds arbitrary: st) (auto simp: update_conv' map_add_def split: option.splits)
  from this [of auth_new] show ?thesis
    by (simp add: with_store_def auth_new_def [THEN arg_cong, of au_devices])
qed

lemma with_store_fields: "au_tokens (with_store ds) = [] \<and> au_pairing (with_store ds) = None"
proof -
  have "au_tokens (fold (\<lambda>d st. st\<lparr>au_devices := AList.update (sd_pubkey d) (record_of d) (au_devices st)\<rparr>) ds st) = au_tokens st \<and>
    au_pairing (fold (\<lambda>d st. st\<lparr>au_devices := AList.update (sd_pubkey d) (record_of d) (au_devices st)\<rparr>) ds st) = au_pairing st" for st
    by (induction ds arbitrary: st) simp_all
  from this [of auth_new] show ?thesis by (simp add: with_store_def) (simp add: auth_new_def)
qed

lemma held_with_store:
  assumes "distinct (map sd_pubkey ds)"
  shows "held (with_store ds) = grants ds"
proof
  fix pk
  have "map_of (rev (map (\<lambda>d. (sd_pubkey d, record_of d)) ds)) = map_of (map (\<lambda>d. (sd_pubkey d, record_of d)) ds)"
    by (rule map_of_inject_set [THEN iffD2]) (use assms in \<open>simp_all add: comp_def rev_map flip: rev_map\<close>)
  then have "map_of (au_devices (with_store ds)) pk = map_of (map (\<lambda>d. (sd_pubkey d, record_of d)) ds) pk"
    by (simp only: with_store_devices)
  moreover have "map_option (\<lambda>d. ((case dr_scope d of ScopeFull \<Rightarrow> None | ScopeSessions ss \<Rightarrow> Some ss), dr_revoked d))
      (map_of (map (\<lambda>d. (sd_pubkey d, record_of d)) ds) pk) = grants ds pk"
    by (induction ds) (auto simp: grants_def record_of_def split: option.splits)
  ultimately show "held (with_store ds) pk = grants ds pk" by (simp add: held_def)
qed

section \<open>The table is such a store\<close>

definition key_ok :: "string \<Rightarrow> bool" where
  "key_ok k \<longleftrightarrow> (\<exists>pk. length pk = 32 \<and> k = hex pk)"

definition table_ok :: "device_table \<Rightarrow> bool" where
  "table_ok t \<longleftrightarrow> distinct (map fst t) \<and> list_all key_ok (map fst t)"

definition row_grant :: "device_row \<Rightarrow> string list option \<times> bool" where
  "row_grant r = (sd_sessions (stored_of_row [] r), rw_revoked r)"

lemma row_grant_update [simp]:
  "row_grant (r\<lparr>rw_read_only := b\<rparr>) = row_grant r"
  "row_grant (r\<lparr>rw_last_seen := t\<rparr>) = row_grant r"
  by (simp_all add: row_grant_def stored_of_row_def)

lemma storage_load_simps:
  "storage_load [] = []"
  "length pk = 32 \<Longrightarrow> storage_load ((hex pk, r) # t) = stored_of_row pk r # storage_load t"
  by (simp_all add: storage_load_def List.map_filter_def)

lemma grants_load:
  "table_ok t \<Longrightarrow>
   grants (storage_load t) pk = (if length pk = 32 then map_option row_grant (map_of t (hex pk)) else None)"
proof (induction t)
  case (Cons e t)
  obtain k r where e: "e = (k, r)" by force
  with Cons.prems obtain pk0 where k: "length pk0 = 32" "k = hex pk0" by (auto simp: table_ok_def key_ok_def)
  have "table_ok t" using Cons.prems by (simp add: table_ok_def)
  note IH = Cons.IH [OF this]
  have g: "grants (storage_load (e # t)) pk = (if pk = pk0 then Some (row_grant r) else grants (storage_load t) pk)"
    using e k by (auto simp: storage_load_simps grants_def row_grant_def stored_of_row_def)
  show ?case
  proof (cases "pk = pk0")
    case True
    with e k g show ?thesis by simp
  next
    case False
    with e k g IH show ?thesis by (simp add: hex_inj)
  qed
qed (simp add: storage_load_simps grants_def)

lemma load_keys:
  "table_ok t \<Longrightarrow> map (hex \<circ> sd_pubkey) (storage_load t) = map fst t"
proof (induction t)
  case (Cons e t)
  obtain k r where e: "e = (k, r)" by force
  with Cons.prems obtain pk0 where k: "length pk0 = 32" "k = hex pk0" by (auto simp: table_ok_def key_ok_def)
  have "table_ok t" using Cons.prems by (simp add: table_ok_def)
  from Cons.IH [OF this] e k show ?case by (simp add: storage_load_simps stored_of_row_def)
qed (simp add: storage_load_simps)

lemma update_row_keys [simp]: "map fst (update_row k f t) = map fst t"
  by (induction t) (auto simp: update_row_def)

lemma map_of_update_row:
  "map_of (update_row k f t) k' = (if k' = k then map_option f (map_of t k) else map_of t k')"
  by (induction t) (auto simp: update_row_def)

lemma split_join: "list_all session_id_ok ss \<Longrightarrow> ss \<noteq> [] \<Longrightarrow> split_on (CHR 0x0A) (join_nl ss) = ss"
  by (induction ss rule: join_nl.induct) (auto simp: session_id_ok_def)

lemma scope_round_trip:
  "ss \<noteq> [] \<Longrightarrow> list_all session_id_ok ss \<Longrightarrow>
   decode_scope (fst (encode_scope (RemoteSessions ss))) (snd (encode_scope (RemoteSessions ss))) = RemoteSessions ss"
proof -
  assume a: "ss \<noteq> []" "list_all session_id_ok ss"
  have "filter (\<lambda>x. x \<noteq> []) ss = ss" using a(2) by (induction ss) (auto simp: session_id_ok_def)
  with a show ?thesis by (simp add: decode_scope_def split_join)
qed

lemma map_of_upsert:
  "map_of (repo_upsert k nm sc rv t) = (map_of t)(k \<mapsto>
     (case map_of t k of
        None \<Rightarrow> \<lparr>rw_name = nm, rw_scope = fst (encode_scope sc), rw_scope_sessions = snd (encode_scope sc),
                 rw_revoked = rv, rw_read_only = False, rw_last_seen = None\<rparr>
      | Some r \<Rightarrow> r\<lparr>rw_name := nm, rw_scope := fst (encode_scope sc),
                    rw_scope_sessions := snd (encode_scope sc), rw_revoked := rv\<rparr>))"
  by (simp add: repo_upsert_def update_conv' split: prod.split option.split)

lemma keys_update: "set (map fst (AList.update k v t)) = insert k (set (map fst t))"
  by (auto simp: update_keys simp del: set_map)

lemma table_ok_upsert: "table_ok t \<Longrightarrow> key_ok k \<Longrightarrow> table_ok (repo_upsert k nm sc rv t)"
  by (simp add: repo_upsert_def table_ok_def distinct_update list_all_iff keys_update
      del: set_map split: prod.split option.split)

lemma table_ok_delete: "table_ok t \<Longrightarrow> table_ok (AList.delete k t)"
  using distinct_delete [of t k] by (auto simp: table_ok_def list_all_iff AList.delete_eq)

interpretation sto: device_store storage_load storage_save storage_set_revoked storage_set_read_only
  storage_remove storage_touch_last_seen table_ok
proof
  fix t :: device_table and pk :: pubkey and b :: bool and d :: stored_device and now :: u64
  show "distinct (map sd_pubkey (storage_load t))" if "table_ok t"
  proof -
    have "distinct (map (hex \<circ> sd_pubkey) (storage_load t))"
      using load_keys [OF that] that by (simp add: table_ok_def)
    then show ?thesis by (auto simp: distinct_map intro: inj_on_imageI2)
  qed
  show "table_ok (storage_save d t) \<and> grants (storage_load (storage_save d t)) =
      (grants (storage_load t))(sd_pubkey d \<mapsto> (sd_sessions d, sd_revoked d))"
    if ok: "table_ok t" and so: "storable d"
  proof
    let ?sc = "case sd_sessions d of None \<Rightarrow> RemoteFull | Some ss \<Rightarrow> RemoteSessions ss"
    have len: "length (sd_pubkey d) = 32" using so by (simp add: storable_def)
    show k: "table_ok (storage_save d t)" unfolding storage_save_def pubkey_to_hex_def
      by (rule table_ok_upsert [OF ok]) (use len in \<open>auto simp: key_ok_def\<close>)
    have sc: "decode_scope (fst (encode_scope ?sc)) (snd (encode_scope ?sc)) = ?sc"
    proof (cases "sd_sessions d")
      case None
      then show ?thesis by (simp add: decode_scope_def)
    next
      case (Some ss)
      with so have "ss \<noteq> []" "list_all session_id_ok ss" by (auto simp: storable_def)
      from scope_round_trip [OF this] Some show ?thesis by simp
    qed
    show "grants (storage_load (storage_save d t)) =
      (grants (storage_load t))(sd_pubkey d \<mapsto> (sd_sessions d, sd_revoked d))"
    proof
      fix pk
      show "grants (storage_load (storage_save d t)) pk =
        ((grants (storage_load t))(sd_pubkey d \<mapsto> (sd_sessions d, sd_revoked d))) pk"
        using grants_load [OF k] grants_load [OF ok] len sc
        by (auto simp: storage_save_def map_of_upsert pubkey_to_hex_def hex_inj row_grant_def
            stored_of_row_def split: option.splits)
    qed
  qed
  show "table_ok (storage_set_revoked pk b t) \<and> grants (storage_load (storage_set_revoked pk b t)) =
      (grants (storage_load t))(pk := map_option (\<lambda>(s, _). (s, b)) (grants (storage_load t) pk))"
    if ok: "table_ok t" and len: "length pk = 32"
  proof
    show k: "table_ok (storage_set_revoked pk b t)"
      using ok by (simp add: table_ok_def storage_set_revoked_def repo_set_revoked_def)
    show "grants (storage_load (storage_set_revoked pk b t)) =
      (grants (storage_load t))(pk := map_option (\<lambda>(s, _). (s, b)) (grants (storage_load t) pk))"
      using grants_load [OF k] grants_load [OF ok] len
      by (auto simp: fun_eq_iff storage_set_revoked_def repo_set_revoked_def map_of_update_row
          pubkey_to_hex_def hex_inj row_grant_def stored_of_row_def option.map_comp comp_def)
  qed
  show "table_ok (storage_set_read_only pk b t) \<and>
      grants (storage_load (storage_set_read_only pk b t)) = grants (storage_load t)"
    if ok: "table_ok t" and len: "length pk = 32"
  proof
    show k: "table_ok (storage_set_read_only pk b t)"
      using ok by (simp add: table_ok_def storage_set_read_only_def repo_set_read_only_def)
    show "grants (storage_load (storage_set_read_only pk b t)) = grants (storage_load t)"
      using grants_load [OF k] grants_load [OF ok]
      by (auto simp: fun_eq_iff storage_set_read_only_def repo_set_read_only_def map_of_update_row
          option.map_comp comp_def)
  qed
  show "table_ok (storage_remove pk t) \<and> grants (storage_load (storage_remove pk t)) =
      (grants (storage_load t))(pk := None)"
    if ok: "table_ok t" and len: "length pk = 32"
  proof
    show k: "table_ok (storage_remove pk t)"
      using table_ok_delete [OF ok] by (simp add: storage_remove_def repo_remove_def)
    show "grants (storage_load (storage_remove pk t)) = (grants (storage_load t))(pk := None)"
      using grants_load [OF k] grants_load [OF ok]
      by (auto simp: fun_eq_iff storage_remove_def repo_remove_def delete_conv' pubkey_to_hex_def hex_inj)
  qed
  show "table_ok (storage_touch_last_seen now pk t) \<and>
      grants (storage_load (storage_touch_last_seen now pk t)) = grants (storage_load t)"
    if ok: "table_ok t" and len: "length pk = 32"
  proof
    show k: "table_ok (storage_touch_last_seen now pk t)"
      using ok by (simp add: table_ok_def storage_touch_last_seen_def repo_touch_last_seen_def)
    show "grants (storage_load (storage_touch_last_seen now pk t)) = grants (storage_load t)"
      using grants_load [OF k] grants_load [OF ok]
      by (auto simp: fun_eq_iff storage_touch_last_seen_def repo_touch_last_seen_def map_of_update_row
          option.map_comp comp_def)
  qed
qed

section \<open>The host with its table\<close>

definition write_through :: "u64 \<Rightarrow> auth_effect \<Rightarrow> device_table \<Rightarrow> device_table" where
  "write_through now eff db =
     (case eff of
        PersistSaved d \<Rightarrow>
          (if sd_last_seen d \<noteq> None then storage_touch_last_seen now (sd_pubkey d) (storage_save d db)
           else storage_save d db)
      | PersistRevoked pk b \<Rightarrow> storage_set_revoked pk b db
      | PersistRemoved pk \<Rightarrow> storage_remove pk db
      | PersistReadOnly pk b \<Rightarrow> storage_set_read_only pk b db
      | PersistTouched pk \<Rightarrow> storage_touch_last_seen now pk db
      | Announce _ \<Rightarrow> db)"

lemma write_through_eq: "write_through = sto.write_effect"
  by (intro ext) (simp add: write_through_def sto.write_effect_def)

fun persisted_run :: "crypto \<Rightarrow> (u64 \<times> auth_op) list \<Rightarrow> auth_state \<times> device_table \<Rightarrow> auth_state \<times> device_table" where
  "persisted_run cr [] s = s"
| "persisted_run cr ((now, op) # ops) (st, db) =
     (case auth_step cr op st of
        (st', effs) \<Rightarrow> persisted_run cr ops (st', fold (write_through now) effs db))"

lemma persisted_in_sync:
  assumes vk: "\<forall>k. cr_valid_key cr k \<longrightarrow> length k = 32"
  shows "sto.in_sync st db \<Longrightarrow> \<forall>(_, op) \<in> set ops. op_ok op \<Longrightarrow>
    persisted_run cr ops (st, db) = (st', db') \<Longrightarrow> sto.in_sync st' db'"
proof (induction ops arbitrary: st db)
  case (Cons e ops)
  obtain now op where e: "e = (now, op)" by force
  obtain st1 effs where s: "auth_step cr op st = (st1, effs)" by force
  have "op_ok op" using Cons.prems(2) e by simp
  then have "sto.in_sync st1 (fold (write_through now) effs db)" unfolding write_through_eq
    using sto.in_sync_step [OF Cons.prems(1) _ _ s] vk by blast
  from Cons.IH [OF this] Cons.prems e s show ?case by simp
qed simp

lemma in_sync_new: "sto.in_sync auth_new []"
  by (simp add: sto.in_sync_def table_ok_def fun_eq_iff held_def auth_new_def storage_load_simps grants_def)

lemma held_authority:
  "is_authorized st pk = (case held st pk of None \<Rightarrow> False | Some (_, r) \<Rightarrow> \<not> r)"
  "map_option dr_scope (map_of (au_devices st) pk) =
     map_option (\<lambda>(s, _). case s of None \<Rightarrow> ScopeFull | Some ss \<Rightarrow> ScopeSessions ss) (held st pk)"
  by (cases "map_of (au_devices st) pk"; simp add: held_def is_authorized_def split: device_scope.split)+

text \<open>C18: A host that is killed and started again from its table knows the same devices, confines
  each to the same sessions and holds the same ones revoked; open codes and reconnect tokens
  do not survive.\<close>

theorem restart_keeps_authority:
  assumes "\<forall>k. cr_valid_key cr k \<longrightarrow> length k = 32" and "\<forall>(_, op) \<in> set ops. op_ok op"
    and "persisted_run cr ops (auth_new, []) = (st, db)" and "st' = with_store (storage_load db)"
  shows "is_authorized st' pk = is_authorized st pk \<and>
    map_option dr_scope (map_of (au_devices st') pk) = map_option dr_scope (map_of (au_devices st) pk) \<and>
    au_tokens st' = [] \<and> au_pairing st' = None"
proof -
  have s: "sto.in_sync st db" by (rule persisted_in_sync [OF assms(1) in_sync_new assms(2,3)])
  then have "table_ok db" by (simp add: sto.in_sync_def)
  from held_with_store [OF sto.load_distinct [OF this]] s have "held st' = held st"
    by (simp add: assms(4) sto.in_sync_def)
  then show ?thesis by (simp add: held_authority assms(4) with_store_fields)
qed

lemma upsert_new:
  "map_of db k = None \<Longrightarrow> encode_scope sc = (kind, ss) \<Longrightarrow>
   map_of (repo_upsert k nm sc rv db) k =
     Some \<lparr>rw_name = nm, rw_scope = kind, rw_scope_sessions = ss, rw_revoked = rv,
           rw_read_only = False, rw_last_seen = None\<rparr>"
  by (simp add: map_of_upsert)

lemma load_find:
  "table_ok t \<Longrightarrow> length pk = 32 \<Longrightarrow> map_of t (hex pk) = Some r \<Longrightarrow>
   map_of (map (\<lambda>d. (sd_pubkey d, record_of d)) (storage_load t)) pk = Some (record_of (stored_of_row pk r))"
proof (induction t)
  case (Cons e t)
  obtain k r' where e: "e = (k, r')" by force
  with Cons.prems(1) obtain pk0 where k: "length pk0 = 32" "k = hex pk0" by (auto simp: table_ok_def key_ok_def)
  have "table_ok t" using Cons.prems by (simp add: table_ok_def)
  from Cons.IH [OF this Cons.prems(2)] Cons.prems(3) e k show ?case
    by (auto simp: storage_load_simps stored_of_row_def hex_inj split: if_splits)
qed simp

lemma with_store_find:
  assumes "table_ok t" "length pk = 32" "map_of t (hex pk) = Some r"
  shows "map_of (au_devices (with_store (storage_load t))) pk = Some (record_of (stored_of_row pk r))"
proof -
  let ?l = "map (\<lambda>d. (sd_pubkey d, record_of d)) (storage_load t)"
  have "distinct (map fst ?l)" using sto.load_distinct [OF assms(1)] by (simp add: comp_def)
  then have "map_of (rev ?l) = map_of ?l"
    by (intro map_of_inject_set [THEN iffD2]) (simp_all add: rev_map [symmetric])
  then show ?thesis using load_find [OF assms] by (simp only: with_store_devices)
qed

text \<open>A device paired with a read-only code is refused every write until the host restarts;
  the table row its pairing wrote does not carry the tier, so after the restart it may write
  to every session it may reach.\<close>

theorem restart_forgets_read_only:
  assumes "\<forall>k. cr_valid_key cr k \<longrightarrow> length k = 32" and "\<forall>(_, op) \<in> set ops. op_ok op"
    and "persisted_run cr ops (auth_new, []) = (st, db)"
    and "au_pairing st = Some slot" and "ps_read_only slot"
    and "register (cr_hmac cr) (cr_valid_key cr) raw req at st = (Inr token, st1, effs)"
    and "st2 = with_store (storage_load (fold (write_through now) effs db))"
    and "p = PeerRemote (rq_app_pubkey req)"
  shows "\<not> may_write st1 p s \<and> may_write st2 p s = is_allowed_for st1 p s"
proof (cases rule: register_cases [of "cr_hmac cr" "cr_valid_key cr" raw req at st])
  case (refused e effs')
  with assms(6) show ?thesis by simp
next
  case (accepted slot')
  let ?pk = "rq_app_pubkey req" and ?db = "fold (write_through now) effs db"
  have sy: "sto.in_sync st db" by (rule persisted_in_sync [OF assms(1) in_sync_new assms(2,3)])
  have len: "length ?pk = 32" using assms(1) accepted by blast
  have slot: "slot' = slot" using accepted(1) assms(4) by simp
  have row: "map_of db (hex ?pk) = None"
  proof -
    have "grants (storage_load db) ?pk = None" "table_ok db"
      using sy accepted(6) by (simp_all add: sto.in_sync_def held_def)
    then show ?thesis using grants_load [of db ?pk] len by simp
  qed
  have "sto.in_sync st1 ?db" unfolding write_through_eq
    using sto.in_sync_step [OF sy, of "OpRegister raw req at" cr] assms(1,6) by (auto simp: op_ok_def)
  then have ok: "table_ok ?db" by (simp add: sto.in_sync_def)
  define sc where "sc = (case ps_session_id slot of None \<Rightarrow> RemoteFull | Some s \<Rightarrow> RemoteSessions [s])"
  have r: "map_of ?db (hex ?pk) =
     Some \<lparr>rw_name = rq_device_name req, rw_scope = fst (encode_scope sc),
           rw_scope_sessions = snd (encode_scope sc), rw_revoked = False,
           rw_read_only = False, rw_last_seen = Some now\<rparr>"
    using accepted(7) assms(6) slot row
    by (cases "ps_session_id slot")
      (auto simp: write_through_def storage_touch_last_seen_def repo_touch_last_seen_def sc_def
        storage_save_def map_of_update_row map_of_upsert pubkey_to_hex_def)
  have d1: "map_of (au_devices st1) ?pk = Some \<lparr>dr_name = rq_device_name req, dr_revoked = False,
             dr_scope = (case ps_session_id slot of Some s \<Rightarrow> ScopeSessions [s] | None \<Rightarrow> ScopeFull),
             dr_read_only = True, dr_last_seen = Some at\<rparr>"
    using accepted(7) assms(5,6) slot by (auto simp: update_conv')
  have "session_id_ok s" if "ps_session_id slot = Some s" for s
    using sy assms(4) that by (auto simp: sto.in_sync_def)
  then have sd: "decode_scope (fst (encode_scope sc)) (snd (encode_scope sc)) = sc"
    using scope_round_trip [of "[the (ps_session_id slot)]"]
    by (cases "ps_session_id slot") (simp_all add: sc_def decode_scope_def)
  show ?thesis using with_store_find [OF ok len r] d1 sd assms(7,8)
    by (cases "ps_session_id slot")
      (simp_all add: may_write_def read_only_device_def record_of_def stored_of_row_def sc_def)
qed

section \<open>The hypotheses can hold\<close>

definition demo_key :: pubkey where
  "demo_key = replicate 32 9"

definition demo_host :: crypto where
  "demo_host = demo_crypto\<lparr>cr_valid_key := (\<lambda>k. length k = 32)\<rparr>"

definition demo_slot :: pairing_slot where
  "demo_slot = with_read_only True (slot_expiring [1] (Some ''s'') True 1100)"

definition demo_pair :: register_req where
  "demo_pair = \<lparr>rq_app_pubkey = demo_key, rq_device_name = ''phone'',
     rq_proof = registration_proof (cr_hmac demo_host) [1] demo_key 1000,
     rq_timestamp_secs = 1000, rq_session_id = None\<rparr>"

definition demo_ops :: "(u64 \<times> auth_op) list" where
  "demo_ops = [(1000, OpSetPairing demo_slot)]"

lemma demo_pairs:
  "register (cr_hmac demo_host) (cr_valid_key demo_host) [0xab] demo_pair 1010 (set_pairing demo_slot auth_new) =
     (Inr ''ab'',
      \<lparr>au_pairing = Some (demo_slot\<lparr>ps_used := True\<rparr>),
       au_devices = [(demo_key, \<lparr>dr_name = ''phone'', dr_revoked = False, dr_scope = ScopeSessions [''s''],
         dr_read_only = True, dr_last_seen = Some 1010\<rparr>)],
       au_tokens = [(''ab'', demo_key)]\<rparr>,
      [PersistSaved \<lparr>sd_pubkey = demo_key, sd_name = ''phone'', sd_sessions = Some [''s''],
         sd_revoked = False, sd_read_only = True, sd_last_seen = Some 1010\<rparr>,
       Announce (Paired \<lparr>pd_pubkey = demo_key, pd_name = ''phone''\<rparr>)])"
  by (simp add: register_def demo_slot_def demo_pair_def set_pairing_def auth_new_def demo_key_def
      slot_expiring_def slot_new_def with_read_only_def dead_at_def abs_diff_def demo_host_def
      REGISTRATION_WINDOW_SECS_def demo_crypto_def issue_token_def hex_def hex_byte_def hex_digit_def
      Let_def) code_simp

lemma restart_forgets_read_only_witness:
  "may_write (with_store (storage_load (fold (write_through 1010)
     (snd (snd (register (cr_hmac demo_host) (cr_valid_key demo_host) [0xab] demo_pair 1010
       (set_pairing demo_slot auth_new)))) []))) (PeerRemote demo_key) ''s''"
  using restart_forgets_read_only [of demo_host demo_ops "set_pairing demo_slot auth_new" "[]" demo_slot
      "[0xab]" demo_pair 1010 "''ab''", OF _ _ _ _ _ demo_pairs refl refl, where now = 1010 and s = "''s''"] demo_pairs
  by (simp add: demo_host_def demo_ops_def op_ok_def demo_slot_def with_read_only_def slot_expiring_def
      slot_new_def session_id_ok_def set_pairing_def auth_new_def demo_pair_def)

lemma restart_keeps_authority_witness:
  "is_authorized (with_store (storage_load (snd (persisted_run demo_host
     (demo_ops @ [(1010, OpRegister [0xab] demo_pair 1010)]) (auth_new, []))))) demo_key"
proof -
  let ?ops = "demo_ops @ [(1010, OpRegister [0xab] demo_pair 1010)]"
  let ?r = "persisted_run demo_host ?ops (auth_new, [])"
  have "is_authorized (fst ?r) demo_key"
    using demo_pairs by (simp add: demo_ops_def is_authorized_def set_pairing_def)
  moreover have "\<forall>(_, op) \<in> set ?ops. op_ok op"
    by (simp add: demo_ops_def op_ok_def demo_slot_def with_read_only_def slot_expiring_def slot_new_def
        session_id_ok_def)
  ultimately show ?thesis
    using restart_keeps_authority [of demo_host ?ops "fst ?r" "snd ?r" _ demo_key, OF _ _ _ refl]
    by (simp add: demo_host_def)
qed

end
