(* ===== verification/Envelope.thy ===== *)
theory Envelope
  imports Prelude
begin

text \<open>
  The message a parent agent receives about its children (\<open>crates/agents/src/envelope.rs\<close>,
  with \<open>NotifyParent\<close> of \<open>lineage.rs\<close>).
\<close>

section \<open>Text\<close>

fun starts_with :: "utext \<Rightarrow> utext \<Rightarrow> bool" where
  "starts_with [] t = True"
| "starts_with (c # p) [] = False"
| "starts_with (c # p) (d # t) = (c = d \<and> starts_with p t)"

fun contains_text :: "utext \<Rightarrow> utext \<Rightarrow> bool" where
  "contains_text p [] = (p = [])"
| "contains_text p (d # t) \<longleftrightarrow> starts_with p (d # t) \<or> contains_text p t"

definition replace_char :: "nat \<Rightarrow> utext \<Rightarrow> utext \<Rightarrow> utext" where
  "replace_char c by t = concat (map (\<lambda>x. if x = c then by else [x]) t)"

section \<open>Events\<close>

definition RESULT_LIMIT :: nat where "RESULT_LIMIT = 4000"

definition EVENT_TAG :: utext where "EVENT_TAG = lit ''<oximux-event''"

definition FOOTER :: utext where
  "FOOTER = lit (''These are updates from agents you started. There is no need to '' @
     ''acknowledge them. A queued status is not a failure, so do not resend. When your own task is '' @
     ''done, report the results in your final response.'')"

datatype child_event_kind =
  EvFinished | EvFailed | EvInterrupted | EvCancelled | EvNeedsPermission | EvNeedsInput

fun kind_as_text :: "child_event_kind \<Rightarrow> utext" where
  "kind_as_text EvFinished = lit ''finished''"
| "kind_as_text EvFailed = lit ''failed''"
| "kind_as_text EvInterrupted = lit ''interrupted''"
| "kind_as_text EvCancelled = lit ''cancelled''"
| "kind_as_text EvNeedsPermission = lit ''needs_permission''"
| "kind_as_text EvNeedsInput = lit ''needs_input''"

fun is_stuck :: "child_event_kind \<Rightarrow> bool" where
  "is_stuck EvFailed = True"
| "is_stuck EvInterrupted = True"
| "is_stuck EvNeedsPermission = True"
| "is_stuck EvNeedsInput = True"
| "is_stuck _ = False"

datatype notify_parent = NotifyAuto | NotifyStuck | NotifyOff

fun admitted :: "notify_parent \<Rightarrow> child_event_kind \<Rightarrow> bool" where
  "admitted NotifyAuto kind = True"
| "admitted NotifyStuck kind = is_stuck kind"
| "admitted NotifyOff kind = False"

record permit_info =
  pi_request_id :: utext
  pi_answerable :: bool
  pi_tool :: utext
  pi_args_summary :: utext

record child_event =
  ev_kind :: child_event_kind
  ev_child :: utext
  ev_depth :: u32
  ev_title :: utext
  ev_status :: "utext option"
  ev_result :: "utext option"
  ev_permit :: "permit_info option"

section \<open>Rendering\<close>

definition escape_char :: "nat \<Rightarrow> utext" where
  "escape_char c =
     (if c = of_char CHR ''&'' then lit ''&amp;''
      else if c = of_char CHR ''<'' then lit ''&lt;''
      else if c = of_char CHR ''>'' then lit ''&gt;''
      else if c = 34 then lit ''&quot;''
      else [c])"

definition escape :: "utext \<Rightarrow> utext" where
  "escape t = concat (map escape_char t)"

definition truncate_chars :: "utext \<Rightarrow> nat \<Rightarrow> utext \<times> nat" where
  "truncate_chars t limit = (if limit < length t then (take limit t, length t - limit) else (t, 0))"

definition quoted :: "utext \<Rightarrow> utext" where
  "quoted t = 34 # t @ [34]"

definition event_line :: "child_event_kind \<Rightarrow> utext \<Rightarrow> utext" where
  "event_line kind title =
     lit ''Child '' @ quoted title @
     (case kind of
        EvFinished \<Rightarrow> lit '' finished.''
      | EvFailed \<Rightarrow> lit '' stopped with an error.''
      | EvInterrupted \<Rightarrow> lit '' was interrupted.''
      | EvCancelled \<Rightarrow> lit '' was cancelled.''
      | EvNeedsPermission \<Rightarrow> lit '' is waiting for a permission.''
      | EvNeedsInput \<Rightarrow> lit '' asked a question and is waiting.'')"

definition render_open :: "child_event \<Rightarrow> utext" where
  "render_open e =
     EVENT_TAG @ lit '' kind='' @ quoted (kind_as_text (ev_kind e)) @
     lit '' child='' @ quoted (escape (ev_child e)) @
     lit '' depth='' @ quoted (dec_text (unat (ev_depth e))) @ lit ''>'' @ [10]"

definition render_status :: "child_event \<Rightarrow> utext" where
  "render_status e =
     (case ev_status e of
        Some s \<Rightarrow> if s \<noteq> [] then lit '' ('' @ escape s @ lit '')'' else []
      | None \<Rightarrow> []) @ [10]"

definition render_permit :: "child_event \<Rightarrow> utext" where
  "render_permit e =
     (case ev_permit e of
        None \<Rightarrow> []
      | Some p \<Rightarrow>
          lit ''<permit req='' @ quoted (escape (pi_request_id p)) @
          lit '' answerable='' @ quoted (if pi_answerable p then lit ''true'' else lit ''false'') @
          lit '' tool='' @ quoted (escape (pi_tool p)) @ lit ''>'' @
          escape (pi_args_summary p) @ lit ''</permit>'' @ [10])"

definition render_result :: "child_event \<Rightarrow> utext" where
  "render_result e =
     (case ev_result e of
        None \<Rightarrow> []
      | Some r \<Rightarrow>
          if r = [] then []
          else (case truncate_chars r RESULT_LIMIT of
                  (kept, n) \<Rightarrow>
                    (if n > 0
                     then lit ''<result truncated='' @ quoted (dec_text n) @ lit '' more='' @
                          quoted (lit ''oximux_read_agent child='' @ escape (ev_child e)) @ lit ''>''
                     else lit ''<result>'') @
                    escape kept @ lit ''</result>'' @ [10]))"

definition render_one :: "child_event \<Rightarrow> utext" where
  "render_one e =
     render_open e @ event_line (ev_kind e) (escape (ev_title e)) @ render_status e @
     render_permit e @ render_result e @ lit ''</oximux-event>'' @ [10]"

definition render :: "child_event list \<Rightarrow> utext" where
  "render events =
     (if events = [] then []
      else lit ''<oximux-events>'' @ [10] @ concat (map render_one events) @ FOOTER @ [10] @
           lit ''</oximux-events>'')"

definition neutralize_forged :: "utext \<Rightarrow> utext" where
  "neutralize_forged t =
     (if contains_text EVENT_TAG t \<or> contains_text (lit ''</oximux-event'') t
      then replace_char (of_char CHR ''>'') (lit ''&gt;'') (replace_char (of_char CHR ''<'') (lit ''&lt;'') t)
      else t)"

section \<open>What a reader of the markup sees\<close>

text \<open>The names of the tags of a text, in order: what follows an angle bracket up to a space,
  a line end or the closing bracket.\<close>

definition name_end :: "nat \<Rightarrow> bool" where
  "name_end c \<longleftrightarrow> c = 32 \<or> c = 10 \<or> c = 62"

fun tags :: "utext \<Rightarrow> utext list" where
  "tags [] = []"
| "tags (c # t) = (if c = 60 then takeWhile (\<lambda>c. \<not> name_end c) t # tags t else tags t)"

definition event_tags :: "child_event \<Rightarrow> utext list" where
  "event_tags e =
     [lit ''oximux-event''] @
     (if ev_permit e \<noteq> None then [lit ''permit'', lit ''/permit''] else []) @
     (if ev_result e \<noteq> None \<and> ev_result e \<noteq> Some [] then [lit ''result'', lit ''/result''] else []) @
     [lit ''/oximux-event'']"

lemma tags_plain: "60 \<notin> set a \<Longrightarrow> tags (a @ b) = tags b"
  by (induction a) auto

lemma tags_open:
  "60 \<notin> set n \<Longrightarrow> \<forall>c \<in> set n. \<not> name_end c \<Longrightarrow> name_end d \<Longrightarrow>
   tags (60 # n @ d # b) = n # tags (d # b)"
  by (simp add: tags_plain takeWhile_append)

lemma escape_plain [simp]: "60 \<notin> set (escape t)" "62 \<notin> set (escape t)" "34 \<notin> set (escape t)"
  by (auto simp: escape_def escape_char_def split: if_splits)

lemma dec_plain [simp]: "60 \<notin> set (dec_text n)"
proof -
  have "\<forall>d \<in> set (dec_digits n). d < 10"
  proof (induction n rule: dec_digits.induct)
    case (1 n)
    then show ?case by (subst dec_digits.simps) auto
  qed
  then show ?thesis by (auto simp: dec_text_def)
qed

lemma event_line_plain [simp]: "60 \<notin> set t \<Longrightarrow> 60 \<notin> set (event_line k t)"
  by (cases k) (simp_all add: event_line_def quoted_def)

lemma kind_plain [simp]: "60 \<notin> set (kind_as_text k)"
  by (cases k) simp_all

lemma quoted_plain [simp]: "60 \<in> set (quoted t) \<longleftrightarrow> 60 \<in> set t"
  by (simp add: quoted_def)

lemma tags_render_open: "tags (render_open e @ b) = lit ''oximux-event'' # tags b"
  by (simp add: render_open_def EVENT_TAG_def tags_plain name_end_def)

lemma tags_render_status: "tags (render_status e @ b) = tags b"
  by (simp add: render_status_def tags_plain split: option.split)

lemma tags_render_permit:
  "tags (render_permit e @ b) =
     (if ev_permit e \<noteq> None then [lit ''permit'', lit ''/permit''] else []) @ tags b"
  by (simp add: render_permit_def tags_plain name_end_def split: option.split)

lemma tags_render_result:
  "tags (render_result e @ b) =
     (if ev_result e \<noteq> None \<and> ev_result e \<noteq> Some [] then [lit ''result'', lit ''/result''] else []) @ tags b"
  by (simp add: render_result_def tags_plain name_end_def split: option.split prod.split)

lemma tags_render_one: "tags (render_one e @ b) = event_tags e @ tags b"
  by (simp add: render_one_def tags_render_open tags_render_status tags_render_permit
      tags_render_result tags_plain event_tags_def) (simp add: name_end_def)

lemma tags_render_events: "tags (concat (map render_one es) @ b) = concat (map event_tags es) @ tags b"
  by (induction es) (simp_all add: tags_render_one)

text \<open>Nothing a child can say forms markup: whatever its name, title, status, result and
  permission texts are, the tags of a rendered batch are those of the template, one event
  element per event, a permit element for each prompt and a result element for each
  non-empty result, properly nested.\<close>

theorem envelope_tags_are_the_templates:
  "tags (render es) =
     (if es = [] then []
      else [lit ''oximux-events''] @ concat (map event_tags es) @ [lit ''/oximux-events''])"
proof -
  have "tags (FOOTER @ b) = tags b" for b
    by (rule tags_plain) (simp add: FOOTER_def)
  then show ?thesis by (simp add: render_def tags_render_events name_end_def)
qed

lemma replace_char_gone: "c \<notin> set by \<Longrightarrow> c \<notin> set (replace_char c by t)"
  by (auto simp: replace_char_def)

lemma replace_char_keeps: "c \<notin> set t \<Longrightarrow> c \<notin> set by \<Longrightarrow> c \<notin> set (replace_char d by t)"
  by (auto simp: replace_char_def)

lemma contains_needs_head: "contains_text (c # p) t \<Longrightarrow> c \<in> set t"
  by (induction t) auto

lemma neutralize_no_event:
  "\<not> contains_text EVENT_TAG (neutralize_forged t) \<and> \<not> contains_text (lit ''</oximux-event'') (neutralize_forged t)"
proof -
  have "60 \<notin> set (replace_char 62 (lit ''&gt;'') (replace_char 60 (lit ''&lt;'') t))"
    by (intro replace_char_keeps replace_char_gone) simp_all
  then show ?thesis
    by (auto simp: neutralize_forged_def EVENT_TAG_def dest!: contains_needs_head)
qed

end
