(* ===== verification/Send_Gate.thy ===== *)
theory Send_Gate
  imports Envelope "HOL-Library.Multiset"
begin

text \<open>
  The queue every message to a chat session goes through
  (\<open>crates/agents/src/send_gate.rs\<close>).  A method returns the gate it leaves, what it hands
  out and whether it called the waker; \<open>uuid_text\<close> is \<open>Uuid::to_string\<close> and \<open>uuid_parse\<close>
  \<open>Uuid::parse_str\<close>, fresh uuids are arguments.
\<close>

section \<open>Data\<close>

type_synonym uuid = "128 word"

datatype send_wait =
    WaitNone | WaitBusy | WaitStarting | WaitInteraction | WaitLimited | WaitHeldRestored
  | WaitHostOffline | WaitStoppedByUser

datatype delivery_mode = Queue | Steer

datatype send_source = User | RemoteClient | Agent | ParentEvent | Recovery

definition held_by_stop :: "send_source \<Rightarrow> bool" where
  "held_by_stop s \<longleftrightarrow> s = ParentEvent \<or> s = Agent \<or> s = Recovery"

definition is_remote :: "send_source \<Rightarrow> bool" where
  "is_remote s \<longleftrightarrow> s \<noteq> User"

record steered =
  st_text :: utext
  st_source :: send_source

record gate_holds =
  h_turn_active :: bool
  h_interrupted :: bool
  h_disconnected :: bool
  h_retry_armed :: bool
  h_prompt_pending :: bool
  h_failed :: bool
  h_turn_started :: bool
  h_steer_supported :: bool

record chat_image =
  ci_media_type :: utext
  ci_data :: utext

record queued_send =
  qs_id :: u64
  qs_uuid :: uuid
  qs_text :: utext
  qs_images :: "chat_image list"
  qs_mode :: delivery_mode
  qs_source :: send_source

datatype ready_state = ReadyIdle | ReadyFlush | ReadySteer

record send_gate =
  g_queue :: "queued_send list"
  g_next_id :: u64
  g_waker :: bool
  g_turn_active :: bool
  g_turn_started :: bool
  g_interrupted :: bool
  g_disconnected :: bool
  g_retry_armed :: bool
  g_prompt_pending :: bool
  g_failed :: bool
  g_stopped_by_user :: bool
  g_steer_supported :: bool
  g_turn_source :: "send_source option"
  g_unstarted :: "(uuid \<times> steered option) list"
  g_stop_requested :: bool
  g_unreported :: "(uuid \<times> bool) option"
  g_carried :: "(uuid \<times> string list) list"

definition CARRIED_KEPT :: nat where "CARRIED_KEPT = 16"

definition gate_new :: send_gate where
  "gate_new =
     \<lparr>g_queue = [], g_next_id = 0, g_waker = False, g_turn_active = False, g_turn_started = False,
      g_interrupted = False, g_disconnected = False, g_retry_armed = False,
      g_prompt_pending = False, g_failed = False, g_stopped_by_user = False,
      g_steer_supported = False, g_turn_source = None, g_unstarted = [], g_stop_requested = False,
      g_unreported = None, g_carried = []\<rparr>"

section \<open>Removing the first that fits\<close>

text \<open>\<open>position\<close> followed by \<open>remove\<close>: the element taken out and what is left.\<close>

fun take_first :: "('a \<Rightarrow> bool) \<Rightarrow> 'a list \<Rightarrow> ('a \<times> 'a list) option" where
  "take_first P [] = None"
| "take_first P (x # xs) =
     (if P x then Some (x, xs) else map_option (\<lambda>(y, ys). (y, x # ys)) (take_first P xs))"

lemma take_first_None: "take_first P xs = None \<longleftrightarrow> (\<forall>x \<in> set xs. \<not> P x)"
  by (induction xs) auto

lemma take_first_Some:
  "take_first P xs = Some (y, ys) \<Longrightarrow>
   \<exists>pre post. xs = pre @ y # post \<and> ys = pre @ post \<and> P y \<and> (\<forall>x \<in> set pre. \<not> P x)"
proof (induction xs arbitrary: ys)
  case (Cons x xs)
  show ?case
  proof (cases "P x")
    case True
    with Cons.prems have "x # xs = [] @ y # ys \<and> ys = [] @ ys \<and> P y \<and> (\<forall>x \<in> set []. \<not> P x)" by auto
    then show ?thesis by blast
  next
    case False
    with Cons.prems obtain zs where "take_first P xs = Some (y, zs)" "ys = x # zs" by auto
    with Cons.IH obtain pre post where "xs = pre @ y # post" "zs = pre @ post" "P y" "\<forall>x \<in> set pre. \<not> P x"
      by blast
    with False \<open>ys = x # zs\<close> show ?thesis by (intro exI [of _ "x # pre"] exI [of _ post]) auto
  qed
qed simp

lemma take_first_mset: "take_first P xs = Some (y, ys) \<Longrightarrow> mset xs = add_mset y (mset ys)"
  by (auto dest!: take_first_Some)

section \<open>What may go\<close>

definition gate_stopped :: "send_gate \<Rightarrow> bool" where
  "gate_stopped g \<longleftrightarrow> g_interrupted g \<or> g_stopped_by_user g"

definition gate_open :: "send_gate \<Rightarrow> bool" where
  "gate_open g \<longleftrightarrow>
     \<not> g_turn_active g \<and> \<not> g_disconnected g \<and> \<not> g_retry_armed g \<and> \<not> g_prompt_pending g"

definition may_start :: "send_gate \<Rightarrow> queued_send \<Rightarrow> bool" where
  "may_start g q \<longleftrightarrow> \<not> held_by_stop (qs_source q) \<or> \<not> (gate_stopped g \<or> g_failed g)"

definition next_sendable :: "send_gate \<Rightarrow> (queued_send \<times> queued_send list) option" where
  "next_sendable g = (if \<not> gate_open g then None else take_first (may_start g) (g_queue g))"

definition steer_available :: "send_gate \<Rightarrow> bool" where
  "steer_available g \<longleftrightarrow>
     g_steer_supported g \<and> g_turn_active g \<and> g_turn_started g \<and> \<not> g_interrupted g \<and>
     \<not> g_disconnected g \<and> \<not> g_retry_armed g \<and> \<not> g_prompt_pending g \<and> \<not> g_stopped_by_user g"

definition wait_of :: "send_gate \<Rightarrow> queued_send \<Rightarrow> send_wait" where
  "wait_of g q =
     (if held_by_stop (qs_source q) \<and> gate_stopped g then WaitStoppedByUser
      else if g_disconnected g then WaitHostOffline
      else if g_prompt_pending g then WaitInteraction
      else if g_retry_armed g then WaitLimited
      else if held_by_stop (qs_source q) \<and> g_failed g then WaitBusy
      else if g_turn_active g then
        (if qs_mode q = Steer \<and> g_steer_supported g \<and> \<not> g_turn_started g then WaitStarting
         else if \<not> (qs_mode q = Steer \<and> steer_available g) then WaitBusy
         else WaitNone)
      else WaitNone)"

definition ready :: "send_gate \<Rightarrow> ready_state" where
  "ready g =
     (if steer_available g \<and> list_ex (\<lambda>q. qs_mode q = Steer) (g_queue g) then ReadySteer
      else if next_sendable g \<noteq> None then ReadyFlush
      else ReadyIdle)"

definition wake_if_ready :: "send_gate \<Rightarrow> bool" where
  "wake_if_ready g \<longleftrightarrow> ready g \<noteq> ReadyIdle \<and> g_waker g"

section \<open>The queue\<close>

definition push ::
  "utext \<Rightarrow> chat_image list \<Rightarrow> send_source \<Rightarrow> delivery_mode \<Rightarrow> uuid option \<Rightarrow> uuid \<Rightarrow> send_gate \<Rightarrow>
   (u64 \<times> uuid) \<times> send_gate \<times> bool" where
  "push txt images source mode uuid fresh g =
     (let i = g_next_id g + 1;
          u = (case uuid of Some u \<Rightarrow> u | None \<Rightarrow> fresh);
          txt' = (if source = ParentEvent then txt else neutralize_forged txt);
          q = \<lparr>qs_id = i, qs_uuid = u, qs_text = txt', qs_images = images, qs_mode = mode,
               qs_source = source\<rparr>;
          g' = g\<lparr>g_next_id := i, g_queue := g_queue g @ [q]\<rparr>
      in ((i, u), g', wake_if_ready g'))"

definition remove_item :: "u64 \<Rightarrow> send_gate \<Rightarrow> queued_send option \<times> send_gate" where
  "remove_item i g =
     (case take_first (\<lambda>q. qs_id q = i) (g_queue g) of
        None \<Rightarrow> (None, g)
      | Some (q, rest) \<Rightarrow> (Some q, g\<lparr>g_queue := rest\<rparr>))"

definition requeue_front :: "queued_send \<Rightarrow> send_gate \<Rightarrow> send_gate" where
  "requeue_front q g = g\<lparr>g_queue := q # g_queue g\<rparr>"

definition begin_turn :: "send_source \<Rightarrow> send_gate \<Rightarrow> send_gate" where
  "begin_turn source g =
     g\<lparr>g_turn_active := True, g_turn_started := False, g_turn_source := Some source\<rparr>"

definition take_next_if_open :: "send_gate \<Rightarrow> queued_send option \<times> send_gate" where
  "take_next_if_open g =
     (case next_sendable g of
        None \<Rightarrow> (None, g)
      | Some (q, rest) \<Rightarrow> (Some q, begin_turn (qs_source q) (g\<lparr>g_queue := rest\<rparr>)))"

definition take_steerable :: "send_gate \<Rightarrow> queued_send option \<times> send_gate" where
  "take_steerable g =
     (if \<not> steer_available g then (None, g)
      else (case take_first (\<lambda>q. qs_mode q = Steer) (g_queue g) of
              None \<Rightarrow> (None, g)
            | Some (q, rest) \<Rightarrow> (Some q, g\<lparr>g_queue := rest\<rparr>)))"

definition steer_now :: "u64 \<Rightarrow> send_gate \<Rightarrow> queued_send option \<times> send_gate" where
  "steer_now i g = (if \<not> steer_available g then (None, g) else remove_item i g)"

definition take_held_events :: "send_gate \<Rightarrow> queued_send list \<times> send_gate" where
  "take_held_events g =
     (let g1 = g\<lparr>g_stopped_by_user := False\<rparr> in
      (filter (\<lambda>q. qs_source q = ParentEvent) (g_queue g1),
       g1\<lparr>g_queue := filter (\<lambda>q. qs_source q \<noteq> ParentEvent) (g_queue g1)\<rparr>))"

section \<open>Lines in flight\<close>

definition note_steered :: "uuid \<Rightarrow> steered option \<Rightarrow> send_gate \<Rightarrow> send_gate" where
  "note_steered u s g = g\<lparr>g_unstarted := g_unstarted g @ [(u, s)]\<rparr>"

definition note_accepted ::
  "(uuid \<Rightarrow> string) \<Rightarrow> string \<Rightarrow> send_gate \<Rightarrow> send_source option \<times> send_gate" where
  "note_accepted uuid_text u g =
     (case take_first (\<lambda>(v, _). uuid_text v = u) (g_unstarted g) of
        None \<Rightarrow> (None, g)
      | Some ((_, s), rest) \<Rightarrow>
          (Some (case s of None \<Rightarrow> ParentEvent | Some s \<Rightarrow> st_source s), g\<lparr>g_unstarted := rest\<rparr>))"

definition take_steered ::
  "(uuid \<Rightarrow> string) \<Rightarrow> string \<Rightarrow> send_gate \<Rightarrow> steered option option \<times> send_gate" where
  "take_steered uuid_text u g =
     (case take_first (\<lambda>(v, _). uuid_text v = u) (g_unstarted g) of
        None \<Rightarrow> (None, g)
      | Some ((_, s), rest) \<Rightarrow> (Some s, g\<lparr>g_unstarted := rest\<rparr>))"

definition awaiting_steer :: "send_gate \<Rightarrow> bool" where
  "awaiting_steer g \<longleftrightarrow> g_unstarted g \<noteq> []"

definition take_unstarted :: "send_gate \<Rightarrow> (uuid \<times> steered option) list \<times> send_gate" where
  "take_unstarted g = (g_unstarted g, g\<lparr>g_unstarted := []\<rparr>)"

definition request_stop :: "send_gate \<Rightarrow> send_gate \<times> bool" where
  "request_stop g = (g\<lparr>g_stop_requested := True\<rparr>, g_waker g)"

definition take_stop_request :: "send_gate \<Rightarrow> bool \<times> send_gate" where
  "take_stop_request g = (g_stop_requested g, g\<lparr>g_stop_requested := False\<rparr>)"

definition note_unreported :: "uuid \<Rightarrow> send_gate \<Rightarrow> send_gate" where
  "note_unreported u g = g\<lparr>g_unreported := Some (u, False)\<rparr>"

definition unreported_accepted :: "send_gate \<Rightarrow> uuid option \<times> send_gate" where
  "unreported_accepted g =
     (case g_unreported g of
        Some (u, False) \<Rightarrow> (Some u, g\<lparr>g_unreported := Some (u, True)\<rparr>)
      | _ \<Rightarrow> (None, g))"

definition unreported_delivered :: "send_gate \<Rightarrow> uuid option \<times> send_gate" where
  "unreported_delivered g =
     (case g_unreported g of
        Some (u, True) \<Rightarrow> (Some u, g\<lparr>g_unreported := None\<rparr>)
      | _ \<Rightarrow> (None, g))"

fun add_key :: "uuid \<Rightarrow> string \<Rightarrow> (uuid \<times> string list) list \<Rightarrow> (uuid \<times> string list) list" where
  "add_key line key [] = []"
| "add_key line key ((l, ks) # rest) =
     (if l = line then (l, ks @ [key]) # rest else (l, ks) # add_key line key rest)"

definition note_carried :: "uuid \<Rightarrow> string \<Rightarrow> send_gate \<Rightarrow> send_gate" where
  "note_carried line key g =
     (if list_ex (\<lambda>(l, _). l = line) (g_carried g)
      then g\<lparr>g_carried := add_key line key (g_carried g)\<rparr>
      else
        (let kept = (if length (g_carried g) = CARRIED_KEPT then tl (g_carried g) else g_carried g)
         in g\<lparr>g_carried := kept @ [(line, [key])]\<rparr>))"

definition carried_by :: "(string \<Rightarrow> uuid option) \<Rightarrow> string \<Rightarrow> send_gate \<Rightarrow> string list" where
  "carried_by uuid_parse line g =
     (case uuid_parse line of
        None \<Rightarrow> []
      | Some l \<Rightarrow> (case map_of (g_carried g) l of Some ks \<Rightarrow> ks | None \<Rightarrow> []))"

section \<open>What the owner reports\<close>

definition set_holds :: "gate_holds \<Rightarrow> send_gate \<Rightarrow> send_gate \<times> bool" where
  "set_holds h g =
     (let was = ready g;
          g1 = (if h_turn_active h \<and> \<not> g_turn_active g then g\<lparr>g_turn_started := False\<rparr> else g);
          g2 = (if \<not> h_turn_active h then g1\<lparr>g_turn_started := False, g_turn_source := None\<rparr> else g1);
          g3 = g2\<lparr>g_turn_active := h_turn_active h,
                  g_turn_started := h_turn_active h \<and> h_turn_started h,
                  g_steer_supported := h_steer_supported h,
                  g_interrupted := h_interrupted h,
                  g_disconnected := h_disconnected h,
                  g_retry_armed := h_retry_armed h,
                  g_prompt_pending := h_prompt_pending h,
                  g_failed := h_failed h\<rparr>
      in (g3, ready g3 \<noteq> was \<and> wake_if_ready g3))"

definition on_turn_started :: "send_gate \<Rightarrow> send_gate \<times> bool" where
  "on_turn_started g =
     (if g_turn_active g then (let g' = g\<lparr>g_turn_started := True\<rparr> in (g', wake_if_ready g'))
      else (g, False))"

definition on_turn_end :: "send_gate \<Rightarrow> send_gate \<times> bool" where
  "on_turn_end g =
     (let g' = g\<lparr>g_turn_active := False, g_turn_started := False, g_turn_source := None\<rparr>
      in (g', wake_if_ready g'))"

definition turn_started_by_events :: "send_gate \<Rightarrow> bool" where
  "turn_started_by_events g \<longleftrightarrow> g_turn_source g = Some ParentEvent"

definition set_prompt_pending :: "bool \<Rightarrow> send_gate \<Rightarrow> send_gate \<times> bool" where
  "set_prompt_pending b g = (let g' = g\<lparr>g_prompt_pending := b\<rparr> in (g', wake_if_ready g'))"

definition set_retry_armed :: "bool \<Rightarrow> send_gate \<Rightarrow> send_gate \<times> bool" where
  "set_retry_armed b g = (let g' = g\<lparr>g_retry_armed := b\<rparr> in (g', wake_if_ready g'))"

definition set_disconnected :: "bool \<Rightarrow> send_gate \<Rightarrow> send_gate \<times> bool" where
  "set_disconnected b g =
     (let g1 = g\<lparr>g_disconnected := b\<rparr>;
          g' = (if b then g1\<lparr>g_turn_active := False, g_turn_started := False\<rparr> else g1)
      in (g', wake_if_ready g'))"

definition set_interrupted :: "bool \<Rightarrow> send_gate \<Rightarrow> send_gate \<times> bool" where
  "set_interrupted b g =
     (let g1 = g\<lparr>g_interrupted := b\<rparr>;
          g' = (if b then g1\<lparr>g_turn_active := False, g_turn_started := False\<rparr> else g1)
      in (g', wake_if_ready g'))"

definition stop_by_user :: "send_gate \<Rightarrow> send_gate" where
  "stop_by_user g = g\<lparr>g_stopped_by_user := True\<rparr>"

definition clear_stop :: "send_gate \<Rightarrow> send_gate \<times> bool" where
  "clear_stop g = (let g' = g\<lparr>g_stopped_by_user := False\<rparr> in (g', wake_if_ready g'))"

definition set_steer_supported :: "bool \<Rightarrow> send_gate \<Rightarrow> send_gate \<times> bool" where
  "set_steer_supported b g = (let g' = g\<lparr>g_steer_supported := b\<rparr> in (g', wake_if_ready g'))"

definition set_waker :: "bool \<Rightarrow> send_gate \<Rightarrow> send_gate" where
  "set_waker b g = g\<lparr>g_waker := b\<rparr>"

section \<open>A session's gate over time\<close>

datatype gate_op =
    GPush utext "chat_image list" send_source delivery_mode "uuid option" uuid
  | GRemove u64 | GRequeue queued_send | GTakeNext | GTakeSteerable | GSteerNow u64 | GTakeHeld
  | GBeginTurn send_source | GHolds gate_holds | GTurnStarted | GTurnEnd
  | GPrompt bool | GRetry bool | GDisconnected bool | GInterrupted bool
  | GStop | GClearStop | GSteerSupported bool
  | GNoteSteered uuid "steered option" | GNoteAccepted string | GTakeSteered string | GTakeUnstarted
  | GRequestStop | GTakeStopRequest
  | GNoteUnreported uuid | GUnreportedAccepted | GUnreportedDelivered
  | GNoteCarried uuid string | GSetWaker bool

definition opt_list :: "'a option \<Rightarrow> 'a list" where
  "opt_list x = (case x of None \<Rightarrow> [] | Some y \<Rightarrow> [y])"

fun gate_step ::
  "(uuid \<Rightarrow> string) \<Rightarrow> gate_op \<Rightarrow> send_gate \<Rightarrow> queued_send list \<times> send_gate \<times> bool" where
  "gate_step ut (GPush t im src md u fresh) g = ([], snd (push t im src md u fresh g))"
| "gate_step ut (GRemove i) g = (case remove_item i g of (q, g') \<Rightarrow> (opt_list q, g', False))"
| "gate_step ut (GRequeue q) g = ([], requeue_front q g, False)"
| "gate_step ut GTakeNext g = (case take_next_if_open g of (q, g') \<Rightarrow> (opt_list q, g', False))"
| "gate_step ut GTakeSteerable g = (case take_steerable g of (q, g') \<Rightarrow> (opt_list q, g', False))"
| "gate_step ut (GSteerNow i) g = (case steer_now i g of (q, g') \<Rightarrow> (opt_list q, g', False))"
| "gate_step ut GTakeHeld g = (case take_held_events g of (qs, g') \<Rightarrow> (qs, g', False))"
| "gate_step ut (GBeginTurn src) g = ([], begin_turn src g, False)"
| "gate_step ut (GHolds h) g = ([], set_holds h g)"
| "gate_step ut GTurnStarted g = ([], on_turn_started g)"
| "gate_step ut GTurnEnd g = ([], on_turn_end g)"
| "gate_step ut (GPrompt b) g = ([], set_prompt_pending b g)"
| "gate_step ut (GRetry b) g = ([], set_retry_armed b g)"
| "gate_step ut (GDisconnected b) g = ([], set_disconnected b g)"
| "gate_step ut (GInterrupted b) g = ([], set_interrupted b g)"
| "gate_step ut GStop g = ([], stop_by_user g, False)"
| "gate_step ut GClearStop g = ([], clear_stop g)"
| "gate_step ut (GSteerSupported b) g = ([], set_steer_supported b g)"
| "gate_step ut (GNoteSteered u s) g = ([], note_steered u s g, False)"
| "gate_step ut (GNoteAccepted u) g = ([], snd (note_accepted ut u g), False)"
| "gate_step ut (GTakeSteered u) g = ([], snd (take_steered ut u g), False)"
| "gate_step ut GTakeUnstarted g = ([], snd (take_unstarted g), False)"
| "gate_step ut GRequestStop g = ([], request_stop g)"
| "gate_step ut GTakeStopRequest g = ([], snd (take_stop_request g), False)"
| "gate_step ut (GNoteUnreported u) g = ([], note_unreported u g, False)"
| "gate_step ut GUnreportedAccepted g = ([], snd (unreported_accepted g), False)"
| "gate_step ut GUnreportedDelivered g = ([], snd (unreported_delivered g), False)"
| "gate_step ut (GNoteCarried l k) g = ([], note_carried l k g, False)"
| "gate_step ut (GSetWaker b) g = ([], set_waker b g, False)"

fun gate_run :: "(uuid \<Rightarrow> string) \<Rightarrow> gate_op list \<Rightarrow> send_gate \<Rightarrow> queued_send list \<times> send_gate" where
  "gate_run ut [] g = ([], g)"
| "gate_run ut (op # ops) g =
     (case gate_step ut op g of
        (out, g', _) \<Rightarrow> (case gate_run ut ops g' of (outs, g'') \<Rightarrow> (out @ outs, g'')))"

declare gate_run.simps(2) [simp del]

lemma gate_run_Cons:
  "gate_run ut (op # ops) g =
     (fst (gate_step ut op g) @ fst (gate_run ut ops (fst (snd (gate_step ut op g)))),
      snd (gate_run ut ops (fst (snd (gate_step ut op g)))))"
  by (simp add: gate_run.simps split: prod.split)

lemma take_next_cases:
  obtains (none) "take_next_if_open g = (None, g)"
  | (some) q rest where "gate_open g" "take_first (may_start g) (g_queue g) = Some (q, rest)"
      "take_next_if_open g = (Some q, begin_turn (qs_source q) (g\<lparr>g_queue := rest\<rparr>))"
  by (cases "next_sendable g") (auto simp: take_next_if_open_def next_sendable_def split: if_splits)

text \<open>What the gate hands out to start a turn is what it would have shown as sendable, the
  oldest such message: everything queued before it waits for the user after a Stop or a
  failed turn, the rest of the queue keeps its order, and the turn counts as running from
  that moment, so nothing more starts.\<close>

theorem gate_hands_out_oldest_sendable:
  assumes "take_next_if_open g = (Some q, g')"
  shows "wait_of g q = WaitNone \<and> gate_open g \<and> \<not> gate_open g' \<and>
    turn_started_by_events g' = (qs_source q = ParentEvent) \<and>
    (\<exists>pre post. g_queue g = pre @ q # post \<and> g_queue g' = pre @ post \<and>
      (\<forall>p \<in> set pre. held_by_stop (qs_source p) \<and> wait_of g p \<in> {WaitStoppedByUser, WaitBusy}))"
proof (cases rule: take_next_cases [of g])
  case none
  with assms show ?thesis by simp
next
  case (some q' rest)
  then have q: "q' = q" and g': "g' = begin_turn (qs_source q) (g\<lparr>g_queue := rest\<rparr>)" using assms by auto
  from take_first_Some [OF some(2)] q obtain pre post where
    sp: "g_queue g = pre @ q # post" "rest = pre @ post" "may_start g q" "\<forall>p \<in> set pre. \<not> may_start g p"
    by blast
  have "wait_of g q = WaitNone" using sp(3) some(1) by (auto simp: wait_of_def may_start_def gate_open_def)
  moreover have "held_by_stop (qs_source p) \<and> wait_of g p \<in> {WaitStoppedByUser, WaitBusy}"
    if "p \<in> set pre" for p
    using sp(4) that some(1) by (auto simp: wait_of_def may_start_def gate_open_def)
  ultimately show ?thesis using sp some(1) g'
    by (auto simp: begin_turn_def gate_open_def turn_started_by_events_def)
qed

text \<open>The reason shown on a queued message never contradicts the gate: a message shown as
  sendable is one the gate is ready to hand out or write into the turn, and a gate that is
  idle shows a reason on every message.\<close>

theorem sendable_means_ready:
  assumes "q \<in> set (g_queue g)" and "wait_of g q = WaitNone"
  shows "(ready g = ReadySteer \<and> fst (take_steerable g) \<noteq> None) \<or>
    (ready g = ReadyFlush \<and> fst (take_next_if_open g) \<noteq> None)"
proof (cases "g_turn_active g")
  case True
  with assms(2) have st: "qs_mode q = Steer" "steer_available g" by (auto simp: wait_of_def split: if_splits)
  with assms(1) have "ready g = ReadySteer" by (auto simp: ready_def list_ex_iff)
  moreover have "take_first (\<lambda>q. qs_mode q = Steer) (g_queue g) \<noteq> None"
    using st assms(1) by (auto simp: take_first_None)
  ultimately show ?thesis using st by (auto simp: take_steerable_def)
next
  case False
  with assms(2) have o: "gate_open g" "may_start g q"
    by (auto simp: wait_of_def gate_open_def may_start_def split: if_splits)
  then have "next_sendable g \<noteq> None" using assms(1) by (auto simp: next_sendable_def take_first_None)
  moreover have "\<not> steer_available g" using False by (simp add: steer_available_def)
  ultimately show ?thesis by (auto simp: ready_def take_next_if_open_def)
qed

section \<open>No message is lost or sent twice\<close>

text \<open>What came into the queue along a run: the messages pushed, as queued, and those the owner
  put back.\<close>

fun entered :: "(uuid \<Rightarrow> string) \<Rightarrow> gate_op list \<Rightarrow> send_gate \<Rightarrow> queued_send list" where
  "entered ut [] g = []"
| "entered ut (op # ops) g =
     (case op of
        GPush _ _ _ _ _ _ \<Rightarrow> [last (g_queue (fst (snd (gate_step ut op g))))]
      | GRequeue q \<Rightarrow> [q]
      | _ \<Rightarrow> []) @ entered ut ops (fst (snd (gate_step ut op g)))"

lemma mset_partition: "mset (filter P xs) + mset (filter (\<lambda>x. \<not> P x) xs) = mset xs"
  by (induction xs) auto

lemma set_holds_woken:
  "snd (set_holds h g) = (ready (fst (set_holds h g)) \<noteq> ready g \<and> wake_if_ready (fst (set_holds h g)))"
  "g_waker (fst (set_holds h g)) = g_waker g"
  by (simp_all add: set_holds_def Let_def)

lemma set_holds_queue [simp]: "g_queue (fst (set_holds h g)) = g_queue g"
  by (simp add: set_holds_def Let_def)

lemmas op_defs = push_def requeue_front_def begin_turn_def on_turn_started_def on_turn_end_def
  set_prompt_pending_def set_retry_armed_def set_disconnected_def set_interrupted_def
  stop_by_user_def clear_stop_def set_steer_supported_def note_steered_def note_accepted_def
  take_steered_def take_unstarted_def request_stop_def take_stop_request_def note_unreported_def
  unreported_accepted_def unreported_delivered_def note_carried_def set_waker_def Let_def

lemma remove_mset:
  "remove_item i g = (q, g') \<Longrightarrow> mset (opt_list q) + mset (g_queue g') = mset (g_queue g)"
  by (auto simp: remove_item_def opt_list_def dest!: take_first_mset split: option.splits)

lemma step_conserves:
  "mset (fst (gate_step ut op g)) + mset (g_queue (fst (snd (gate_step ut op g)))) =
   mset (g_queue g) +
   mset (case op of
        GPush _ _ _ _ _ _ \<Rightarrow> [last (g_queue (fst (snd (gate_step ut op g))))]
      | GRequeue q \<Rightarrow> [q]
      | _ \<Rightarrow> [])"
proof (cases op)
  case (GRemove i)
  then show ?thesis using remove_mset [of i g] by (simp split: prod.split)
next
  case (GSteerNow i)
  then show ?thesis using remove_mset [of i g] by (simp add: steer_now_def opt_list_def split: prod.split)
next
  case GTakeNext
  then show ?thesis
    by (cases rule: take_next_cases [of g])
      (auto simp: opt_list_def begin_turn_def dest!: take_first_mset)
next
  case GTakeSteerable
  then show ?thesis
    by (auto simp: take_steerable_def opt_list_def dest!: take_first_mset split: option.split)
next
  case GTakeHeld
  then show ?thesis
    using mset_partition [of "\<lambda>q. qs_source q = ParentEvent" "g_queue g"]
    by (simp add: take_held_events_def Let_def)
qed (simp_all add: op_defs split: option.split prod.split bool.split)

text \<open>Every message is in exactly one place: at any moment the queue and what was handed out
  together hold the messages that were pushed or put back, each as often as it came in,
  whatever holds, turns, stops and steers happened in between.\<close>

theorem messages_conserved:
  "mset (fst (gate_run ut ops g)) + mset (g_queue (snd (gate_run ut ops g))) =
   mset (g_queue g) + mset (entered ut ops g)"
proof (induction ops arbitrary: g)
  case (Cons op ops)
  let ?g' = "fst (snd (gate_step ut op g))"
  from Cons.IH [of ?g'] step_conserves [of ut op g] show ?case
    by (simp add: gate_run_Cons add.assoc)
qed simp

section \<open>A Stop\<close>

lemma stop_step:
  assumes "g_stopped_by_user g" "op \<noteq> GClearStop" "op \<noteq> GTakeHeld" "\<forall>i. op \<noteq> GRemove i"
  shows "g_stopped_by_user (fst (snd (gate_step ut op g))) \<and>
    (\<forall>q \<in> set (fst (gate_step ut op g)). \<not> held_by_stop (qs_source q))"
proof (cases op)
  case GTakeNext
  then show ?thesis using assms(1)
    by (cases rule: take_next_cases [of g])
      (auto simp: opt_list_def begin_turn_def may_start_def gate_stopped_def dest!: take_first_Some)
qed (use assms in \<open>simp_all add: steer_now_def take_steerable_def steer_available_def opt_list_def
    op_defs set_holds_def split: option.split prod.split bool.split\<close>)

text \<open>C20: After the user's Stop, and until the user sends again or releases it, no message of
  another agent, no child event and no recovery turn leaves the gate, whatever is queued,
  reported or asked for meanwhile.\<close>

theorem stop_holds_everyone_but_people:
  assumes "GClearStop \<notin> set ops" "GTakeHeld \<notin> set ops" "\<forall>i. GRemove i \<notin> set ops"
  shows "\<forall>q \<in> set (fst (gate_run ut ops (stop_by_user g))). \<not> held_by_stop (qs_source q)"
proof -
  have "\<forall>q \<in> set (fst (gate_run ut ops k)). \<not> held_by_stop (qs_source q)" if "g_stopped_by_user k" for k
    using that assms
  proof (induction ops arbitrary: k)
    case (Cons op ops)
    from Cons.prems have "op \<noteq> GClearStop" "op \<noteq> GTakeHeld" "\<forall>i. op \<noteq> GRemove i" by auto
    from stop_step [OF Cons.prems(1) this, of ut] Cons show ?case by (auto simp: gate_run_Cons)
  qed simp
  from this [of "stop_by_user g"] show ?thesis by (simp add: stop_by_user_def)
qed

section \<open>Waking the owner\<close>

lemma ready_cong:
  "g_queue g' = g_queue g \<Longrightarrow> steer_available g' = steer_available g \<Longrightarrow> gate_open g' = gate_open g \<Longrightarrow>
   may_start g' = may_start g \<Longrightarrow> ready g' = ready g"
  by (simp add: ready_def next_sendable_def)

lemma ready_idle_iff:
  "ready g = ReadyIdle \<longleftrightarrow>
   (steer_available g \<longrightarrow> (\<forall>q \<in> set (g_queue g). qs_mode q \<noteq> Steer)) \<and>
   (gate_open g \<longrightarrow> (\<forall>q \<in> set (g_queue g). \<not> may_start g q))"
  by (auto simp: ready_def next_sendable_def list_ex_iff take_first_None simp del: not_None_eq)

lemma remove_item_cases:
  obtains (none) "remove_item i g = (None, g)"
  | (some) q pre post where "remove_item i g = (Some q, g\<lparr>g_queue := pre @ post\<rparr>)"
      "g_queue g = pre @ q # post"
proof (cases "take_first (\<lambda>q. qs_id q = i) (g_queue g)")
  case None
  then show thesis using none by (simp add: remove_item_def)
next
  case (Some e)
  obtain q rest where e: "e = (q, rest)" by force
  have r: "remove_item i g = (Some q, g\<lparr>g_queue := rest\<rparr>)" using Some e by (simp add: remove_item_def)
  from take_first_Some [of _ "g_queue g" q rest] Some e obtain pre post
    where "g_queue g = pre @ q # post" "rest = pre @ post" by blast
  then show thesis using r by (intro some [of q pre post]) simp_all
qed

lemma idle_remove:
  "ready g = ReadyIdle \<Longrightarrow> ready (snd (remove_item i g)) = ReadyIdle"
  by (cases rule: remove_item_cases [of i g])
    (auto simp: ready_idle_iff steer_available_def gate_open_def may_start_def gate_stopped_def)

lemma idle_take_next: "ready g = ReadyIdle \<Longrightarrow> take_next_if_open g = (None, g)"
  by (auto simp: ready_def take_next_if_open_def split: if_splits option.split)

lemma idle_take_steerable: "ready g = ReadyIdle \<Longrightarrow> take_steerable g = (None, g)"
proof -
  assume "ready g = ReadyIdle"
  then have "steer_available g \<Longrightarrow> take_first (\<lambda>q. qs_mode q = Steer) (g_queue g) = None"
    by (auto simp: ready_idle_iff take_first_None)
  then show ?thesis by (simp add: take_steerable_def)
qed

lemmas readiness_defs = steer_available_def gate_open_def may_start_def gate_stopped_def

lemma ready_updates [simp]:
  "ready (g\<lparr>g_unstarted := a\<rparr>) = ready g" "ready (g\<lparr>g_stop_requested := b\<rparr>) = ready g"
  "ready (g\<lparr>g_unreported := c\<rparr>) = ready g" "ready (g\<lparr>g_carried := d\<rparr>) = ready g"
  "ready (g\<lparr>g_waker := b\<rparr>) = ready g"
  by (rule ready_cong; simp add: readiness_defs fun_eq_iff)+

lemma note_carried_ready: "ready (note_carried l k g) = ready g"
  by (simp add: note_carried_def Let_def)

text \<open>The operations that end with \<open>wake_if_ready\<close>, and those that touch nothing readiness
  depends on.\<close>

fun waking_op :: "gate_op \<Rightarrow> bool" where
  "waking_op (GPush _ _ _ _ _ _) = True"
| "waking_op GTurnEnd = True"
| "waking_op (GPrompt _) = True"
| "waking_op (GRetry _) = True"
| "waking_op (GDisconnected _) = True"
| "waking_op (GInterrupted _) = True"
| "waking_op GClearStop = True"
| "waking_op (GSteerSupported _) = True"
| "waking_op _ = False"

fun neutral_op :: "gate_op \<Rightarrow> bool" where
  "neutral_op (GNoteSteered _ _) = True"
| "neutral_op (GNoteAccepted _) = True"
| "neutral_op (GTakeSteered _) = True"
| "neutral_op GTakeUnstarted = True"
| "neutral_op GTakeStopRequest = True"
| "neutral_op (GNoteUnreported _) = True"
| "neutral_op GUnreportedAccepted = True"
| "neutral_op GUnreportedDelivered = True"
| "neutral_op (GNoteCarried _ _) = True"
| "neutral_op (GSetWaker _) = True"
| "neutral_op _ = False"

lemma waking_step:
  "waking_op op \<Longrightarrow> gate_step ut op g = (out, g', woken) \<Longrightarrow>
   woken = wake_if_ready g' \<and> g_waker g' = g_waker g"
  by (cases op) (auto simp: push_def on_turn_end_def set_prompt_pending_def set_retry_armed_def
      set_disconnected_def set_interrupted_def clear_stop_def set_steer_supported_def Let_def
      split: if_splits)

lemma neutral_step:
  "neutral_op op \<Longrightarrow> gate_step ut op g = (out, g', woken) \<Longrightarrow> ready g' = ready g"
  by (cases op)
    (auto simp: note_steered_def note_accepted_def take_steered_def take_unstarted_def
      take_stop_request_def note_unreported_def unreported_accepted_def unreported_delivered_def
      note_carried_ready set_waker_def split: option.split prod.split bool.split)

lemma closing_step:
  "ready g = ReadyIdle \<Longrightarrow> ready (begin_turn src g) = ReadyIdle"
  "ready g = ReadyIdle \<Longrightarrow> ready (stop_by_user g) = ReadyIdle"
  by (auto simp: ready_idle_iff begin_turn_def stop_by_user_def readiness_defs)


section \<open>Forged events\<close>

definition clean :: "queued_send \<Rightarrow> bool" where
  "clean q \<longleftrightarrow> qs_source q = ParentEvent \<or>
     (\<not> contains_text EVENT_TAG (qs_text q) \<and> \<not> contains_text (lit ''</oximux-event'') (qs_text q))"

lemma clean_text:
  "clean \<lparr>qs_id = i, qs_uuid = u, qs_text = (if src = ParentEvent then t else neutralize_forged t),
      qs_images = im, qs_mode = md, qs_source = src\<rparr>"
  unfolding clean_def using neutralize_no_event [of t]
  by (cases "src = ParentEvent") (simp_all only: queued_send.select_convs simp_thms if_True if_False)

lemma clean_step:
  assumes "\<forall>q \<in> set (g_queue g). clean q" "\<forall>q. op = GRequeue q \<longrightarrow> clean q"
  shows "\<forall>q \<in> set (fst (gate_step ut op g)) \<union> set (g_queue (fst (snd (gate_step ut op g)))). clean q"
proof -
  let ?g' = "fst (snd (gate_step ut op g))"
  let ?in = "case op of GPush _ _ _ _ _ _ \<Rightarrow> [last (g_queue ?g')] | GRequeue q \<Rightarrow> [q] | _ \<Rightarrow> []"
  have "\<forall>q \<in> set ?in. clean q"
    using assms(2) by (cases op) (simp_all add: push_def Let_def clean_text)
  moreover have "set (fst (gate_step ut op g)) \<union> set (g_queue ?g') = set (g_queue g) \<union> set ?in"
    using arg_cong [OF step_conserves [of ut op g], of set_mset] by simp
  ultimately show ?thesis using assms(1) by auto
qed

text \<open>C39: Only the host's own deliveries can read as events: whatever text a user, a phone or
  another agent sends, no message in the queue or handed out from it carries the opening
  or the closing of an event element unless it is a delivery of child events.\<close>

theorem only_the_host_sends_events:
  assumes "\<forall>q. GRequeue q \<in> set ops \<longrightarrow> clean q"
  shows "\<forall>q \<in> set (fst (gate_run ut ops gate_new)) \<union> set (g_queue (snd (gate_run ut ops gate_new))). clean q"
proof -
  have "\<forall>q \<in> set (fst (gate_run ut ops g)) \<union> set (g_queue (snd (gate_run ut ops g))). clean q"
    if "\<forall>q \<in> set (g_queue g). clean q" "\<forall>q. GRequeue q \<in> set ops \<longrightarrow> clean q" for g
    using that
  proof (induction ops arbitrary: g)
    case (Cons op ops)
    let ?g' = "fst (snd (gate_step ut op g))"
    from Cons.prems have "\<forall>q. op = GRequeue q \<longrightarrow> clean q" by simp
    from clean_step [OF Cons.prems(1) this, of ut]
    have c: "\<forall>q \<in> set (fst (gate_step ut op g)). clean q" "\<forall>q \<in> set (g_queue ?g'). clean q" by blast+
    have "\<forall>q. GRequeue q \<in> set ops \<longrightarrow> clean q" using Cons.prems(2) by simp
    from Cons.IH [OF c(2) this] c(1) show ?case by (simp add: gate_run_Cons ball_Un)
  qed simp
  from this [of gate_new] assms show ?thesis by (simp add: gate_new_def)
qed

section \<open>The hypotheses can hold\<close>

definition demo_item :: "u64 \<Rightarrow> send_source \<Rightarrow> queued_send" where
  "demo_item i src = \<lparr>qs_id = i, qs_uuid = 7, qs_text = lit ''hi'', qs_images = [], qs_mode = Queue,
     qs_source = src\<rparr>"

definition demo_gate :: send_gate where
  "demo_gate = gate_new\<lparr>g_queue := [demo_item 1 Agent, demo_item 2 User], g_next_id := 2,
     g_waker := True, g_stopped_by_user := True\<rparr>"

lemmas demo_gate_defs = demo_gate_def gate_new_def demo_item_def gate_open_def may_start_def
  gate_stopped_def held_by_stop_def

lemma gate_hands_out_oldest_sendable_witness:
  "fst (take_next_if_open demo_gate) = Some (demo_item 2 User) \<and>
   wait_of demo_gate (demo_item 2 User) = WaitNone"
proof -
  have t: "take_next_if_open demo_gate =
      (Some (demo_item 2 User), begin_turn User (demo_gate\<lparr>g_queue := [demo_item 1 Agent]\<rparr>))"
    by (simp add: take_next_if_open_def next_sendable_def demo_gate_defs)
  show ?thesis using gate_hands_out_oldest_sendable [OF t] t by simp
qed

lemma sendable_means_ready_witness:
  "ready demo_gate \<noteq> ReadyIdle"
  using sendable_means_ready [of "demo_item 2 User" demo_gate]
  by (auto simp: wait_of_def demo_gate_defs)

lemma stop_holds_everyone_but_people_witness:
  "demo_item 1 Agent \<notin> set (fst (gate_run (\<lambda>_. []) [GTakeNext, GTurnEnd, GTakeNext] (stop_by_user demo_gate)))"
proof
  assume "demo_item 1 Agent \<in> set (fst (gate_run (\<lambda>_. []) [GTakeNext, GTurnEnd, GTakeNext] (stop_by_user demo_gate)))"
  then have "\<not> held_by_stop (qs_source (demo_item 1 Agent))"
    using stop_holds_everyone_but_people [of "[GTakeNext, GTurnEnd, GTakeNext]" "\<lambda>_. []" demo_gate] by simp
  then show False by (simp add: demo_item_def held_by_stop_def)
qed


lemma only_the_host_sends_events_witness:
  "\<not> contains_text EVENT_TAG (qs_text (hd (g_queue (snd (gate_run (\<lambda>_. [])
     [GPush (lit ''<oximux-event>'') [] User Queue None 7] gate_new)))))"
  using only_the_host_sends_events [of "[GPush (lit ''<oximux-event>'') [] User Queue None 7]" "\<lambda>_. []"]
  by (simp add: gate_run_Cons push_def Let_def gate_new_def clean_def del: lit_simps)

end
