(* ===== verification/Program_Status.thy ===== *)
theory Program_Status
  imports Prelude "HOL-Library.Multiset"
begin

text \<open>
  Program status, OSC 7501 (\<open>crates/pty/src/program_status.rs\<close>): the report grammar with its
  limits and the sanitizing of text, the store of records of one terminal, and the gate that
  decides which feature queries are answered.  Base64 decoding is a parameter; instants are
  nanoseconds since an origin.
\<close>

section \<open>Reports\<close>

definition MAX_RECORDS :: nat where "MAX_RECORDS = 256"
definition MAX_SEQUENCE_BYTES :: nat where "MAX_SEQUENCE_BYTES = 4096"
definition SEQUENCE_FRAMING_BYTES :: nat where "SEQUENCE_FRAMING_BYTES = 8"
definition MAX_KEY_BYTES :: nat where "MAX_KEY_BYTES = 16"
definition MAX_MSG_ENCODED :: nat where "MAX_MSG_ENCODED = 2732"
definition MAX_MSG_DECODED :: nat where "MAX_MSG_DECODED = 2048"
definition MAX_TITLE_ENCODED :: nat where "MAX_TITLE_ENCODED = 256"
definition MAX_TITLE_DECODED :: nat where "MAX_TITLE_DECODED = 192"
definition MAX_APP_BYTES :: nat where "MAX_APP_BYTES = 32"
definition MAX_ID_BYTES :: nat where "MAX_ID_BYTES = 128"
definition MAX_ID_SEGMENT_BYTES :: nat where "MAX_ID_SEGMENT_BYTES = 32"
definition MAX_ID_DEPTH :: nat where "MAX_ID_DEPTH = 8"

datatype program_state = PsIdle | PsWorking | PsDone | PsBlocked | PsError
datatype blocked_kind = BkPermission | BkQuestion | BkAuth

record program_record =
  pr_state :: program_state
  pr_kind :: "blocked_kind option"
  pr_progress :: "u8 option"
  pr_app :: "utext option"
  pr_title :: "utext option"
  pr_msg :: "utext option"

type_synonym record_id = "utext list"

datatype program_report = SetReport record_id program_record | ClearReport "record_id option"

definition is_query :: "bytes \<Rightarrow> bool" where
  "is_query payload \<longleftrightarrow> (case payload of [] \<Rightarrow> False | b # _ \<Rightarrow> b = 0x3f)"

definition is_lower :: "u8 \<Rightarrow> bool" where
  "is_lower b \<longleftrightarrow> 0x61 \<le> b \<and> b \<le> 0x7a"

definition is_alphanumeric :: "u8 \<Rightarrow> bool" where
  "is_alphanumeric b \<longleftrightarrow> is_digit b \<or> is_lower b \<or> (0x41 \<le> b \<and> b \<le> 0x5a)"

definition is_value_byte :: "u8 \<Rightarrow> bool" where
  "is_value_byte b \<longleftrightarrow> is_alphanumeric b \<or> b \<in> set (blit ''_.,+/=-'')"

definition is_segment_byte :: "u8 \<Rightarrow> bool" where
  "is_segment_byte b \<longleftrightarrow> is_alphanumeric b \<or> b \<in> set (blit ''_.+-'')"

definition ascii_space :: "u8 \<Rightarrow> bool" where
  "ascii_space b \<longleftrightarrow> b = 0x20 \<or> b = 0x09 \<or> b = 0x0a \<or> b = 0x0c \<or> b = 0x0d"

definition trim_ascii :: "bytes \<Rightarrow> bytes" where
  "trim_ascii bs = rev (dropWhile ascii_space (rev (dropWhile ascii_space bs)))"

text \<open>\<open>str::parse::<u8>\<close> on ASCII: an optional plus sign, then digits, up to 255.\<close>

definition parse_u8 :: "bytes \<Rightarrow> u8 option" where
  "parse_u8 bs =
     (let ds = (case bs of b # c # r \<Rightarrow> if b = 0x2b then c # r else bs | _ \<Rightarrow> bs) in
      if ds = [] \<or> \<not> list_all is_digit ds \<or> dec_value ds > 255 then None
      else Some (word_of_nat (dec_value ds)))"

text \<open>\<open>String::from_utf8\<close>.\<close>

definition utf8_char :: "nat \<Rightarrow> nat list \<Rightarrow> (nat \<times> nat) option" where
  "utf8_char b r =
     (let cont = (\<lambda>c. 0x80 \<le> c \<and> c < 0xc0) in
      if b < 0x80 then Some (b, 0)
      else if 0xc2 \<le> b \<and> b < 0xe0 then
        (case r of
           c1 # _ \<Rightarrow> if cont c1 then Some ((b - 0xc0) * 64 + (c1 - 0x80), 1) else None
         | _ \<Rightarrow> None)
      else if 0xe0 \<le> b \<and> b < 0xf0 then
        (case r of
           c1 # c2 # _ \<Rightarrow>
             if cont c1 \<and> cont c2 \<and> (b = 0xe0 \<longrightarrow> c1 \<ge> 0xa0) \<and> (b = 0xed \<longrightarrow> c1 < 0xa0)
             then Some ((b - 0xe0) * 4096 + (c1 - 0x80) * 64 + (c2 - 0x80), 2) else None
         | _ \<Rightarrow> None)
      else if 0xf0 \<le> b \<and> b < 0xf5 then
        (case r of
           c1 # c2 # c3 # _ \<Rightarrow>
             if cont c1 \<and> cont c2 \<and> cont c3 \<and> (b = 0xf0 \<longrightarrow> c1 \<ge> 0x90) \<and> (b = 0xf4 \<longrightarrow> c1 < 0x90)
             then Some ((b - 0xf0) * 262144 + (c1 - 0x80) * 4096 + (c2 - 0x80) * 64 + (c3 - 0x80), 3)
             else None
         | _ \<Rightarrow> None)
      else None)"

function utf8_decode :: "nat list \<Rightarrow> utext option" where
  "utf8_decode [] = Some []"
| "utf8_decode (b # r) =
     (case utf8_char b r of
        None \<Rightarrow> None
      | Some (c, n) \<Rightarrow> map_option ((#) c) (utf8_decode (drop n r)))"
  by pat_completeness auto
termination utf8_decode by (relation "measure length") auto

definition is_control :: "nat \<Rightarrow> bool" where
  "is_control c \<longleftrightarrow> c < 32 \<or> (127 \<le> c \<and> c < 160)"

definition deceptive :: "nat \<Rightarrow> bool" where
  "deceptive c \<longleftrightarrow> c = 0x061c \<or> c = 0x00ad \<or> c = 0x180e \<or> (0x200b \<le> c \<and> c \<le> 0x200f) \<or>
     (0x202a \<le> c \<and> c \<le> 0x202e) \<or> (0x2060 \<le> c \<and> c \<le> 0x2064) \<or> (0x2066 \<le> c \<and> c \<le> 0x2069) \<or>
     c = 0xfeff \<or> (0xfff9 \<le> c \<and> c \<le> 0xfffb)"

definition sanitize_display_text :: "utext \<Rightarrow> utext" where
  "sanitize_display_text t = filter (\<lambda>c. \<not> is_control c \<and> \<not> deceptive c) t"

type_synonym base64 = "bytes \<Rightarrow> bytes option"

text \<open>The outer \<open>None\<close> drops the report.\<close>

definition decode_text :: "base64 \<Rightarrow> bytes option \<Rightarrow> nat \<Rightarrow> nat \<Rightarrow> utext option option" where
  "decode_text b64 raw max_encoded max_decoded =
     (case raw of
        None \<Rightarrow> Some None
      | Some r \<Rightarrow>
          if r = [] then Some None
          else if length r > max_encoded then None
          else (case b64 r of
                  None \<Rightarrow> None
                | Some bs \<Rightarrow>
                    if length bs > max_decoded then None
                    else (case utf8_decode (map unat bs) of
                            None \<Rightarrow> None
                          | Some t \<Rightarrow>
                              if list_ex is_control t then None
                              else Some (Some (sanitize_display_text t)))))"

definition ascii_text :: "bytes \<Rightarrow> utext" where
  "ascii_text bs = map unat bs"

definition parse_id :: "bytes \<Rightarrow> record_id option" where
  "parse_id raw =
     (if raw = [] \<or> length raw > MAX_ID_BYTES then None
      else
        (let segs = split_on 0x2f raw in
         if list_ex (\<lambda>s. s = [] \<or> length s > MAX_ID_SEGMENT_BYTES \<or> \<not> list_all is_segment_byte s) segs
         then None
         else if length segs \<le> MAX_ID_DEPTH then Some (map ascii_text segs) else None))"

record report_pairs =
  rp_state :: "bytes option"
  rp_id :: "bytes option"
  rp_kind :: "bytes option"
  rp_progress :: "bytes option"
  rp_app :: "bytes option"
  rp_title :: "bytes option"
  rp_msg :: "bytes option"

definition no_pairs :: report_pairs where
  "no_pairs = \<lparr>rp_state = None, rp_id = None, rp_kind = None, rp_progress = None, rp_app = None,
     rp_title = None, rp_msg = None\<rparr>"

definition set_pair :: "bytes \<Rightarrow> bytes \<Rightarrow> report_pairs \<Rightarrow> report_pairs" where
  "set_pair key value p =
     (if key = blit ''state'' then p\<lparr>rp_state := Some value\<rparr>
      else if key = blit ''id'' then p\<lparr>rp_id := Some value\<rparr>
      else if key = blit ''kind'' then p\<lparr>rp_kind := Some value\<rparr>
      else if key = blit ''progress'' then p\<lparr>rp_progress := Some value\<rparr>
      else if key = blit ''app'' then p\<lparr>rp_app := Some value\<rparr>
      else if key = blit ''title'' then p\<lparr>rp_title := Some value\<rparr>
      else if key = blit ''msg'' then p\<lparr>rp_msg := Some value\<rparr>
      else p)"

fun parse_pairs :: "bytes list \<Rightarrow> report_pairs \<Rightarrow> report_pairs option" where
  "parse_pairs [] p = Some p"
| "parse_pairs (pair # rest) p =
     (if 0x3d \<notin> set pair then parse_pairs rest p
      else
        (let key = trim_ascii (takeWhile (\<lambda>b. b \<noteq> 0x3d) pair);
             value = trim_ascii (tl (dropWhile (\<lambda>b. b \<noteq> 0x3d) pair))
         in if length key > MAX_KEY_BYTES then None
            else if key = [] \<or> \<not> list_all is_lower key \<or> \<not> list_all is_value_byte value
            then parse_pairs rest p
            else parse_pairs rest (set_pair key value p)))"

definition state_of :: "bytes \<Rightarrow> program_state option" where
  "state_of s =
     (if s = blit ''idle'' then Some PsIdle
      else if s = blit ''working'' then Some PsWorking
      else if s = blit ''done'' then Some PsDone
      else if s = blit ''blocked'' then Some PsBlocked
      else if s = blit ''error'' then Some PsError
      else None)"

definition kind_of :: "program_state \<Rightarrow> bytes option \<Rightarrow> blocked_kind option" where
  "kind_of s k =
     (if s \<noteq> PsBlocked then None
      else if k = Some (blit ''permission'') then Some BkPermission
      else if k = Some (blit ''question'') then Some BkQuestion
      else if k = Some (blit ''auth'') then Some BkAuth
      else None)"

definition progress_of :: "program_state \<Rightarrow> bytes option \<Rightarrow> u8 option" where
  "progress_of s p =
     (if s = PsWorking \<or> s = PsBlocked then
        (case p of
           None \<Rightarrow> None
         | Some bs \<Rightarrow> (case parse_u8 bs of
                         None \<Rightarrow> None
                       | Some v \<Rightarrow> if v \<le> 100 then Some v else None))
      else None)"

definition app_text :: "bytes option \<Rightarrow> utext option option" where
  "app_text a =
     (case a of
        None \<Rightarrow> Some None
      | Some raw \<Rightarrow>
          if length raw > MAX_APP_BYTES then None
          else if raw \<noteq> [] \<and> list_all is_segment_byte raw then Some (Some (ascii_text raw))
          else Some None)"

definition record_of_pairs :: "base64 \<Rightarrow> report_pairs \<Rightarrow> record_id option \<Rightarrow> program_state \<Rightarrow> program_report option" where
  "record_of_pairs b64 p i s =
     (case app_text (rp_app p) of
        None \<Rightarrow> None
      | Some app \<Rightarrow>
          (case decode_text b64 (rp_title p) MAX_TITLE_ENCODED MAX_TITLE_DECODED of
             None \<Rightarrow> None
           | Some title \<Rightarrow>
               (case decode_text b64 (rp_msg p) MAX_MSG_ENCODED MAX_MSG_DECODED of
                  None \<Rightarrow> None
                | Some msg \<Rightarrow>
                    Some (SetReport (case i of Some x \<Rightarrow> x | None \<Rightarrow> [])
                      \<lparr>pr_state = s, pr_kind = kind_of s (rp_kind p),
                       pr_progress = progress_of s (rp_progress p),
                       pr_app = app, pr_title = title, pr_msg = msg\<rparr>))))"

definition report_of_pairs :: "base64 \<Rightarrow> report_pairs \<Rightarrow> program_report option" where
  "report_of_pairs b64 p =
     (case (case rp_id p of None \<Rightarrow> Some None | Some raw \<Rightarrow> map_option Some (parse_id raw)) of
        None \<Rightarrow> None
      | Some i \<Rightarrow>
          (case rp_state p of
             None \<Rightarrow> None
           | Some s \<Rightarrow>
               if s = blit ''clear'' then Some (ClearReport i)
               else (case state_of s of
                       None \<Rightarrow> None
                     | Some st \<Rightarrow> record_of_pairs b64 p i st)))"

definition parse_report :: "base64 \<Rightarrow> bytes \<Rightarrow> program_report option" where
  "parse_report b64 payload =
     (if length payload > MAX_SEQUENCE_BYTES - SEQUENCE_FRAMING_BYTES \<or> is_query payload then None
      else (case parse_pairs (split_on 0x3a payload) no_pairs of
              None \<Rightarrow> None
            | Some p \<Rightarrow> report_of_pairs b64 p))"

section \<open>What a report can carry\<close>

definition text_ok :: "utext \<Rightarrow> bool" where
  "text_ok t \<longleftrightarrow> list_all (\<lambda>c. \<not> is_control c \<and> \<not> deceptive c) t"

definition segment_ok :: "utext \<Rightarrow> bool" where
  "segment_ok t \<longleftrightarrow> t \<noteq> [] \<and> length t \<le> 32 \<and>
     list_all (\<lambda>c. (48 \<le> c \<and> c \<le> 57) \<or> (97 \<le> c \<and> c \<le> 122) \<or> (65 \<le> c \<and> c \<le> 90) \<or>
       c \<in> set (lit ''_.+-'')) t"

lemma decode_text_ok: "decode_text b64 raw e d = Some (Some t) \<Longrightarrow> text_ok t"
  by (auto simp: decode_text_def text_ok_def sanitize_display_text_def list_all_iff
      split: option.splits if_splits)

lemma segment_text:
  "bs \<noteq> [] \<Longrightarrow> length bs \<le> 32 \<Longrightarrow> list_all is_segment_byte bs \<Longrightarrow> segment_ok (ascii_text bs)"
  by (auto simp: segment_ok_def ascii_text_def list_all_iff is_segment_byte_def is_alphanumeric_def
      is_digit_def is_lower_def word_le_nat_alt blit_def)

lemma parse_id_ok:
  "parse_id raw = Some i \<Longrightarrow> i \<noteq> [] \<and> length i \<le> 8 \<and> list_all segment_ok i"
proof -
  assume a: "parse_id raw = Some i"
  let ?segs = "split_on 0x2f raw"
  have i: "i = map ascii_text ?segs" "length ?segs \<le> 8"
    and ok: "\<forall>s \<in> set ?segs. s \<noteq> [] \<and> length s \<le> 32 \<and> list_all is_segment_byte s"
    using a by (auto simp: parse_id_def Let_def list_ex_iff MAX_ID_DEPTH_def MAX_ID_SEGMENT_BYTES_def
        not_less split: if_splits)
  have "\<forall>s \<in> set ?segs. segment_ok (ascii_text s)" using ok segment_text by blast
  with i show ?thesis by (simp add: list_all_iff)
qed


section \<open>The store of records\<close>

record store_slot =
  sl_id :: record_id
  sl_record :: program_record
  sl_touched :: u64

record status_store =
  ss_slots :: "store_slot list"
  ss_clock :: u64

definition store_new :: status_store where
  "store_new = \<lparr>ss_slots = [], ss_clock = 0\<rparr>"

definition store_get :: "record_id \<Rightarrow> status_store \<Rightarrow> program_record option" where
  "store_get i st = map_option sl_record (List.find (\<lambda>s. sl_id s = i) (ss_slots st))"

definition store_root :: "status_store \<Rightarrow> program_record option" where
  "store_root st = store_get [] st"

definition app_of :: "record_id \<Rightarrow> status_store \<Rightarrow> utext option" where
  "app_of i st =
     (case List.find (\<lambda>d. case store_get (take d i) st of
                         Some r \<Rightarrow> pr_app r \<noteq> None | None \<Rightarrow> False) (rev [0..<length i + 1]) of
        None \<Rightarrow> None
      | Some d \<Rightarrow> (case store_get (take d i) st of Some r \<Rightarrow> pr_app r | None \<Rightarrow> None))"

text \<open>\<open>min_by_key\<close> returns the first of the least; \<open>swap_remove\<close> moves the last element into the
  gap.\<close>

fun min_index :: "('a \<Rightarrow> u64) \<Rightarrow> 'a list \<Rightarrow> nat" where
  "min_index f [] = 0"
| "min_index f [x] = 0"
| "min_index f (x # xs) = (let i = min_index f xs in if f (xs ! i) < f x then Suc i else 0)"

definition swap_remove :: "nat \<Rightarrow> 'a list \<Rightarrow> 'a list" where
  "swap_remove i xs = (if i = length xs - 1 then butlast xs else (butlast xs)[i := last xs])"

definition store_set :: "record_id \<Rightarrow> program_record \<Rightarrow> status_store \<Rightarrow> status_store" where
  "store_set i r st =
     (let now = ss_clock st + 1; slots = ss_slots st in
      if list_ex (\<lambda>s. sl_id s = i) slots then
        \<lparr>ss_slots = map (\<lambda>s. if sl_id s = i then s\<lparr>sl_record := r, sl_touched := now\<rparr> else s) slots,
         ss_clock = now\<rparr>
      else
        (let kept = (if length slots \<ge> MAX_RECORDS then swap_remove (min_index sl_touched slots) slots
                     else slots)
         in \<lparr>ss_slots = kept @ [\<lparr>sl_id = i, sl_record = r, sl_touched = now\<rparr>], ss_clock = now\<rparr>))"

fun is_prefix :: "'a list \<Rightarrow> 'a list \<Rightarrow> bool" where
  "is_prefix [] ys = True"
| "is_prefix (x # xs) [] = False"
| "is_prefix (x # xs) (y # ys) = (x = y \<and> is_prefix xs ys)"

definition keep_slots :: "(store_slot \<Rightarrow> bool) \<Rightarrow> status_store \<Rightarrow> status_store" where
  "keep_slots P st = st\<lparr>ss_slots := filter P (ss_slots st)\<rparr>"

definition root_changed_by :: "(status_store \<Rightarrow> status_store) \<Rightarrow> status_store \<Rightarrow> bool \<times> status_store" where
  "root_changed_by f st = (let st' = f st in (store_root st' \<noteq> store_root st, st'))"

definition store_apply :: "program_report \<Rightarrow> status_store \<Rightarrow> bool \<times> status_store" where
  "store_apply report =
     root_changed_by (\<lambda>st. case report of
        SetReport i r \<Rightarrow> store_set i r st
      | ClearReport None \<Rightarrow> keep_slots (\<lambda>_. False) st
      | ClearReport (Some i) \<Rightarrow> keep_slots (\<lambda>s. \<not> is_prefix i (sl_id s)) st)"

definition end_activity :: "status_store \<Rightarrow> bool \<times> status_store" where
  "end_activity =
     root_changed_by (keep_slots (\<lambda>s. pr_state (sl_record s) = PsDone \<or> pr_state (sl_record s) = PsError))"

definition store_reset :: "status_store \<Rightarrow> bool \<times> status_store" where
  "store_reset = root_changed_by (keep_slots (\<lambda>_. False))"

section \<open>The store is a bounded recency list\<close>

text \<open>What the store promises: the records in the order of their last update, oldest first; a
  new one past the limit pushes out the head.\<close>

type_synonym recency = "(record_id \<times> program_record) list"

definition recency_set :: "record_id \<Rightarrow> program_record \<Rightarrow> recency \<Rightarrow> recency" where
  "recency_set i r l =
     (if i \<in> fst ` set l then filter (\<lambda>e. fst e \<noteq> i) l
      else if length l \<ge> MAX_RECORDS then tl l else l) @ [(i, r)]"

datatype store_op = Report program_report | EndActivity | ResetStore

fun store_step :: "store_op \<Rightarrow> status_store \<Rightarrow> bool \<times> status_store" where
  "store_step (Report rep) st = store_apply rep st"
| "store_step EndActivity st = end_activity st"
| "store_step ResetStore st = store_reset st"

fun recency_step :: "store_op \<Rightarrow> recency \<Rightarrow> recency" where
  "recency_step (Report (SetReport i r)) l = recency_set i r l"
| "recency_step (Report (ClearReport None)) l = []"
| "recency_step (Report (ClearReport (Some i))) l = filter (\<lambda>e. \<not> is_prefix i (fst e)) l"
| "recency_step EndActivity l = filter (\<lambda>e. pr_state (snd e) = PsDone \<or> pr_state (snd e) = PsError) l"
| "recency_step ResetStore l = []"

definition slot_entry :: "store_slot \<Rightarrow> record_id \<times> program_record" where
  "slot_entry s = (sl_id s, sl_record s)"

definition by_recency :: "status_store \<Rightarrow> store_slot list" where
  "by_recency st = sort_key sl_touched (ss_slots st)"

definition recency_of :: "status_store \<Rightarrow> recency" where
  "recency_of st = map slot_entry (by_recency st)"

definition store_inv :: "status_store \<Rightarrow> bool" where
  "store_inv st \<longleftrightarrow> distinct (map sl_id (ss_slots st)) \<and> distinct (map sl_touched (ss_slots st)) \<and>
     (\<forall>s \<in> set (ss_slots st). sl_touched s \<le> ss_clock st) \<and> length (ss_slots st) \<le> MAX_RECORDS"

lemma by_recency_eq:
  assumes "distinct (map sl_touched (ss_slots st))" "mset l = mset (ss_slots st)" "sorted (map sl_touched l)"
  shows "by_recency st = l"
proof -
  have "inj_on sl_touched (set (ss_slots st))" using assms(1) by (simp add: distinct_map)
  with assms(2,3) show ?thesis unfolding by_recency_def by (intro sort_key_inj_key_eq) simp_all
qed

lemma recency_keep:
  "recency_of (keep_slots P st) = map slot_entry (filter P (by_recency st))"
  by (simp add: recency_of_def by_recency_def keep_slots_def filter_sort)

lemma store_inv_keep: "store_inv st \<Longrightarrow> store_inv (keep_slots P st)"
  by (auto simp: store_inv_def keep_slots_def distinct_map inj_on_def
      intro: le_trans [OF length_filter_le])

lemma min_index_least:
  "xs \<noteq> [] \<Longrightarrow> min_index f xs < length xs \<and> (\<forall>x \<in> set xs. f (xs ! min_index f xs) \<le> f x)"
proof (induction f xs rule: min_index.induct)
  case (3 f x y ys)
  then show ?case by (auto simp: Let_def not_less intro: order_trans less_imp_le)
qed simp_all

lemma mset_swap_remove:
  "i < length xs \<Longrightarrow> add_mset (xs ! i) (mset (swap_remove i xs)) = mset xs"
proof -
  assume i: "i < length xs"
  then obtain ys y where xs: "xs = ys @ [y]" by (cases xs rule: rev_cases) auto
  show ?thesis
  proof (cases "i = length ys")
    case True
    then show ?thesis by (simp add: swap_remove_def xs)
  next
    case False
    with i xs have "i < length ys" by simp
    then show ?thesis using False by (simp add: swap_remove_def xs mset_update nth_append)
  qed
qed

lemma hd_least:
  assumes "sorted (map f (l :: 'a list))" "distinct (map f l)" "x \<in> set l" "\<forall>y \<in> set l. f x \<le> (f y :: u64)"
  shows "x = hd l"
proof -
  obtain h t where l: "l = h # t" using assms(3) by (cases l) auto
  then have "f h \<le> f x" using assms(1,3) by auto
  with assms(4) l have "f h = f x" by (simp add: order_antisym)
  with assms(2,3) l show ?thesis by (auto simp: image_iff)
qed

lemma distinct_map_mset: "mset xs = mset ys \<Longrightarrow> distinct (map f xs) = distinct (map f ys)"
  by (metis mset_eq_imp_distinct_iff mset_map)

lemma recency_store_set:
  assumes inv: "store_inv st" and clock: "ss_clock st \<noteq> - 1"
  shows "recency_of (store_set i r st) = recency_set i r (recency_of st) \<and> store_inv (store_set i r st)"
proof -
  let ?slots = "ss_slots st" and ?L = "by_recency st" and ?now = "ss_clock st + 1"
  let ?new = "\<lparr>sl_id = i, sl_record = r, sl_touched = ?now\<rparr>"
  have now: "\<forall>s \<in> set ?slots. sl_touched s < ?now"
    using inv less_succ_word [OF clock] by (auto simp: store_inv_def)
  have dist: "distinct (map sl_touched ?slots)" "distinct (map sl_id ?slots)" "length ?slots \<le> MAX_RECORDS"
    using inv by (simp_all add: store_inv_def)
  have L: "mset ?L = mset ?slots" "sorted (map sl_touched ?L)" "set ?L = set ?slots" "length ?L = length ?slots"
    by (simp_all add: by_recency_def)
  have distL: "distinct (map sl_touched ?L)" using dist(1) distinct_map_mset [OF L(1)] by blast
  have ids: "fst ` set (recency_of st) = sl_id ` set ?slots"
    by (auto simp: recency_of_def slot_entry_def L(3) image_iff)
  have sorted_snoc: "sorted (map sl_touched (l @ [?new]))" if "sorted (map sl_touched l)" "set l \<subseteq> set ?slots" for l
    using that now by (auto simp: sorted_append intro: less_imp_le)
  show ?thesis
  proof (cases "i \<in> sl_id ` set ?slots")
    case True
    let ?up = "\<lambda>s. if sl_id s = i then s\<lparr>sl_record := r, sl_touched := ?now\<rparr> else s"
    have st': "store_set i r st = \<lparr>ss_slots = map ?up ?slots, ss_clock = ?now\<rparr>"
      using True by (auto simp: store_set_def Let_def list_ex_iff)
    obtain pre s post where sp: "?slots = pre @ s # post" "sl_id s = i"
      using True by (auto simp: in_set_conv_decomp image_iff)
    have "sl_id s \<notin> sl_id ` set pre" "sl_id s \<notin> sl_id ` set post" using dist(2) sp(1) by auto
    then have out: "\<forall>x \<in> set pre \<union> set post. sl_id x \<noteq> i" using sp(2) by (metis UnE image_eqI)
    have m: "map ?up ?slots = pre @ ?new # post"
      using sp out by (auto intro!: map_idI)
    have f: "filter (\<lambda>x. sl_id x \<noteq> i) ?slots = pre @ post" using sp out by auto
    let ?l = "filter (\<lambda>x. sl_id x \<noteq> i) ?L @ [?new]"
    have d': "distinct (map sl_touched (map ?up ?slots))"
      unfolding m using dist(1) sp now by auto
    have "mset ?l = mset (map ?up ?slots)"
      using arg_cong [OF f, of mset] m L(1) by (simp add: mset_filter)
    moreover have "sorted (map sl_touched ?l)"
      using L(2,3) by (intro sorted_snoc) (auto intro: sorted_filter)
    ultimately have "by_recency (store_set i r st) = ?l" using d' st' by (intro by_recency_eq) simp_all
    then have "recency_of (store_set i r st) = recency_set i r (recency_of st)"
      using True ids by (simp add: recency_of_def recency_set_def slot_entry_def filter_map comp_def)
    moreover have "store_inv (store_set i r st)"
      using d' m sp dist now unfolding st' by (auto simp: store_inv_def intro: less_imp_le)
    ultimately show ?thesis by simp
  next
    case False
    let ?kept = "if length ?slots \<ge> MAX_RECORDS then swap_remove (min_index sl_touched ?slots) ?slots else ?slots"
    let ?keptL = "if length ?L \<ge> MAX_RECORDS then tl ?L else ?L"
    have st': "store_set i r st = \<lparr>ss_slots = ?kept @ [?new], ss_clock = ?now\<rparr>"
      using False by (auto simp: store_set_def Let_def list_ex_iff)
    have k: "mset ?keptL = mset ?kept"
    proof (cases "length ?slots \<ge> MAX_RECORDS")
      case True
      then have ne: "?slots \<noteq> []" by (auto simp: MAX_RECORDS_def)
      note mi = min_index_least [OF ne, of sl_touched]
      have "?slots ! min_index sl_touched ?slots = hd ?L"
        using mi L(2,3) distL by (intro hd_least [where f = sl_touched]) auto
      then have "add_mset (hd ?L) (mset ?kept) = mset ?L"
        using mset_swap_remove [of "min_index sl_touched ?slots" ?slots] mi True L(1) by simp
      moreover have "?L \<noteq> []" using ne L(4) by auto
      then have "mset ?L = add_mset (hd ?L) (mset (tl ?L))" by (metis list.collapse mset.simps(2))
      ultimately show ?thesis using True L(4) by simp
    qed (simp add: L)
    have sub: "set ?keptL \<subseteq> set ?slots" using L(3) by (cases ?L) auto
    define K where "K = ?kept"
    note k = k [folded K_def] and st' = st' [folded K_def]
    have ks: "set K \<subseteq> set ?slots" using k sub by (metis set_mset_mset)
    have len: "length K + 1 \<le> MAX_RECORDS"
    proof -
      have "length K = length ?keptL" using k by (metis size_mset)
      moreover have "length ?keptL + 1 \<le> MAX_RECORDS"
        using dist(3) L(4) by (auto simp: MAX_RECORDS_def)
      ultimately show ?thesis by simp
    qed
    have "distinct (map sl_id ?L)" using dist(2) distinct_map_mset [OF L(1)] by blast
    with distL have "distinct (map sl_touched ?keptL)" "distinct (map sl_id ?keptL)"
      by (simp_all add: map_tl distinct_tl)
    then have d: "distinct (map sl_touched K)" "distinct (map sl_id K)"
      using distinct_map_mset [OF k] by blast+
    moreover have "?now \<notin> sl_touched ` set K" "i \<notin> sl_id ` set K" using now ks False by auto
    ultimately have dk: "distinct (map sl_touched (K @ [?new]))" "distinct (map sl_id (K @ [?new]))" by simp_all
    have "mset (?keptL @ [?new]) = mset (K @ [?new])" using k by simp
    moreover have "sorted (map sl_touched (?keptL @ [?new]))"
      using L(2) sub by (intro sorted_snoc; cases ?L) auto
    ultimately have "by_recency (store_set i r st) = ?keptL @ [?new]"
      using st' dk(1) by (intro by_recency_eq) simp_all
    then have "recency_of (store_set i r st) = recency_set i r (recency_of st)"
      using False ids by (simp add: recency_of_def recency_set_def slot_entry_def map_tl)
    moreover have "\<forall>s \<in> set (K @ [?new]). sl_touched s \<le> ?now" using ks now by (auto intro: less_imp_le)
    then have "store_inv (store_set i r st)"
      using dk len unfolding st' store_inv_def by simp
    ultimately show ?thesis by simp
  qed
qed

lemma fst_slot_entry [simp]: "fst \<circ> slot_entry = sl_id"
  by (simp add: fun_eq_iff slot_entry_def)

lemma keep_clock [simp]: "ss_clock (keep_slots P st) = ss_clock st"
  by (simp add: keep_slots_def)

lemma recency_filter:
  assumes "\<And>s. P s = Q (slot_entry s)"
  shows "recency_of (keep_slots P st) = filter Q (recency_of st)"
proof -
  have "P = Q \<circ> slot_entry" using assms by (simp add: fun_eq_iff)
  then show ?thesis by (simp only: recency_keep) (simp add: recency_of_def filter_map)
qed

lemma store_step_ok:
  assumes inv: "store_inv st" and clock: "ss_clock st \<noteq> - 1"
  shows "recency_of (snd (store_step op st)) = recency_step op (recency_of st) \<and>
    store_inv (snd (store_step op st)) \<and> unat (ss_clock (snd (store_step op st))) \<le> unat (ss_clock st) + 1"
proof (cases op)
  case (Report rep)
  show ?thesis
  proof (cases rep)
    case (SetReport i r)
    have "ss_clock (store_set i r st) = ss_clock st + 1" by (simp add: store_set_def Let_def)
    with SetReport Report recency_store_set [OF inv clock, of i r] show ?thesis
      by (simp add: store_apply_def root_changed_by_def Let_def unat_succ_u64 [OF clock])
  next
    case (ClearReport i)
    have "recency_of (keep_slots (\<lambda>_. False) st) = filter (\<lambda>_. False) (recency_of st)"
      "recency_of (keep_slots (\<lambda>s. \<not> is_prefix j (sl_id s)) st) =
         filter (\<lambda>e. \<not> is_prefix j (fst e)) (recency_of st)" for j
      by (rule recency_filter; simp add: slot_entry_def)+
    with ClearReport Report store_inv_keep [OF inv] show ?thesis
      by (cases i) (simp_all add: store_apply_def root_changed_by_def Let_def)
  qed
next
  case EndActivity
  have "recency_of (keep_slots (\<lambda>s. pr_state (sl_record s) = PsDone \<or> pr_state (sl_record s) = PsError) st) =
      filter (\<lambda>e. pr_state (snd e) = PsDone \<or> pr_state (snd e) = PsError) (recency_of st)"
    by (rule recency_filter) (simp add: slot_entry_def)
  with EndActivity store_inv_keep [OF inv] show ?thesis
    by (simp add: end_activity_def root_changed_by_def Let_def)
next
  case ResetStore
  have "recency_of (keep_slots (\<lambda>_. False) st) = filter (\<lambda>_. False) (recency_of st)"
    by (rule recency_filter) simp
  with ResetStore store_inv_keep [OF inv] show ?thesis
    by (simp add: store_reset_def root_changed_by_def Let_def)
qed

lemma store_get_recency:
  assumes "store_inv st"
  shows "store_get i st = map_of (recency_of st) i"
proof -
  have "store_get i st = map_of (map slot_entry (ss_slots st)) i"
  proof -
    have "map_option sl_record (List.find (\<lambda>s. sl_id s = i) l) = map_of (map slot_entry l) i" for l
      by (induction l) (auto simp: slot_entry_def)
    then show ?thesis by (simp add: store_get_def)
  qed
  moreover have "map_of (map slot_entry (ss_slots st)) = map_of (recency_of st)"
  proof -
    have f: "map fst (map slot_entry l) = map sl_id l" for l by (simp add: slot_entry_def)
    have "mset (by_recency st) = mset (ss_slots st)" by (simp add: by_recency_def)
    then have "distinct (map sl_id (by_recency st))"
      using distinct_map_mset [of "by_recency st" "ss_slots st" sl_id] assms by (simp add: store_inv_def)
    moreover have "set (map slot_entry (ss_slots st)) = set (recency_of st)"
      by (simp add: recency_of_def by_recency_def)
    ultimately show ?thesis using assms
      by (subst map_of_inject_set) (simp_all add: recency_of_def f store_inv_def)
  qed
  ultimately show ?thesis by simp
qed

definition store_run :: "store_op list \<Rightarrow> status_store" where
  "store_run ops = fold (\<lambda>op st. snd (store_step op st)) ops store_new"

text \<open>The store of a terminal is a bounded list of records in the order of their last update:
  a report replaces its whole record and moves it to the end, past 256 records the least
  recently updated goes, a clear removes a record and its subtree and nothing else, and the
  end of activity leaves exactly what finished; every lookup answers from that list.\<close>

theorem store_is_recency_list:
  assumes "length ops < 2 ^ 64"
  shows "recency_of (store_run ops) = fold recency_step ops [] \<and>
    store_get i (store_run ops) = map_of (fold recency_step ops []) i \<and>
    length (ss_slots (store_run ops)) \<le> 256"
proof -
  have "recency_of (store_run ops) = fold recency_step ops [] \<and> store_inv (store_run ops) \<and>
    unat (ss_clock (store_run ops)) \<le> length ops"
    using assms
  proof (induction ops rule: rev_induct)
    case Nil
    then show ?case by (simp add: store_run_def store_new_def recency_of_def by_recency_def store_inv_def)
  next
    case (snoc op ops)
    then have IH: "recency_of (store_run ops) = fold recency_step ops []" "store_inv (store_run ops)"
      "unat (ss_clock (store_run ops)) \<le> length ops" by simp_all
    have "unat (- 1 :: u64) = 2 ^ 64 - 1" by (simp add: unsigned_minus_1_eq_mask mask_eq_exp_minus_1)
    then have "ss_clock (store_run ops) \<noteq> - 1" using IH(3) snoc.prems by auto
    from store_step_ok [OF IH(2) this, of op] IH show ?case by (simp add: store_run_def)
  qed
  moreover from this have "length (ss_slots (store_run ops)) \<le> 256"
    by (simp add: store_inv_def MAX_RECORDS_def)
  ultimately show ?thesis by (simp add: store_get_recency)
qed

section \<open>Answering feature queries\<close>

definition REPLY_DEBOUNCE :: nat where "REPLY_DEBOUNCE = 250 * 10 ^ 6"
definition REPLY_ECHO_WINDOW :: nat where "REPLY_ECHO_WINDOW = 500 * 10 ^ 6"
definition MAX_REPLIES_PER_WINDOW :: nat where "MAX_REPLIES_PER_WINDOW = 8"
definition REPLY_CAP_WINDOW :: nat where "REPLY_CAP_WINDOW = 60 * 10 ^ 9"

record reply_gate =
  rg_outstanding :: bool
  rg_written_at :: "nat option"
  rg_last_admitted :: "nat option"
  rg_recent :: "nat list"

definition reply_gate_new :: reply_gate where
  "reply_gate_new = \<lparr>rg_outstanding = False, rg_written_at = None, rg_last_admitted = None, rg_recent = []\<rparr>"

definition mark_written :: "nat \<Rightarrow> reply_gate \<Rightarrow> reply_gate" where
  "mark_written at g = g\<lparr>rg_written_at := Some at, rg_outstanding := False\<rparr>"

definition admit :: "nat \<Rightarrow> reply_gate \<Rightarrow> bool \<times> reply_gate" where
  "admit now g =
     (let recent = dropWhile (\<lambda>t. now - t \<ge> REPLY_CAP_WINDOW) (rg_recent g);
          g1 = g\<lparr>rg_recent := recent\<rparr>;
          soon = (\<lambda>t w. case t of None \<Rightarrow> False | Some t \<Rightarrow> now - t < w)
      in if length recent \<ge> MAX_REPLIES_PER_WINDOW \<or> rg_outstanding g1 \<or>
            soon (rg_last_admitted g1) REPLY_DEBOUNCE \<or> soon (rg_written_at g1) REPLY_ECHO_WINDOW
         then (False, g1)
         else (True, g1\<lparr>rg_outstanding := True, rg_last_admitted := Some now, rg_recent := recent @ [now]\<rparr>))"

datatype reply_event = QueryAt nat | WrittenAt nat

fun event_time :: "reply_event \<Rightarrow> nat" where
  "event_time (QueryAt t) = t"
| "event_time (WrittenAt t) = t"

text \<open>The instants at which a query was answered.\<close>

fun reply_run :: "reply_event list \<Rightarrow> reply_gate \<Rightarrow> nat list" where
  "reply_run [] g = []"
| "reply_run (QueryAt t # es) g =
     (case admit t g of (ok, g') \<Rightarrow> (if ok then [t] else []) @ reply_run es g')"
| "reply_run (WrittenAt t # es) g = reply_run es (mark_written t g)"

text \<open>What the gate remembers of the answers given so far.\<close>

definition rate_ok :: "nat list \<Rightarrow> bool" where
  "rate_ok ts \<longleftrightarrow>
     (\<forall>k. k + 8 < length ts \<longrightarrow> ts ! k + 60 * 10 ^ 9 \<le> ts ! (k + 8)) \<and>
     (\<forall>k. k + 1 < length ts \<longrightarrow> ts ! k + 250 * 10 ^ 6 \<le> ts ! (k + 1))"

definition gate_knows :: "nat list \<Rightarrow> nat \<Rightarrow> reply_gate \<Rightarrow> bool" where
  "gate_knows ts now g \<longleftrightarrow>
     (\<exists>k \<le> length ts. rg_recent g = drop k ts \<and> (\<forall>t \<in> set (take k ts). t + REPLY_CAP_WINDOW \<le> now)) \<and>
     rg_last_admitted g = (if ts = [] then None else Some (last ts)) \<and> (\<forall>t \<in> set ts. t \<le> now)"

lemma dropWhile_drop: "\<exists>j \<le> length xs. dropWhile P xs = drop j xs \<and> (\<forall>x \<in> set (take j xs). P x)"
  by (intro exI [of _ "length (takeWhile P xs)"])
    (auto simp: dropWhile_eq_drop takeWhile_eq_take [symmetric] length_takeWhile_le dest: set_takeWhileD)

lemma admit_knows:
  assumes k: "gate_knows ts t0 g" and t: "t0 \<le> t" and rate: "rate_ok ts" and a: "admit t g = (ok, g')"
  shows "gate_knows (ts @ (if ok then [t] else [])) t g' \<and> rate_ok (ts @ (if ok then [t] else []))"
proof -
  obtain k where k1: "k \<le> length ts" "rg_recent g = drop k ts"
      "\<forall>x \<in> set (take k ts). x + REPLY_CAP_WINDOW \<le> t0"
    and la: "rg_last_admitted g = (if ts = [] then None else Some (last ts))" and le: "\<forall>x \<in> set ts. x \<le> t0"
    using k by (auto simp: gate_knows_def)
  let ?P = "\<lambda>x. t - x \<ge> REPLY_CAP_WINDOW"
  obtain j where j: "j \<le> length (drop k ts)" "dropWhile ?P (rg_recent g) = drop j (drop k ts)"
      "\<forall>x \<in> set (take j (drop k ts)). ?P x"
    using dropWhile_drop [of "drop k ts" ?P] k1(2) by auto
  let ?n = "k + j"
  have n: "?n \<le> length ts" using j(1) k1(1) by simp
  have rec: "dropWhile ?P (rg_recent g) = drop ?n ts" using j(2) by (simp add: add.commute)
  have old: "\<forall>x \<in> set (take ?n ts). x + REPLY_CAP_WINDOW \<le> t"
  proof
    fix x assume "x \<in> set (take ?n ts)"
    then have "x \<in> set (take k ts) \<or> x \<in> set (take j (drop k ts))" by (simp add: take_add)
    then show "x + REPLY_CAP_WINDOW \<le> t"
      using k1(3) j(3) t by (force simp: REPLY_CAP_WINDOW_def)
  qed
  have le': "\<forall>x \<in> set ts. x \<le> t" using le t by force
  show ?thesis
  proof (cases ok)
    case False
    then have "rg_recent g' = drop ?n ts" "rg_last_admitted g' = rg_last_admitted g"
      using a rec by (auto simp: admit_def Let_def split: if_splits)
    then show ?thesis using False la n old le' rate unfolding gate_knows_def by auto
  next
    case True
    have lt: "ts \<noteq> [] \<longrightarrow> last ts \<le> t" using le' by simp
    from True have r: "rg_recent g' = drop ?n ts @ [t]" "rg_last_admitted g' = Some t"
        "length (drop ?n ts) < 8" "ts \<noteq> [] \<longrightarrow> last ts + REPLY_DEBOUNCE \<le> t"
      using a rec la lt by (auto simp: admit_def Let_def MAX_REPLIES_PER_WINDOW_def split: if_splits)
    have "gate_knows (ts @ [t]) t g'"
      unfolding gate_knows_def using r n old le' by (auto intro!: exI [of _ ?n])
    moreover have "rate_ok (ts @ [t])"
    proof -
      have "ts ! m + 60 * 10 ^ 9 \<le> t" if "m + 8 = length ts" for m
      proof -
        have "m < ?n" using that r(3) by auto
        then have "ts ! m \<in> set (take ?n ts)" using n by (metis in_set_conv_nth length_take min.absorb2 nth_take)
        with old show ?thesis by (simp add: REPLY_CAP_WINDOW_def)
      qed
      moreover have "ts ! m + 250 * 10 ^ 6 \<le> t" if "m + 1 = length ts" for m
      proof -
        have "ts \<noteq> []" "length ts - 1 = m" using that by auto
        then show ?thesis using r(4) last_conv_nth [of ts] by (simp add: REPLY_DEBOUNCE_def)
      qed
      ultimately show ?thesis using rate
        by (auto simp: rate_ok_def nth_append less_Suc_eq)
    qed
    ultimately show ?thesis using True by simp
  qed
qed

lemma written_knows: "gate_knows ts t0 g \<Longrightarrow> t0 \<le> t \<Longrightarrow> gate_knows ts t (mark_written t g)"
  by (auto simp: gate_knows_def mark_written_def intro: order_trans)

text \<open>However often the query comes, at most eight answers fall into any minute and two are a
  quarter of a second apart.\<close>

theorem replies_are_rate_limited:
  assumes "sorted (map event_time es)"
  shows "rate_ok (reply_run es reply_gate_new)"
proof -
  have "rate_ok (ts @ reply_run es g)"
    if "gate_knows ts t0 g" "rate_ok ts" "sorted (map event_time es)" "\<forall>e \<in> set es. t0 \<le> event_time e" for ts t0 g
    using that
  proof (induction es arbitrary: ts t0 g)
    case (Cons e es)
    show ?case
    proof (cases e)
      case (QueryAt t)
      obtain ok g' where a: "admit t g = (ok, g')" by force
      have "t0 \<le> t" using Cons.prems QueryAt by simp
      from admit_knows [OF Cons.prems(1) this Cons.prems(2) a]
      have "gate_knows (ts @ (if ok then [t] else [])) t g'" "rate_ok (ts @ (if ok then [t] else []))" by auto
      from Cons.IH [OF this] Cons.prems QueryAt a show ?thesis by auto
    next
      case (WrittenAt t)
      with Cons.prems have "gate_knows ts t (mark_written t g)" by (intro written_knows) auto
      from Cons.IH [OF this Cons.prems(2)] Cons.prems WrittenAt show ?thesis by auto
    qed
  qed simp
  from this [of "[]" 0 reply_gate_new] assms show ?thesis
    by (simp add: gate_knows_def reply_gate_new_def rate_ok_def)
qed

section \<open>The hypotheses can hold\<close>

definition demo_bytes :: bytes where
  "demo_bytes = blit ''state=working:progress=40:app=cc:id=a/b''"


definition demo_record :: program_record where
  "demo_record = \<lparr>pr_state = PsDone, pr_kind = None, pr_progress = None, pr_app = None,
     pr_title = None, pr_msg = None\<rparr>"

lemma store_is_recency_list_witness:
  "store_get [] (store_run [Report (SetReport [] demo_record), EndActivity]) = Some demo_record"
  using store_is_recency_list [of "[Report (SetReport [] demo_record), EndActivity]" "[]"]
  by (simp add: recency_set_def MAX_RECORDS_def demo_record_def)

lemma replies_are_rate_limited_witness:
  "rate_ok (reply_run [QueryAt 0, WrittenAt 10, QueryAt 1000] reply_gate_new)"
  by (rule replies_are_rate_limited) simp

end
