(* ===== verification/Agent_Status.thy ===== *)
theory Agent_Status
  imports Program_Status
begin

text \<open>
  The status machine of one agent session (\<open>crates/agents/src/status_machine.rs\<close>) with the
  mappings it uses (\<open>osc_sideband.rs\<close>, \<open>program_status.rs\<close>; the records of the latter are those of
  the theory \<open>Program_Status\<close>) and the status itself
  (\<open>crates/core/src/agent_session.rs\<close>).  A pattern of an adapter is the predicate its regular
  expression decides on the scan window together with the status it stands for; instants are
  nanoseconds since an origin.
\<close>

section \<open>Statuses\<close>

datatype session_status =
    Idle
  | Running
  | WaitingForInput
  | NeedsApproval utext
  | Done "int option"
  | Failed utext
  | Interrupted

fun is_blocking :: "session_status \<Rightarrow> bool" where
  "is_blocking WaitingForInput = True"
| "is_blocking (NeedsApproval _) = True"
| "is_blocking _ = False"

fun is_terminal :: "session_status \<Rightarrow> bool" where
  "is_terminal (Done _) = True"
| "is_terminal (Failed _) = True"
| "is_terminal Interrupted = True"
| "is_terminal _ = False"

datatype sideband_state = SbWorking | SbIdle | SbWaiting | SbNeedsApproval | SbDone

fun map_state_to_status :: "sideband_state \<Rightarrow> utext option \<Rightarrow> session_status" where
  "map_state_to_status SbWorking tool = Running"
| "map_state_to_status SbIdle tool = Idle"
| "map_state_to_status SbWaiting tool = WaitingForInput"
| "map_state_to_status SbNeedsApproval tool = NeedsApproval (case tool of Some t \<Rightarrow> t | None \<Rightarrow> [])"
| "map_state_to_status SbDone tool = Done None"

definition map_program_status :: "program_record \<Rightarrow> session_status \<times> utext option" where
  "map_program_status r =
     (case pr_state r of
        PsIdle \<Rightarrow> (Idle, None)
      | PsWorking \<Rightarrow> (Running, None)
      | PsDone \<Rightarrow> (Idle, pr_msg r)
      | PsError \<Rightarrow> (Idle, Some (lit ''error: '' @ (case pr_msg r of Some m \<Rightarrow> m | None \<Rightarrow> [])))
      | PsBlocked \<Rightarrow>
          (if pr_kind r = Some BkPermission then
             (NeedsApproval (case pr_msg r of
                 Some m \<Rightarrow> m
               | None \<Rightarrow> (case pr_app r of Some a \<Rightarrow> a | None \<Rightarrow> [])), pr_msg r)
           else (WaitingForInput, pr_msg r)))"

section \<open>The machine\<close>

definition SCAN_WINDOW_BYTES :: nat where "SCAN_WINDOW_BYTES = 1024"

definition IDLE_AFTER :: nat where "IDLE_AFTER = 5 * 10 ^ 9"

datatype status_source = SrcRegex | SrcSideband | SrcProgramStatus

record status_pattern =
  pat_is_match :: "bytes \<Rightarrow> bool"
  pat_transition :: session_status

record status_transition =
  tr_from :: session_status
  tr_to :: session_status

record status_machine =
  sm_patterns :: "status_pattern list"
  sm_ring :: bytes
  sm_current :: session_status
  sm_last_output_at :: "nat option"
  sm_sideband_running :: bool
  sm_source :: status_source
  sm_sideband_seen :: bool

definition sm_new :: "status_pattern list \<Rightarrow> status_machine" where
  "sm_new patterns =
     \<lparr>sm_patterns = patterns, sm_ring = [], sm_current = Idle, sm_last_output_at = None,
      sm_sideband_running = False, sm_source = SrcRegex, sm_sideband_seen = False\<rparr>"

definition push_to_ring :: "bytes \<Rightarrow> status_machine \<Rightarrow> status_machine" where
  "push_to_ring bs m =
     (let tail = (if length bs > SCAN_WINDOW_BYTES then drop (length bs - SCAN_WINDOW_BYTES) bs else bs);
          total = length (sm_ring m) + length tail;
          ring = (if total > SCAN_WINDOW_BYTES then drop (total - SCAN_WINDOW_BYTES) (sm_ring m)
                  else sm_ring m)
      in m\<lparr>sm_ring := ring @ tail\<rparr>)"

definition transition_to :: "session_status \<Rightarrow> status_machine \<Rightarrow> status_transition option \<times> status_machine" where
  "transition_to to m =
     (if sm_current m = to then (None, m)
      else (Some \<lparr>tr_from = sm_current m, tr_to = to\<rparr>,
            (let m' = m\<lparr>sm_current := to\<rparr> in if is_blocking to then m'\<lparr>sm_ring := []\<rparr> else m')))"

definition sm_feed :: "bytes \<Rightarrow> nat \<Rightarrow> status_machine \<Rightarrow> status_transition option \<times> status_machine" where
  "sm_feed bs now m =
     (if bs = [] \<or> is_terminal (sm_current m) \<or> sm_source m = SrcProgramStatus then (None, m)
      else
        (let m1 = push_to_ring bs m;
             m2 = (if \<not> sm_sideband_running m1 then m1\<lparr>sm_last_output_at := Some now\<rparr> else m1)
         in case List.find (\<lambda>p. pat_is_match p (sm_ring m2)) (sm_patterns m2) of
              Some p \<Rightarrow>
                transition_to (pat_transition p)
                  (if pat_transition p \<noteq> Running then m2\<lparr>sm_sideband_running := False\<rparr> else m2)
            | None \<Rightarrow>
                (if sm_source m2 = SrcRegex \<and> sm_current m2 \<noteq> Running
                 then transition_to Running (m2\<lparr>sm_sideband_running := False\<rparr>)
                 else (None, m2))))"

definition sm_tick :: "nat \<Rightarrow> status_machine \<Rightarrow> status_transition option \<times> status_machine" where
  "sm_tick now m =
     (if sm_current m \<noteq> Running then (None, m)
      else if sm_sideband_running m \<or> sm_source m \<noteq> SrcRegex then (None, m)
      else (case sm_last_output_at m of
              None \<Rightarrow> (None, m)
            | Some at \<Rightarrow> if now - at \<ge> IDLE_AFTER then transition_to Idle m else (None, m)))"

definition exit_text :: "int \<Rightarrow> utext" where
  "exit_text c = lit ''exit '' @ (if c < 0 then lit ''-'' else []) @ dec_text (nat \<bar>c\<bar>)"

definition note_exit :: "int option \<Rightarrow> status_machine \<Rightarrow> status_transition option \<times> status_machine" where
  "note_exit code m =
     (if is_terminal (sm_current m) then (None, m)
      else transition_to
             (case code of
                Some c \<Rightarrow> if c = 0 then Done (Some 0) else Failed (exit_text c)
              | None \<Rightarrow> Done None)
             (m\<lparr>sm_sideband_running := False\<rparr>))"

definition note_interrupted :: "status_machine \<Rightarrow> status_transition option \<times> status_machine" where
  "note_interrupted m =
     (if is_terminal (sm_current m) then (None, m)
      else transition_to Interrupted (m\<lparr>sm_sideband_running := False\<rparr>))"

definition sm_force :: "session_status \<Rightarrow> status_machine \<Rightarrow> status_transition option \<times> status_machine" where
  "sm_force s m =
     (if is_terminal (sm_current m) then (None, m)
      else transition_to s (m\<lparr>sm_sideband_running := False\<rparr>))"

definition feed_sideband ::
  "sideband_state \<Rightarrow> utext option \<Rightarrow> status_machine \<Rightarrow> status_transition option \<times> status_machine" where
  "feed_sideband state tool m =
     (let derived = map_state_to_status state tool;
          m1 = m\<lparr>sm_sideband_seen := True\<rparr>
      in if sm_source m1 = SrcProgramStatus then (None, m1)
         else
           (let m2 = m1\<lparr>sm_source := SrcSideband\<rparr>
            in if is_terminal (sm_current m2) then (None, m2)
               else
                 (let m3 = m2\<lparr>sm_sideband_running := (derived = Running)\<rparr>;
                      m4 = (if sm_sideband_running m3 then m3\<lparr>sm_last_output_at := None\<rparr> else m3)
                  in transition_to derived m4)))"

definition feed_program_status ::
  "program_record option \<Rightarrow> bool \<Rightarrow> status_machine \<Rightarrow> status_transition option \<times> status_machine" where
  "feed_program_status root trusted m =
     (if is_terminal (sm_current m) then (None, m)
      else (case root of
              None \<Rightarrow>
                (None,
                 if sm_source m = SrcProgramStatus
                 then m\<lparr>sm_source := (if sm_sideband_seen m then SrcSideband else SrcRegex)\<rparr> else m)
            | Some r \<Rightarrow>
                if sm_source m \<noteq> SrcProgramStatus \<and> \<not> trusted then (None, m)
                else transition_to (fst (map_program_status r))
                       (m\<lparr>sm_source := SrcProgramStatus, sm_sideband_running := False,
                          sm_last_output_at := None\<rparr>)))"

section \<open>A session over time\<close>

datatype sm_op =
    SmFeed bytes nat
  | SmTick nat
  | SmExit "int option"
  | SmInterrupted
  | SmForce session_status
  | SmSideband sideband_state "utext option"
  | SmProgram "program_record option" bool

fun sm_step :: "sm_op \<Rightarrow> status_machine \<Rightarrow> status_transition option \<times> status_machine" where
  "sm_step (SmFeed bs now) m = sm_feed bs now m"
| "sm_step (SmTick now) m = sm_tick now m"
| "sm_step (SmExit code) m = note_exit code m"
| "sm_step SmInterrupted m = note_interrupted m"
| "sm_step (SmForce s) m = sm_force s m"
| "sm_step (SmSideband s tool) m = feed_sideband s tool m"
| "sm_step (SmProgram root trusted) m = feed_program_status root trusted m"

fun sm_run :: "sm_op list \<Rightarrow> status_machine \<Rightarrow> status_transition list \<times> status_machine" where
  "sm_run [] m = ([], m)"
| "sm_run (op # ops) m =
     (case sm_step op m of
        (t, m') \<Rightarrow> (case sm_run ops m' of (ts, m'') \<Rightarrow> ((case t of Some t \<Rightarrow> [t] | None \<Rightarrow> []) @ ts, m'')))"

lemma sm_run_Cons:
  "sm_run (op # ops) m =
     ((case fst (sm_step op m) of Some t \<Rightarrow> [t] | None \<Rightarrow> []) @ fst (sm_run ops (snd (sm_step op m))),
      snd (sm_run ops (snd (sm_step op m))))"
  by (simp split: prod.split)

declare sm_run.simps(2) [simp del]

lemmas sm_defs = sm_feed_def sm_tick_def note_exit_def note_interrupted_def sm_force_def
  feed_sideband_def feed_program_status_def transition_to_def Let_def

text \<open>A transition of a step is announced exactly when the status changed, and says so.\<close>

lemma transition_to_announces:
  "transition_to s m = (t, m') \<Longrightarrow>
   t = (if sm_current m = s then None else Some \<lparr>tr_from = sm_current m, tr_to = s\<rparr>) \<and> sm_current m' = s"
  by (auto simp: transition_to_def Let_def split: if_splits)

lemma push_to_ring_fields [simp]:
  "sm_current (push_to_ring bs m) = sm_current m" "sm_source (push_to_ring bs m) = sm_source m"
  "sm_patterns (push_to_ring bs m) = sm_patterns m"
  "sm_sideband_running (push_to_ring bs m) = sm_sideband_running m"
  "sm_sideband_seen (push_to_ring bs m) = sm_sideband_seen m"
  by (simp_all add: push_to_ring_def Let_def)

lemma sm_step_announces:
  "sm_step op m = (t, m') \<Longrightarrow>
   (t = None \<and> sm_current m' = sm_current m) \<or>
   (t = Some \<lparr>tr_from = sm_current m, tr_to = sm_current m'\<rparr> \<and> sm_current m' \<noteq> sm_current m)"
  by (cases op) (auto simp: sm_defs split: if_splits option.splits)

lemma sm_step_terminal: "is_terminal (sm_current m) \<Longrightarrow> sm_step op m = (t, m') \<Longrightarrow>
   t = None \<and> sm_current m' = sm_current m"
  by (cases op) (auto simp: sm_defs split: if_splits option.splits)

fun chained :: "session_status \<Rightarrow> status_transition list \<Rightarrow> session_status \<Rightarrow> bool" where
  "chained s [] s' = (s = s')"
| "chained s (t # ts) s' \<longleftrightarrow>
     tr_from t = s \<and> tr_to t \<noteq> s \<and> \<not> is_terminal s \<and> chained (tr_to t) ts s'"

text \<open>The transitions a session announces are the whole story of its status: they form a chain
  from Idle to the current status, each one a real change, and none leaves a terminal
  status, whatever output, hooks, reports, clicks or exits arrive and in whatever order.\<close>

theorem announced_transitions_chain:
  "chained Idle (fst (sm_run ops (sm_new ps))) (sm_current (snd (sm_run ops (sm_new ps))))"
proof -
  have "chained (sm_current m) (fst (sm_run ops m)) (sm_current (snd (sm_run ops m)))" for m
  proof (induction ops arbitrary: m)
    case (Cons op ops)
    obtain t m' where s: "sm_step op m = (t, m')" by force
    obtain ts m'' where r: "sm_run ops m' = (ts, m'')" by force
    have IH: "chained (sm_current m') ts (sm_current m'')" using Cons.IH [of m'] r by simp
    from sm_step_announces [OF s] show ?case
    proof
      assume "t = None \<and> sm_current m' = sm_current m"
      with s r IH show ?thesis by (simp add: sm_run_Cons)
    next
      assume a: "t = Some \<lparr>tr_from = sm_current m, tr_to = sm_current m'\<rparr> \<and> sm_current m' \<noteq> sm_current m"
      then have "\<not> is_terminal (sm_current m)" using sm_step_terminal [OF _ s] by auto
      with a s r IH show ?thesis by (simp add: sm_run_Cons)
    qed
  qed simp
  from this [of "sm_new ps"] show ?thesis by (simp add: sm_new_def)
qed

section \<open>The scan window\<close>

lemma push_to_ring_window:
  "length (sm_ring m) \<le> SCAN_WINDOW_BYTES \<Longrightarrow>
   sm_ring (push_to_ring bs m) = lastn SCAN_WINDOW_BYTES (sm_ring m @ bs)"
proof (cases "length bs > SCAN_WINDOW_BYTES")
  case True
  then show ?thesis by (simp add: push_to_ring_def Let_def lastn_append_long) (simp add: lastn_def)
next
  case False
  assume "length (sm_ring m) \<le> SCAN_WINDOW_BYTES"
  with False show ?thesis by (auto simp: push_to_ring_def Let_def lastn_def)
qed

text \<open>
  The output the machine has looked at since the user was last asked something: what
  arrives counts unless the session has ended or the program speaks for itself, and a step
  that enters a blocking status starts afresh.
\<close>

definition recent_output :: "sm_op \<Rightarrow> status_machine \<Rightarrow> bytes \<Rightarrow> bytes" where
  "recent_output op m out =
     (let seen = (case op of
                    SmFeed bs _ \<Rightarrow>
                      (if is_terminal (sm_current m) \<or> sm_source m = SrcProgramStatus then out else out @ bs)
                  | _ \<Rightarrow> out)
      in case fst (sm_step op m) of
           Some t \<Rightarrow> (if is_blocking (tr_to t) then [] else seen)
         | None \<Rightarrow> seen)"

fun recent_outputs :: "sm_op list \<Rightarrow> status_machine \<Rightarrow> bytes \<Rightarrow> bytes" where
  "recent_outputs [] m out = out"
| "recent_outputs (op # ops) m out = recent_outputs ops (snd (sm_step op m)) (recent_output op m out)"

lemma transition_ring:
  "sm_ring (snd (transition_to s m)) =
     (if sm_current m \<noteq> s \<and> is_blocking s then [] else sm_ring m)"
  "fst (transition_to s m) = (if sm_current m = s then None else Some \<lparr>tr_from = sm_current m, tr_to = s\<rparr>)"
  by (simp_all add: transition_to_def Let_def)

lemma feed_ring:
  assumes "bs \<noteq> []" "\<not> is_terminal (sm_current m)" "sm_source m \<noteq> SrcProgramStatus"
  shows "sm_ring (snd (sm_feed bs now m)) =
    (case fst (sm_feed bs now m) of
       Some t \<Rightarrow> if is_blocking (tr_to t) then [] else sm_ring (push_to_ring bs m)
     | None \<Rightarrow> sm_ring (push_to_ring bs m))"
  using assms by (simp add: sm_feed_def Let_def transition_ring split: option.split)

lemma window_step:
  assumes w: "sm_ring m = lastn SCAN_WINDOW_BYTES out"
  shows "sm_ring (snd (sm_step op m)) = lastn SCAN_WINDOW_BYTES (recent_output op m out)"
proof (cases op)
  case (SmFeed bs now)
  have l: "length (sm_ring m) \<le> SCAN_WINDOW_BYTES" using w by simp
  show ?thesis
  proof (cases "is_terminal (sm_current m) \<or> sm_source m = SrcProgramStatus \<or> bs = []")
    case True
    with SmFeed w show ?thesis by (auto simp: recent_output_def sm_feed_def)
  next
    case False
    then have "sm_ring (snd (sm_step op m)) =
      (case fst (sm_step op m) of
         Some t \<Rightarrow> if is_blocking (tr_to t) then [] else lastn SCAN_WINDOW_BYTES (out @ bs)
       | None \<Rightarrow> lastn SCAN_WINDOW_BYTES (out @ bs))"
      using feed_ring [of bs m now] push_to_ring_window [OF l, of bs] w SmFeed
      by (simp add: lastn_lastn_append split: option.split)
    with False SmFeed show ?thesis by (simp add: recent_output_def split: option.split)
  qed
qed (use w in \<open>auto simp: recent_output_def sm_tick_def note_exit_def note_interrupted_def sm_force_def
    feed_sideband_def feed_program_status_def Let_def transition_ring split: option.splits\<close>)

text \<open>What the patterns are matched against is the last kilobyte of the output since the user
  was last asked something: nothing older pins the status to a prompt that was answered, and
  nothing newer is missed, however the output was cut into chunks.\<close>

theorem scan_window_is_recent_output:
  "sm_ring (snd (sm_run ops (sm_new ps))) =
     lastn SCAN_WINDOW_BYTES (recent_outputs ops (sm_new ps) [])"
proof -
  have "sm_ring (snd (sm_run ops m)) = lastn SCAN_WINDOW_BYTES (recent_outputs ops m out)"
    if "sm_ring m = lastn SCAN_WINDOW_BYTES out" for m out
    using that
  proof (induction ops arbitrary: m out)
    case (Cons op ops)
    obtain t m' where s: "sm_step op m = (t, m')" by force
    from window_step [OF Cons.prems, of op] s
    have "sm_ring m' = lastn SCAN_WINDOW_BYTES (recent_output op m out)" by simp
    from Cons.IH [OF this] s show ?case by (simp add: sm_run_Cons)
  qed simp
  from this [of "sm_new ps" "[]"] show ?thesis by (simp add: sm_new_def)
qed

section \<open>Ranks\<close>

definition is_report :: "sm_op \<Rightarrow> bool" where
  "is_report op = (case op of SmProgram _ _ \<Rightarrow> True | _ \<Rightarrow> False)"

definition trusted_report :: "sm_op \<Rightarrow> bool" where
  "trusted_report op = (case op of SmProgram (Some _) trusted \<Rightarrow> trusted | _ \<Rightarrow> False)"

lemma source_step:
  "sm_source m \<noteq> SrcProgramStatus \<Longrightarrow> \<not> trusted_report op \<Longrightarrow>
   sm_source (snd (sm_step op m)) \<noteq> SrcProgramStatus"
  by (cases op) (auto simp: sm_defs trusted_report_def split: if_splits option.splits)

lemma report_ignored:
  "sm_source m \<noteq> SrcProgramStatus \<Longrightarrow> \<not> trusted_report op \<Longrightarrow> is_report op \<Longrightarrow> sm_step op m = (None, m)"
  by (cases op) (auto simp: feed_program_status_def trusted_report_def is_report_def split: option.splits)

text \<open>As long as no trusted report arrives, program reports do nothing at all: the session goes
  exactly as if the bytes that carried them had not been there, so a file that merely
  contains report bytes cannot set an agent's status.\<close>

theorem forged_reports_ignored:
  assumes "\<forall>op \<in> set ops. \<not> trusted_report op"
  shows "sm_run ops (sm_new ps) = sm_run (filter (\<lambda>op. \<not> is_report op) ops) (sm_new ps)"
proof -
  have "sm_run ops m = sm_run (filter (\<lambda>op. \<not> is_report op) ops) m"
    if "sm_source m \<noteq> SrcProgramStatus" "\<forall>op \<in> set ops. \<not> trusted_report op" for m
    using that
  proof (induction ops arbitrary: m)
    case (Cons op ops)
    have nt: "\<not> trusted_report op" using Cons.prems by simp
    from source_step [OF Cons.prems(1) nt] Cons.IH Cons.prems(2)
    have "sm_run ops (snd (sm_step op m)) =
      sm_run (filter (\<lambda>op. \<not> is_report op) ops) (snd (sm_step op m))" by simp
    then show ?case using report_ignored [OF Cons.prems(1) nt]
      by (cases "is_report op") (simp_all add: sm_run_Cons)
  qed simp
  from this [of "sm_new ps"] assms show ?thesis by (simp add: sm_new_def)
qed

definition outranked :: "sm_op \<Rightarrow> bool" where
  "outranked op = (case op of SmFeed _ _ \<Rightarrow> True | SmTick _ \<Rightarrow> True | SmSideband _ _ \<Rightarrow> True | _ \<Rightarrow> False)"

definition like :: "status_machine \<Rightarrow> status_machine \<Rightarrow> bool" where
  "like m m' \<longleftrightarrow> (\<exists>v. m' = m\<lparr>sm_sideband_seen := v\<rparr>)"

lemma like_fields: "like m m' \<Longrightarrow> sm_current m' = sm_current m \<and> sm_source m' = sm_source m"
  by (auto simp: like_def)

lemma like_refl [simp]: "like m m"
  unfolding like_def by (rule exI [of _ "sm_sideband_seen m"]) simp

lemma like_seen [simp]: "like m (m\<lparr>sm_sideband_seen := v\<rparr>)"
  unfolding like_def by blast

lemma transition_to_seen:
  "transition_to s (m\<lparr>sm_sideband_seen := v\<rparr>) =
     (fst (transition_to s m), (snd (transition_to s m))\<lparr>sm_sideband_seen := v\<rparr>)"
  by (simp add: transition_to_def Let_def)

lemma transition_to_source [simp]: "sm_source (snd (transition_to s m)) = sm_source m"
  by (simp add: transition_to_def Let_def)

lemma outranked_step:
  "sm_source m = SrcProgramStatus \<Longrightarrow> outranked op \<Longrightarrow>
   fst (sm_step op m) = None \<and> like m (snd (sm_step op m))"
  by (cases op) (simp_all add: sm_feed_def sm_tick_def feed_sideband_def Let_def outranked_def)

lemma like_step:
  assumes "like m m'" "sm_source m = SrcProgramStatus" "\<not> outranked op" "op \<noteq> SmProgram None b" "op \<noteq> SmProgram None (\<not> b)"
  shows "fst (sm_step op m') = fst (sm_step op m) \<and> like (snd (sm_step op m)) (snd (sm_step op m')) \<and>
    sm_source (snd (sm_step op m)) = SrcProgramStatus"
proof -
  obtain v where m': "m' = m\<lparr>sm_sideband_seen := v\<rparr>"
    using assms(1) by (auto simp: like_def)
  have seen: "m\<lparr>sm_sideband_seen := v, sm_sideband_running := False\<rparr> =
      m\<lparr>sm_sideband_running := False, sm_sideband_seen := v\<rparr>"
    "m\<lparr>sm_sideband_seen := v, sm_source := SrcProgramStatus, sm_sideband_running := False, sm_last_output_at := None\<rparr> =
      m\<lparr>sm_source := SrcProgramStatus, sm_sideband_running := False, sm_last_output_at := None, sm_sideband_seen := v\<rparr>"
    by simp_all
  show ?thesis
  proof (cases op)
    case (SmProgram root trusted)
    with assms(4,5) obtain r where "root = Some r" by (cases root; cases b; cases trusted) auto
    with SmProgram assms(2) show ?thesis unfolding m'
      by (simp add: feed_program_status_def seen transition_to_seen)
  qed (use assms(2,3) in \<open>simp_all add: m' note_exit_def note_interrupted_def sm_force_def seen
      transition_to_seen outranked_def\<close>)
qed

text \<open>While the program reports its own status, output, silence and hooks decide nothing: the
  transitions and the status are those of the reports, clicks, cancels and exits alone.\<close>

theorem program_reports_outrank:
  assumes "sm_source m = SrcProgramStatus" and "\<forall>b. SmProgram None b \<notin> set ops"
  shows "fst (sm_run ops m) = fst (sm_run (filter (\<lambda>op. \<not> outranked op) ops) m) \<and>
    sm_current (snd (sm_run ops m)) = sm_current (snd (sm_run (filter (\<lambda>op. \<not> outranked op) ops) m))"
proof -
  have "fst (sm_run ops m') = fst (sm_run (filter (\<lambda>op. \<not> outranked op) ops) m) \<and>
    like (snd (sm_run (filter (\<lambda>op. \<not> outranked op) ops) m)) (snd (sm_run ops m'))"
    if "like m m'" "sm_source m = SrcProgramStatus" "\<forall>b. SmProgram None b \<notin> set ops" for m m'
    using that
  proof (induction ops arbitrary: m m')
    case (Cons op ops)
    have rest: "\<forall>b. SmProgram None b \<notin> set ops" using Cons.prems(3) by simp
    show ?case
    proof (cases "outranked op")
      case True
      have "sm_source m' = SrcProgramStatus" using like_fields [OF Cons.prems(1)] Cons.prems(2) by simp
      from outranked_step [OF this True] have o: "fst (sm_step op m') = None" "like m' (snd (sm_step op m'))"
        by auto
      then have "like m (snd (sm_step op m'))" using Cons.prems(1) by (auto simp: like_def)
      from Cons.IH [OF this Cons.prems(2) rest] o True show ?thesis by (simp add: sm_run_Cons)
    next
      case False
      have "op \<noteq> SmProgram None True" "op \<noteq> SmProgram None (\<not> True)" using Cons.prems(3) by auto
      from like_step [OF Cons.prems(1,2) False this] have
        l: "fst (sm_step op m') = fst (sm_step op m)" "like (snd (sm_step op m)) (snd (sm_step op m'))"
           "sm_source (snd (sm_step op m)) = SrcProgramStatus" by auto
      from Cons.IH [OF l(2,3) rest] l(1) False show ?thesis by (simp add: sm_run_Cons)
    qed
  qed simp
  moreover have "like m m" unfolding like_def by (rule exI [of _ "sm_sideband_seen m"]) simp
  ultimately have
    "fst (sm_run ops m) = fst (sm_run (filter (\<lambda>op. \<not> outranked op) ops) m) \<and>
     like (snd (sm_run (filter (\<lambda>op. \<not> outranked op) ops) m)) (snd (sm_run ops m))"
    using assms by blast
  then show ?thesis using like_fields by blast
qed

text \<open>A hook that reports the end of a turn ends the session instead: after a \<open>done\<close> event the
  status stays Done whatever the agent does in later turns, and the exit that really ends
  the process announces nothing, with whatever code.\<close>

theorem sideband_done_is_final:
  assumes "sm_source m \<noteq> SrcProgramStatus" and "\<not> is_terminal (sm_current m)"
    and "m' = snd (sm_step (SmSideband SbDone tool) m)"
  shows "fst (sm_run ops m') = [] \<and> sm_current (snd (sm_run ops m')) = Done None"
proof -
  have d: "sm_current m' = Done None" using assms by (auto simp: sm_defs split: if_splits)
  have "fst (sm_run ops k) = [] \<and> sm_current (snd (sm_run ops k)) = Done None"
    if "sm_current k = Done None" for k
    using that
  proof (induction ops arbitrary: k)
    case (Cons op ops)
    obtain t k' where s: "sm_step op k = (t, k')" by force
    with sm_step_terminal [of k op t k'] Cons.prems have "t = None" "sm_current k' = Done None" by auto
    with Cons.IH [of k'] s show ?case by (simp add: sm_run_Cons)
  qed simp
  from this [OF d] show ?thesis .
qed

section \<open>The hypotheses can hold\<close>

definition demo_patterns :: "status_pattern list" where
  "demo_patterns = [\<lparr>pat_is_match = (\<lambda>bs. 63 \<in> set bs), pat_transition = NeedsApproval (lit ''ask'')\<rparr>]"

definition demo_report :: program_record where
  "demo_report = \<lparr>pr_state = PsWorking, pr_kind = None, pr_progress = None, pr_app = None,
     pr_title = None, pr_msg = None\<rparr>"

lemma forged_reports_ignored_witness:
  "sm_run [SmProgram (Some demo_report) False, SmFeed [63] 1] (sm_new demo_patterns) =
   sm_run [SmFeed [63] 1] (sm_new demo_patterns)"
  using forged_reports_ignored [of "[SmProgram (Some demo_report) False, SmFeed [63] 1]" demo_patterns]
  by (simp add: trusted_report_def is_report_def)

lemma program_reports_outrank_witness:
  "fst (sm_run [SmFeed [63] 1, SmExit (Some 0)] ((sm_new demo_patterns)\<lparr>sm_source := SrcProgramStatus\<rparr>)) =
   fst (sm_run [SmExit (Some 0)] ((sm_new demo_patterns)\<lparr>sm_source := SrcProgramStatus\<rparr>))"
  using program_reports_outrank [of "(sm_new demo_patterns)\<lparr>sm_source := SrcProgramStatus\<rparr>"
      "[SmFeed [63] 1, SmExit (Some 0)]"]
  by (simp add: outranked_def)

lemma sideband_done_is_final_witness:
  "fst (sm_run [SmSideband SbWorking None, SmExit (Some 1)]
     (snd (sm_step (SmSideband SbDone None) (sm_new demo_patterns)))) = []"
  using sideband_done_is_final [of "sm_new demo_patterns" _ None "[SmSideband SbWorking None, SmExit (Some 1)]",
      OF _ _ refl]
  by (simp add: sm_new_def)

end
