(* ===== verification/Lineage.thy ===== *)
theory Lineage
  imports Envelope "HOL-Library.AList"
begin

text \<open>
  Which agent started which, under which caps (\<open>crates/agents/src/lineage.rs\<close>).  The table is
  the list of its rows in the order of their ids, with the constraints of its schema
  (\<open>crates/storage/migrations/V032__agent_lineage.sql\<close>); a method is one transaction, and a
  transaction that is not committed changes nothing.  The digest of a request is a
  parameter.  Instants are nanoseconds since an origin; depths, counts and caps are natural
  numbers.
\<close>

section \<open>Data\<close>

definition USER_ROOT :: string where "USER_ROOT = ''-''"
definition MAX_DEPTH :: nat where "MAX_DEPTH = 2"
definition RESERVATION_TIMEOUT_S :: int where "RESERVATION_TIMEOUT_S = 300"
definition ACTIVE_GRACE_S :: int where "ACTIVE_GRACE_S = 30"
definition START_FAILURE_LIMIT :: nat where "START_FAILURE_LIMIT = 3"
definition START_FAILURE_COOLDOWN_S :: int where "START_FAILURE_COOLDOWN_S = 60"
definition PARKED_IDS_SHOWN :: nat where "PARKED_IDS_SHOWN = 8"

definition seconds :: "int \<Rightarrow> int" where
  "seconds s = s * 10 ^ 9"

datatype lineage_state = Reserved | Active | Parked | Ended

fun state_text :: "lineage_state \<Rightarrow> string" where
  "state_text Reserved = ''reserved''"
| "state_text Active = ''active''"
| "state_text Parked = ''parked''"
| "state_text Ended = ''ended''"

definition state_from_text :: "string \<Rightarrow> lineage_state" where
  "state_from_text t =
     (if t = ''reserved'' then Reserved else if t = ''active'' then Active
      else if t = ''ended'' then Ended else Parked)"

datatype spawn_origin = OriginUser | OriginAgent | OriginTeam

fun origin_text :: "spawn_origin \<Rightarrow> string" where
  "origin_text OriginUser = ''user''"
| "origin_text OriginAgent = ''agent''"
| "origin_text OriginTeam = ''team''"

fun notify_text :: "notify_parent \<Rightarrow> string" where
  "notify_text NotifyAuto = ''auto''"
| "notify_text NotifyStuck = ''stuck''"
| "notify_text NotifyOff = ''off''"

datatype spawn_posture = Review | Verify | DefaultPosture

fun posture_text :: "spawn_posture \<Rightarrow> string" where
  "posture_text Review = ''review''"
| "posture_text Verify = ''verify''"
| "posture_text DefaultPosture = ''default''"

datatype spawn_parent = UserRoot | Session string | Run string

fun parent_id_of :: "spawn_parent \<Rightarrow> string" where
  "parent_id_of UserRoot = USER_ROOT"
| "parent_id_of (Session i) = i"
| "parent_id_of (Run i) = i"

record spawn_caps =
  cap_depth :: nat
  cap_active_per_parent :: nat
  cap_active_per_root :: nat
  cap_open_per_root :: nat
  cap_lifetime_per_root :: nat
  cap_run_lane :: nat

definition default_caps :: spawn_caps where
  "default_caps = \<lparr>cap_depth = 1, cap_active_per_parent = 8, cap_active_per_root = 8,
     cap_open_per_root = 16, cap_lifetime_per_root = 100, cap_run_lane = 16\<rparr>"

definition clamped :: "spawn_caps \<Rightarrow> spawn_caps" where
  "clamped c = c\<lparr>cap_depth := min (cap_depth c) MAX_DEPTH\<rparr>"

record spawn_spec =
  sp_request_id :: string
  sp_origin :: spawn_origin
  sp_posture :: spawn_posture
  sp_notify_parent :: notify_parent
  sp_allow_parent_permits :: bool
  sp_preassigned_id :: "string option"
  sp_fingerprint_input :: string

datatype spawn_refusal =
    RefuseDepth nat nat
  | RefuseFanout nat nat
  | RefuseOpen nat nat "string list"
  | RefuseBudget nat nat
  | RefuseStartFailing nat string
  | RefuseIdempotencyConflict
  | RefuseInProgress
  | RefuseParentEnded

record lineage_row =
  lr_id :: nat
  lr_session :: "string option"
  lr_parent :: string
  lr_root :: string
  lr_depth :: nat
  lr_request :: string
  lr_fingerprint :: string
  lr_origin :: spawn_origin
  lr_posture :: spawn_posture
  lr_state :: lineage_state
  lr_permits :: bool
  lr_notify :: notify_parent
  lr_created_at :: int
  lr_updated_at :: int
  lr_ended_at :: "int option"

text \<open>\<open>ln_next_id\<close> is the \<open>AUTOINCREMENT\<close> counter, a failure is count, last reason, last time.\<close>

record lineage_db =
  ln_rows :: "lineage_row list"
  ln_next_id :: nat
  ln_failures :: "(string \<times> (nat \<times> string \<times> int)) list"

definition lineage_new :: lineage_db where
  "lineage_new = \<lparr>ln_rows = [], ln_next_id = 1, ln_failures = []\<rparr>"

datatype reservation = Fresh nat nat string | Replayed lineage_row

datatype reserve_result = DbError | Refuse spawn_refusal | Granted reservation

section \<open>Queries\<close>

definition count :: "(lineage_row \<Rightarrow> bool) \<Rightarrow> lineage_row list \<Rightarrow> nat" where
  "count P rows = length (filter P rows)"

definition row_by_session :: "lineage_row list \<Rightarrow> string \<Rightarrow> lineage_row option" where
  "row_by_session rows s = List.find (\<lambda>r. lr_session r = Some s) rows"

definition row_by_request :: "lineage_row list \<Rightarrow> string \<Rightarrow> string \<Rightarrow> lineage_row option" where
  "row_by_request rows p q = List.find (\<lambda>r. lr_parent r = p \<and> lr_request r = q) rows"

definition parked_ids :: "lineage_row list \<Rightarrow> string \<Rightarrow> string list" where
  "parked_ids rows root =
     take PARKED_IDS_SHOWN
       (List.map_filter lr_session
         (sort_key lr_updated_at
           (filter (\<lambda>r. lr_root r = root \<and> lr_origin r = OriginAgent \<and> lr_state r = Parked \<and>
              lr_session r \<noteq> None) rows)))"

definition fingerprint :: "(string \<Rightarrow> string) \<Rightarrow> string \<Rightarrow> spawn_spec \<Rightarrow> string" where
  "fingerprint sha parent_id spec =
     sha (concat (map (\<lambda>part. part @ [CHR 0x00])
       [parent_id, origin_text (sp_origin spec), posture_text (sp_posture spec),
        notify_text (sp_notify_parent spec), if sp_allow_parent_permits spec then ''1'' else ''0'',
        sp_fingerprint_input spec]))"

definition working_state :: "lineage_state \<Rightarrow> bool" where
  "working_state s \<longleftrightarrow> s = Reserved \<or> s = Active"

definition agent_active_under :: "string \<Rightarrow> lineage_row \<Rightarrow> bool" where
  "agent_active_under p r \<longleftrightarrow> lr_parent r = p \<and> lr_origin r = OriginAgent \<and> working_state (lr_state r)"

definition agent_active_in :: "string \<Rightarrow> lineage_row \<Rightarrow> bool" where
  "agent_active_in root r \<longleftrightarrow> lr_root r = root \<and> lr_origin r = OriginAgent \<and> working_state (lr_state r)"

definition agent_open_in :: "string \<Rightarrow> lineage_row \<Rightarrow> bool" where
  "agent_open_in root r \<longleftrightarrow> lr_root r = root \<and> lr_origin r = OriginAgent \<and> lr_state r \<noteq> Ended"

definition agent_in :: "string \<Rightarrow> lineage_row \<Rightarrow> bool" where
  "agent_in root r \<longleftrightarrow> lr_root r = root \<and> lr_origin r = OriginAgent"

definition open_under :: "string \<Rightarrow> lineage_row \<Rightarrow> bool" where
  "open_under p r \<longleftrightarrow> lr_parent r = p \<and> lr_state r \<noteq> Ended"

section \<open>Taking a slot\<close>

definition park_session :: "int \<Rightarrow> string \<Rightarrow> lineage_row list \<Rightarrow> lineage_row list" where
  "park_session now sid rows =
     map (\<lambda>r. if lr_session r = Some sid \<and> lr_state r = Active
              then r\<lparr>lr_state := Parked, lr_updated_at := now\<rparr> else r) rows"

definition reconcile_tree ::
  "string \<Rightarrow> (string \<Rightarrow> bool) \<Rightarrow> int \<Rightarrow> lineage_row list \<Rightarrow> lineage_row list" where
  "reconcile_tree root_id is_working now rows =
     (let kept = filter (\<lambda>r. \<not> (lr_state r = Reserved \<and>
                                 lr_updated_at r < now - seconds RESERVATION_TIMEOUT_S)) rows
      in if root_id = [] then kept
         else
           (let settled = now - seconds ACTIVE_GRACE_S;
                active = List.map_filter lr_session
                  (filter (\<lambda>r. lr_root r = root_id \<and> lr_state r = Active \<and>
                               lr_session r \<noteq> None \<and> lr_updated_at r < settled) kept)
            in fold (park_session now) (filter (\<lambda>s. \<not> is_working s) active) kept))"

definition breaker :: "string \<Rightarrow> int \<Rightarrow> lineage_db \<Rightarrow> spawn_refusal option" where
  "breaker parent_id now db =
     (case map_of (ln_failures db) parent_id of
        None \<Rightarrow> None
      | Some (n, last_reason, last_at) \<Rightarrow>
          (let cooling = last_at + seconds START_FAILURE_COOLDOWN_S > now
           in if n \<ge> START_FAILURE_LIMIT \<and> cooling then Some (RefuseStartFailing n last_reason) else None))"

definition spot_of :: "spawn_parent \<Rightarrow> lineage_row list \<Rightarrow> spawn_refusal + (nat \<times> string)" where
  "spot_of parent rows =
     (case parent of
        UserRoot \<Rightarrow> Inr (0, [])
      | Run run \<Rightarrow> Inr (1, run)
      | Session i \<Rightarrow>
          (case row_by_session rows i of
             Some r \<Rightarrow> if lr_state r = Ended then Inl RefuseParentEnded else Inr (lr_depth r + 1, lr_root r)
           | None \<Rightarrow> Inr (1, i)))"

text \<open>A replay answers at once; a stale reservation is reclaimed.\<close>

definition replay_request ::
  "string \<Rightarrow> string \<Rightarrow> string \<Rightarrow> int \<Rightarrow> lineage_row list \<Rightarrow> reserve_result + lineage_row list" where
  "replay_request parent_id request fp now rows =
     (case row_by_request rows parent_id request of
        None \<Rightarrow> Inr rows
      | Some e \<Rightarrow>
          if lr_fingerprint e \<noteq> fp then Inl (Refuse RefuseIdempotencyConflict)
          else if lr_state e \<noteq> Reserved then Inl (Granted (Replayed e))
          else if lr_updated_at e + seconds RESERVATION_TIMEOUT_S > now then Inl (Refuse RefuseInProgress)
          else Inr (filter (\<lambda>r. lr_id r \<noteq> lr_id e) rows))"

definition cap_refusal ::
  "spawn_origin \<Rightarrow> string \<Rightarrow> string \<Rightarrow> spawn_caps \<Rightarrow> lineage_row list \<Rightarrow> spawn_refusal option" where
  "cap_refusal origin parent_id root_id caps rows =
     (case origin of
        OriginAgent \<Rightarrow>
          (let active_parent = count (agent_active_under parent_id) rows;
               active_root = count (agent_active_in root_id) rows;
               opened = count (agent_open_in root_id) rows;
               spawned = count (agent_in root_id) rows
           in if active_parent \<ge> cap_active_per_parent caps
              then Some (RefuseFanout active_parent (cap_active_per_parent caps))
              else if active_root \<ge> cap_active_per_root caps
              then Some (RefuseFanout active_root (cap_active_per_root caps))
              else if opened \<ge> cap_open_per_root caps
              then Some (RefuseOpen opened (cap_open_per_root caps) (parked_ids rows root_id))
              else if spawned \<ge> cap_lifetime_per_root caps
              then Some (RefuseBudget spawned (cap_lifetime_per_root caps))
              else None)
      | OriginTeam \<Rightarrow>
          (let opened = count (open_under parent_id) rows in
           if opened \<ge> cap_run_lane caps then Some (RefuseOpen opened (cap_run_lane caps) []) else None)
      | OriginUser \<Rightarrow> None)"

definition new_row ::
  "nat \<Rightarrow> string \<Rightarrow> string \<Rightarrow> nat \<Rightarrow> string \<Rightarrow> spawn_spec \<Rightarrow> int \<Rightarrow> lineage_row" where
  "new_row i parent_id root_id depth fp spec now =
     \<lparr>lr_id = i, lr_session = sp_preassigned_id spec, lr_parent = parent_id, lr_root = root_id,
      lr_depth = depth, lr_request = sp_request_id spec, lr_fingerprint = fp,
      lr_origin = sp_origin spec, lr_posture = sp_posture spec, lr_state = Reserved,
      lr_permits = sp_allow_parent_permits spec, lr_notify = sp_notify_parent spec,
      lr_created_at = now, lr_updated_at = now, lr_ended_at = None\<rparr>"

definition taken :: "lineage_row list \<Rightarrow> string option \<Rightarrow> bool" where
  "taken rows s \<longleftrightarrow> s \<noteq> None \<and> list_ex (\<lambda>r. lr_session r = s) rows"

definition reserve ::
  "(string \<Rightarrow> string) \<Rightarrow> spawn_parent \<Rightarrow> spawn_spec \<Rightarrow> spawn_caps \<Rightarrow> (string \<Rightarrow> bool) \<Rightarrow> int \<Rightarrow>
   lineage_db \<Rightarrow> reserve_result \<times> lineage_db" where
  "reserve sha parent spec caps0 is_working now db =
     (let caps = clamped caps0;
          parent_id = parent_id_of parent;
          fp = fingerprint sha parent_id spec
      in case spot_of parent (ln_rows db) of
           Inl refusal \<Rightarrow> (Refuse refusal, db)
         | Inr (depth, root_id) \<Rightarrow>
             (case replay_request parent_id (sp_request_id spec) fp now (ln_rows db) of
                Inl answer \<Rightarrow> (answer, db)
              | Inr rows1 \<Rightarrow>
                  (let rows = reconcile_tree root_id is_working now rows1 in
                   if depth > cap_depth caps then (Refuse (RefuseDepth depth (cap_depth caps)), db)
                   else
                     (case (if sp_origin spec = OriginUser then None else breaker parent_id now db) of
                        Some refusal \<Rightarrow> (Refuse refusal, db)
                      | None \<Rightarrow>
                          (case cap_refusal (sp_origin spec) parent_id root_id caps rows of
                             Some refusal \<Rightarrow> (Refuse refusal, db)
                           | None \<Rightarrow>
                               (let stored_root = (case parent of
                                      UserRoot \<Rightarrow> (case sp_preassigned_id spec of Some s \<Rightarrow> s | None \<Rightarrow> [])
                                    | _ \<Rightarrow> root_id);
                                    i = ln_next_id db
                                in if taken rows (sp_preassigned_id spec) then (DbError, db)
                                   else (Granted (Fresh i depth stored_root),
                                         db\<lparr>ln_rows := rows @ [new_row i parent_id stored_root depth fp spec now],
                                            ln_next_id := i + 1\<rparr>)))))))"

section \<open>Settling and moving\<close>

definition finalize :: "nat \<Rightarrow> string \<Rightarrow> int \<Rightarrow> lineage_db \<Rightarrow> bool \<times> lineage_db" where
  "finalize i session now db =
     (case List.find (\<lambda>r. lr_id r = i \<and> lr_state r = Reserved) (ln_rows db) of
        None \<Rightarrow> (False, db)
      | Some row \<Rightarrow>
          if list_ex (\<lambda>r. lr_session r = Some session \<and> lr_id r \<noteq> i) (ln_rows db) then (False, db)
          else (True, db\<lparr>ln_rows := map (\<lambda>r. if lr_id r = i \<and> lr_state r = Reserved
                  then r\<lparr>lr_session := Some session, lr_state := Active, lr_updated_at := now,
                         lr_root := (if lr_parent r = USER_ROOT then session else lr_root r)\<rparr>
                  else r) (ln_rows db),
                ln_failures := AList.delete (lr_parent row) (ln_failures db)\<rparr>))"

definition rollback :: "nat \<Rightarrow> string \<Rightarrow> int \<Rightarrow> lineage_db \<Rightarrow> lineage_db" where
  "rollback i reason now db =
     (let rows = filter (\<lambda>r. \<not> (lr_id r = i \<and> lr_state r = Reserved)) (ln_rows db)
      in case List.find (\<lambda>r. lr_id r = i \<and> lr_state r = Reserved) (ln_rows db) of
           None \<Rightarrow> db\<lparr>ln_rows := rows\<rparr>
         | Some row \<Rightarrow>
             if lr_origin row = OriginUser then db\<lparr>ln_rows := rows\<rparr>
             else db\<lparr>ln_rows := rows,
                     ln_failures := AList.update (lr_parent row)
                       (case map_of (ln_failures db) (lr_parent row) of
                          None \<Rightarrow> (1, reason, now)
                        | Some (n, _, _) \<Rightarrow> (n + 1, reason, now)) (ln_failures db)\<rparr>)"

text \<open>The part of \<open>rekey\<close> on the two tables of this module; \<open>False\<close> when a constraint stops it.\<close>

definition rename :: "string \<Rightarrow> string \<Rightarrow> string \<Rightarrow> string" where
  "rename old new s = (if s = old then new else s)"

definition rekey_row :: "string \<Rightarrow> string \<Rightarrow> lineage_row \<Rightarrow> lineage_row" where
  "rekey_row old new r =
     r\<lparr>lr_session := map_option (rename old new) (lr_session r),
       lr_parent := rename old new (lr_parent r), lr_root := rename old new (lr_root r)\<rparr>"

definition rekey_lineage :: "string \<Rightarrow> string \<Rightarrow> lineage_db \<Rightarrow> bool \<times> lineage_db" where
  "rekey_lineage old new db =
     (if old = new then (True, db)
      else
        (let rows = map (rekey_row old new) (ln_rows db) in
         if \<not> distinct (List.map_filter lr_session rows) \<or>
            \<not> distinct (map (\<lambda>r. (lr_parent r, lr_request r)) rows)
         then (False, db)
         else (True, db\<lparr>ln_rows := rows,
                ln_failures := (case map_of (ln_failures db) old of
                    None \<Rightarrow> ln_failures db
                  | Some f \<Rightarrow> AList.update new f (AList.delete old (ln_failures db)))\<rparr>)))"

definition set_state ::
  "string \<Rightarrow> lineage_state \<Rightarrow> lineage_state \<Rightarrow> int \<Rightarrow> lineage_db \<Rightarrow> bool \<times> lineage_db" where
  "set_state sid from to now db =
     (let hit = (\<lambda>r. lr_session r = Some sid \<and> lr_state r = from) in
      (list_ex hit (ln_rows db),
       db\<lparr>ln_rows := map (\<lambda>r. if hit r then r\<lparr>lr_state := to, lr_updated_at := now\<rparr> else r) (ln_rows db)\<rparr>))"

definition activate :: "string \<Rightarrow> int \<Rightarrow> lineage_db \<Rightarrow> bool \<times> lineage_db" where
  "activate sid now db = set_state sid Parked Active now db"

definition park :: "string \<Rightarrow> int \<Rightarrow> lineage_db \<Rightarrow> bool \<times> lineage_db" where
  "park sid now db =
     (let settled = now - seconds ACTIVE_GRACE_S;
          hit = (\<lambda>r. lr_session r = Some sid \<and> lr_state r = Active \<and> lr_updated_at r < settled) in
      (list_ex hit (ln_rows db),
       db\<lparr>ln_rows := map (\<lambda>r. if hit r then r\<lparr>lr_state := Parked, lr_updated_at := now\<rparr> else r) (ln_rows db)\<rparr>))"

definition boot_reconcile :: "int \<Rightarrow> lineage_db \<Rightarrow> string list \<times> lineage_db" where
  "boot_reconcile now db =
     (let kept = filter (\<lambda>r. lr_state r \<noteq> Reserved) (ln_rows db) in
      (List.map_filter lr_session (filter (\<lambda>r. lr_state r = Active) kept),
       db\<lparr>ln_rows := map (\<lambda>r. if lr_state r = Active then r\<lparr>lr_state := Parked, lr_updated_at := now\<rparr>
                              else r) kept\<rparr>))"

section \<open>Ending a subtree\<close>

definition kids :: "lineage_row list \<Rightarrow> string \<Rightarrow> string list" where
  "kids rows p = List.map_filter lr_session (filter (\<lambda>r. lr_parent r = p) rows)"

text \<open>\<open>frontier.extend(kids.filter(|k| seen.insert(k)))\<close>: each id once, in order; every id in the
  frontier has been seen.\<close>

fun extend_new :: "string list \<Rightarrow> string list \<Rightarrow> string list" where
  "extend_new frontier [] = frontier"
| "extend_new frontier (k # ks) =
     (if k \<in> set frontier then extend_new frontier ks else extend_new (frontier @ [k]) ks)"

lemma extend_new_prefix: "\<exists>new. extend_new f ks = f @ new"
  by (induction f ks rule: extend_new.induct) auto

lemma extend_new_set: "set (extend_new f ks) = set f \<union> set ks"
  by (induction f ks rule: extend_new.induct) auto

lemma extend_new_length: "length f \<le> length (extend_new f ks)"
  using extend_new_prefix [of f ks] by auto

lemma extend_new_same: "length (extend_new f ks) = length f \<Longrightarrow> extend_new f ks = f"
  using extend_new_prefix [of f ks] by auto

lemma extend_new_distinct: "distinct f \<Longrightarrow> distinct (extend_new f ks)"
  by (induction f ks rule: extend_new.induct) auto

definition sessions :: "lineage_row list \<Rightarrow> string set" where
  "sessions rows = {s. \<exists>r \<in> set rows. lr_session r = Some s}"

lemma finite_sessions [simp]: "finite (sessions rows)"
proof -
  have "sessions rows \<subseteq> (\<lambda>r. the (lr_session r)) ` set rows" by (force simp: sessions_def)
  then show ?thesis by (rule finite_subset) simp
qed

lemma kids_sessions: "set (kids rows p) \<subseteq> sessions rows"
  by (auto simp: kids_def sessions_def List.map_filter_def)

text \<open>Every session enters the walk once.\<close>

function walk :: "lineage_row list \<Rightarrow> nat \<Rightarrow> string list \<Rightarrow> string list" where
  "walk rows i frontier =
     (if i < length frontier
      then walk rows (i + 1) (extend_new frontier (kids rows (frontier ! i)))
      else frontier)"
  by pat_completeness auto
termination walk
proof (relation "measures [\<lambda>(rows, i, f). card (sessions rows - set f), \<lambda>(rows, i, f). length f - i]")
  fix rows :: "lineage_row list" and i :: nat and f :: "string list"
  assume i: "i < length f"
  let ?f' = "extend_new f (kids rows (f ! i))"
  show "((rows, i + 1, ?f'), rows, i, f) \<in>
      measures [\<lambda>(rows, i, f). card (sessions rows - set f), \<lambda>(rows, i, f). length f - i]"
  proof (cases "set (kids rows (f ! i)) \<subseteq> set f")
    case True
    then have "extend_new f ks = f" if "set ks \<subseteq> set f" for ks
      using that by (induction ks) auto
    with True i show ?thesis by simp
  next
    case False
    then obtain k where "k \<in> set (kids rows (f ! i))" "k \<notin> set f" by blast
    then have "k \<in> sessions rows - set f" "k \<notin> sessions rows - set ?f'"
      using kids_sessions by (auto simp: extend_new_set)
    moreover have "sessions rows - set ?f' \<subseteq> sessions rows - set f" by (auto simp: extend_new_set)
    ultimately have "card (sessions rows - set ?f') < card (sessions rows - set f)"
      by (intro psubset_card_mono) auto
    then show ?thesis by simp
  qed
qed simp

declare walk.simps [simp del]

definition end_session :: "int \<Rightarrow> string \<Rightarrow> lineage_row list \<Rightarrow> lineage_row list" where
  "end_session now sid rows =
     map (\<lambda>r. if lr_session r = Some sid \<and> lr_state r \<noteq> Ended
              then r\<lparr>lr_state := Ended, lr_ended_at := Some now, lr_updated_at := now\<rparr> else r) rows"

fun end_all :: "int \<Rightarrow> string list \<Rightarrow> lineage_row list \<Rightarrow> string list \<times> lineage_row list" where
  "end_all now [] rows = ([], rows)"
| "end_all now (sid # sids) rows =
     (let hit = list_ex (\<lambda>r. lr_session r = Some sid \<and> lr_state r \<noteq> Ended) rows in
      case end_all now sids (end_session now sid rows) of
        (ended, rows') \<Rightarrow> ((if hit then [sid] else []) @ ended, rows'))"

definition mark_ended :: "string \<Rightarrow> bool \<Rightarrow> int \<Rightarrow> lineage_db \<Rightarrow> string list \<times> lineage_db" where
  "mark_ended i cascade now db =
     (let frontier = (if cascade then walk (ln_rows db) 0 [i] else [i]) in
      case end_all now (rev frontier) (ln_rows db) of
        (ended, rows) \<Rightarrow>
          (ended, db\<lparr>ln_rows := filter (\<lambda>r. \<not> (lr_parent r \<in> set frontier \<and> lr_state r = Reserved)) rows\<rparr>))"

definition end_run :: "string \<Rightarrow> int \<Rightarrow> lineage_db \<Rightarrow> string list \<times> lineage_db" where
  "end_run run now db = mark_ended run True now db"

section \<open>Reading the tree\<close>

definition tracked :: "lineage_db \<Rightarrow> (string \<times> lineage_state) list" where
  "tracked db =
     List.map_filter (\<lambda>r. map_option (\<lambda>s. (s, lr_state r)) (lr_session r))
       (filter (\<lambda>r. lr_state r = Active \<or> lr_state r = Parked) (ln_rows db))"

definition session_of_row :: "nat \<Rightarrow> lineage_db \<Rightarrow> string option" where
  "session_of_row i db = (case List.find (\<lambda>r. lr_id r = i) (ln_rows db) of None \<Rightarrow> None | Some r \<Rightarrow> lr_session r)"

definition depth_of :: "string \<Rightarrow> lineage_db \<Rightarrow> nat" where
  "depth_of s db = (case row_by_session (ln_rows db) s of None \<Rightarrow> 0 | Some r \<Rightarrow> lr_depth r)"

fun climb :: "nat \<Rightarrow> lineage_row list \<Rightarrow> string \<Rightarrow> string \<Rightarrow> bool" where
  "climb 0 rows ancestor current = False"
| "climb (Suc n) rows ancestor current =
     (case row_by_session rows current of
        None \<Rightarrow> False
      | Some r \<Rightarrow>
          if lr_parent r = ancestor then True
          else if lr_parent r \<noteq> USER_ROOT then climb n rows ancestor (lr_parent r)
          else False)"

definition is_descendant :: "lineage_db \<Rightarrow> string \<Rightarrow> string \<Rightarrow> bool" where
  "is_descendant db ancestor target = climb (MAX_DEPTH + 2) (ln_rows db) ancestor target"

end
