(* ===== verification/Lineage_Tree.thy ===== *)
theory Lineage_Tree
  imports Lineage Remote_Acl
begin

text \<open>
  What the lineage table promises: a cancel reaches everything below what it cancels; in every
  reachable table a row sits one below its parent, a root's agents stay within their budgets,
  and ancestry is decided by the bounded climb; a repeated request launches nothing.
\<close>

section \<open>The subtree of a session\<close>

text \<open>\<open>s\<close> is the session of a row strictly below \<open>a\<close> in the table.\<close>

inductive spawned_below :: "lineage_row list \<Rightarrow> string \<Rightarrow> string \<Rightarrow> bool" for rows a where
  direct: "\<lbrakk>r \<in> set rows; lr_session r = Some s; lr_parent r = a\<rbrakk> \<Longrightarrow> spawned_below rows a s"
| deeper: "\<lbrakk>r \<in> set rows; lr_session r = Some s; spawned_below rows a (lr_parent r)\<rbrakk> \<Longrightarrow> spawned_below rows a s"

inductive_cases spawned_belowE: "spawned_below rows a s"

lemma in_kids: "s \<in> set (kids rows p) \<longleftrightarrow> (\<exists>r \<in> set rows. lr_session r = Some s \<and> lr_parent r = p)"
  by (force simp: kids_def List.map_filter_def)

lemma walk_mono: "set f \<subseteq> set (walk rows i f)"
  by (induction rows i f rule: walk.induct) (subst walk.simps, auto simp: extend_new_set)

lemma walk_sound:
  "\<lbrakk>\<forall>x \<in> set f. x = a \<or> spawned_below rows a x; s \<in> set (walk rows i f)\<rbrakk>
    \<Longrightarrow> s = a \<or> spawned_below rows a s"
proof (induction rows i f rule: walk.induct)
  case (1 rows i f)
  show ?case
  proof (cases "i < length f")
    case True
    then have at: "f ! i = a \<or> spawned_below rows a (f ! i)" using "1.prems"(1) by simp
    have "x = a \<or> spawned_below rows a x" if x: "x \<in> set (extend_new f (kids rows (f ! i)))" for x
    proof (cases "x \<in> set f")
      case True
      then show ?thesis using "1.prems"(1) by blast
    next
      case False
      with x obtain r where "r \<in> set rows" "lr_session r = Some x" "lr_parent r = f ! i"
        by (auto simp: extend_new_set in_kids)
      then show ?thesis using at by (metis direct deeper)
    qed
    moreover have "s \<in> set (walk rows (i + 1) (extend_new f (kids rows (f ! i))))"
      using "1.prems"(2) True by (subst (asm) walk.simps) simp
    ultimately show ?thesis using "1.IH" [OF True] by blast
  next
    case False
    then show ?thesis using "1.prems" by (subst (asm) walk.simps) auto
  qed
qed

text \<open>Everything the walk has passed has its children in it.\<close>

lemma walk_closed:
  "\<lbrakk>\<forall>k < i. k < length f \<longrightarrow> set (kids rows (f ! k)) \<subseteq> set f; s \<in> set (walk rows i f)\<rbrakk>
    \<Longrightarrow> set (kids rows s) \<subseteq> set (walk rows i f)"
proof (induction rows i f rule: walk.induct)
  case (1 rows i f)
  show ?case
  proof (cases "i < length f")
    case True
    let ?f' = "extend_new f (kids rows (f ! i))"
    have step: "walk rows i f = walk rows (i + 1) ?f'" using True by (subst walk.simps) simp
    obtain new where new: "?f' = f @ new" using extend_new_prefix by blast
    have "set (kids rows (?f' ! k)) \<subseteq> set ?f'" if "k < i + 1" for k
    proof (cases "k = i")
      case True
      with \<open>i < length f\<close> have "?f' ! k = f ! i" by (simp add: new nth_append)
      then show ?thesis by (simp add: extend_new_set)
    next
      case False
      with that \<open>i < length f\<close> have "k < i" "k < length f" "?f' ! k = f ! k"
        by (auto simp: new nth_append)
      then show ?thesis using "1.prems"(1) by (auto simp: extend_new_set)
    qed
    then show ?thesis using "1.IH" [OF True] "1.prems"(2) unfolding step by blast
  next
    case False
    then have stop: "walk rows i f = f" by (subst walk.simps) simp
    then obtain k where "k < length f" "f ! k = s" using "1.prems"(2) by (auto simp: in_set_conv_nth)
    then show ?thesis using "1.prems"(1) False stop by (metis less_le_trans not_less)
  qed
qed

lemma walk_is_subtree: "set (walk rows 0 [a]) = insert a {s. spawned_below rows a s}"
proof
  show "set (walk rows 0 [a]) \<subseteq> insert a {s. spawned_below rows a s}"
    using walk_sound [of "[a]" a rows _ 0] by auto
  have "s \<in> set (walk rows 0 [a])" if "spawned_below rows a s" for s
    using that
  proof induction
    case (direct r s)
    moreover have "a \<in> set (walk rows 0 [a])" using walk_mono [of "[a]" rows 0] by simp
    ultimately show ?case using walk_closed [where i = 0 and f = "[a]" and s = a and rows = rows] in_kids by blast
  next
    case (deeper r s)
    then show ?case using walk_closed [where i = 0 and f = "[a]" and s = "lr_parent r" and rows = rows] in_kids by blast
  qed
  then show "insert a {s. spawned_below rows a s} \<subseteq> set (walk rows 0 [a])"
    using walk_mono [of "[a]" rows 0] by auto
qed

section \<open>Ending\<close>

definition ended_row :: "int \<Rightarrow> string set \<Rightarrow> lineage_row \<Rightarrow> lineage_row" where
  "ended_row now ids r =
     (if lr_state r \<noteq> Ended \<and> (\<exists>s \<in> ids. lr_session r = Some s)
      then r\<lparr>lr_state := Ended, lr_ended_at := Some now, lr_updated_at := now\<rparr> else r)"

lemma ended_row_empty [simp]: "ended_row now {} = id"
  by (rule ext) (simp add: ended_row_def)

lemma ended_row_insert: "ended_row now ids (ended_row now {s} r) = ended_row now (insert s ids) r"
  by (auto simp: ended_row_def)

lemma end_session_row: "end_session now s rows = map (ended_row now {s}) rows"
  by (auto simp: end_session_def ended_row_def)

lemma end_all_rows: "snd (end_all now ids rows) = map (ended_row now (set ids)) rows"
  by (induction now ids rows rule: end_all.induct)
     (auto simp: Let_def end_session_row ended_row_insert split: prod.splits)

lemma end_all_ended:
  "distinct ids \<Longrightarrow> fst (end_all now ids rows) =
     filter (\<lambda>s. \<exists>r \<in> set rows. lr_session r = Some s \<and> lr_state r \<noteq> Ended) ids"
proof (induction now ids rows rule: end_all.induct)
  case (2 now sid sids rows)
  have other: "(\<exists>r \<in> set (end_session now sid rows). lr_session r = Some s \<and> lr_state r \<noteq> Ended) \<longleftrightarrow>
      (\<exists>r \<in> set rows. lr_session r = Some s \<and> lr_state r \<noteq> Ended)" if "s \<in> set sids" for s
    using that 2(2) by (auto simp: end_session_def)
  have "fst (end_all now sids (end_session now sid rows)) =
      filter (\<lambda>s. \<exists>r \<in> set (end_session now sid rows). lr_session r = Some s \<and> lr_state r \<noteq> Ended) sids"
    using 2 by simp
  also have "\<dots> = filter (\<lambda>s. \<exists>r \<in> set rows. lr_session r = Some s \<and> lr_state r \<noteq> Ended) sids"
    using other by (intro filter_cong) auto
  finally show ?case by (auto simp: Let_def list_ex_iff split: prod.splits)
qed simp

lemma walk_distinct: "distinct f \<Longrightarrow> distinct (walk rows i f)"
  by (induction rows i f rule: walk.induct) (subst walk.simps, simp add: extend_new_distinct)

lemma mark_ended_rows:
  fixes a cascade db
  defines "frontier \<equiv> (if cascade then walk (ln_rows db) 0 [a] else [a])"
  shows "ln_rows (snd (mark_ended a cascade now db)) =
      filter (\<lambda>r. \<not> (lr_parent r \<in> set frontier \<and> lr_state r = Reserved))
        (map (ended_row now (set frontier)) (ln_rows db))"
    and "fst (mark_ended a cascade now db) =
      filter (\<lambda>s. \<exists>r \<in> set (ln_rows db). lr_session r = Some s \<and> lr_state r \<noteq> Ended) (rev frontier)"
proof -
  have "distinct (rev frontier)" by (simp add: frontier_def walk_distinct)
  note ended = end_all_ended [OF this, of now "ln_rows db"]
  show "ln_rows (snd (mark_ended a cascade now db)) =
      filter (\<lambda>r. \<not> (lr_parent r \<in> set frontier \<and> lr_state r = Reserved))
        (map (ended_row now (set frontier)) (ln_rows db))"
    using end_all_rows [of now "rev frontier" "ln_rows db"]
    unfolding mark_ended_def Let_def frontier_def [symmetric] by (auto split: prod.splits)
  show "fst (mark_ended a cascade now db) =
      filter (\<lambda>s. \<exists>r \<in> set (ln_rows db). lr_session r = Some s \<and> lr_state r \<noteq> Ended) (rev frontier)"
    using ended unfolding mark_ended_def Let_def frontier_def [symmetric]
    by (cases "end_all now (rev frontier) (ln_rows db)") simp
qed

lemma ended_row_fields [simp]:
  "lr_parent (ended_row now ids r) = lr_parent r" "lr_session (ended_row now ids r) = lr_session r"
  by (simp_all add: ended_row_def)

lemma ended_row_outside: "lr_session r \<notin> Some ` ids \<Longrightarrow> ended_row now ids r = r"
  by (auto simp: ended_row_def)


section \<open>Tables that only move\<close>

text \<open>What the operations other than a reservation, a finalize and a rekey do to a row: its place
  stays, and an ended row stays ended.\<close>

definition moves :: "lineage_row \<Rightarrow> lineage_row \<Rightarrow> bool" where
  "moves r r' \<longleftrightarrow> lr_id r' = lr_id r \<and> lr_session r' = lr_session r \<and> lr_parent r' = lr_parent r \<and>
     lr_root r' = lr_root r \<and> lr_depth r' = lr_depth r \<and> lr_request r' = lr_request r \<and>
     lr_fingerprint r' = lr_fingerprint r \<and> lr_origin r' = lr_origin r \<and>
     (lr_state r' = Ended \<or> lr_state r \<noteq> Ended)"

definition evolves :: "lineage_row list \<Rightarrow> lineage_row list \<Rightarrow> bool" where
  "evolves rows rows' \<longleftrightarrow> (\<exists>P f. rows' = map f (filter P rows) \<and> (\<forall>r. moves r (f r)))"

lemma moves_refl [simp]: "moves r r"
  by (simp add: moves_def)

lemma moves_trans: "\<lbrakk>moves r r'; moves r' r''\<rbrakk> \<Longrightarrow> moves r r''"
  by (auto simp: moves_def)

lemma evolves_map: "(\<And>r. moves r (f r)) \<Longrightarrow> evolves rows (map f rows)"
  unfolding evolves_def by (intro exI [of _ "\<lambda>_. True"] exI [of _ f]) simp

lemma evolves_filter [simp]: "evolves rows (filter P rows)"
  unfolding evolves_def by (intro exI [of _ P] exI [of _ "\<lambda>r. r"]) simp

lemma evolves_refl [simp]: "evolves rows rows"
  using evolves_map [of "\<lambda>r. r" rows] by simp

lemma evolves_trans:
  assumes "evolves a b" "evolves b c"
  shows "evolves a c"
proof -
  obtain P f where f: "b = map f (filter P a)" "\<And>r. moves r (f r)"
    using assms(1) unfolding evolves_def by blast
  obtain Q g where g: "c = map g (filter Q b)" "\<And>r. moves r (g r)"
    using assms(2) unfolding evolves_def by blast
  have "c = map (\<lambda>r. g (f r)) (filter (\<lambda>r. P r \<and> Q (f r)) a)"
    by (simp add: f g filter_map comp_def)
  moreover have "moves r (g (f r))" for r using f(2) g(2) by (rule moves_trans)
  ultimately show ?thesis
    unfolding evolves_def by (intro exI [of _ "\<lambda>r. P r \<and> Q (f r)"] exI [of _ "\<lambda>r. g (f r)"]) simp
qed

lemma evolves_from: "\<lbrakk>evolves rows rows'; r' \<in> set rows'\<rbrakk> \<Longrightarrow> \<exists>r \<in> set rows. moves r r'"
  unfolding evolves_def by fastforce

text \<open>Two rows of the new table are the images of two rows of the old one.\<close>

lemma evolves_inj:
  assumes "evolves rows rows'" "r \<in> set rows'" "q \<in> set rows'"
  obtains r0 q0 where "r0 \<in> set rows" "q0 \<in> set rows" "moves r0 r" "moves q0 q" "r0 = q0 \<longrightarrow> r = q"
  using assms by (auto simp: evolves_def)

lemma count_le:
  "\<lbrakk>evolves rows rows'; \<And>r r'. moves r r' \<Longrightarrow> P r' \<Longrightarrow> P r\<rbrakk> \<Longrightarrow> count P rows' \<le> count P rows"
proof -
  assume e: "evolves rows rows'" and P: "\<And>r r'. moves r r' \<Longrightarrow> P r' \<Longrightarrow> P r"
  obtain Q f where rows': "rows' = map f (filter Q rows)" and f: "\<And>r. moves r (f r)"
    using e unfolding evolves_def by blast
  have "length (filter P (map f (filter Q rows))) \<le> length (filter P rows)"
    by (induction rows) (use P f in auto)
  then show ?thesis by (simp add: count_def rows')
qed

lemma count_map_le:
  "(\<And>r. r \<in> set rows \<Longrightarrow> P (f r) \<Longrightarrow> Q r) \<Longrightarrow> count P (map f rows) \<le> count Q rows"
  by (induction rows) (auto simp: count_def le_SucI)

lemma park_session_evolves [simp]: "evolves rows (park_session now s rows)"
  unfolding park_session_def by (rule evolves_map) (simp add: moves_def)

lemma reconcile_evolves: "evolves rows (reconcile_tree root w now rows)"
proof -
  have parked: "evolves kept (fold (park_session now) ids kept)" for kept ids
  proof (induction ids arbitrary: kept)
    case (Cons s ids)
    then show ?case using evolves_trans [OF park_session_evolves Cons.IH] by simp
  qed simp
  show ?thesis
    using evolves_trans [OF evolves_filter parked] by (simp add: reconcile_tree_def Let_def)
qed

lemma replay_evolves: "replay_request p q fp now rows = Inr rows' \<Longrightarrow> evolves rows rows'"
  by (auto simp: replay_request_def split: option.splits if_splits)

lemma rollback_evolves: "evolves (ln_rows db) (ln_rows (rollback i reason now db))"
  by (simp add: rollback_def Let_def split: option.splits)

lemma set_state_evolves:
  "to = Ended \<or> from \<noteq> Ended \<Longrightarrow> evolves (ln_rows db) (ln_rows (snd (set_state s from to now db)))"
  by (auto simp: set_state_def moves_def intro!: evolves_map)

lemma park_evolves: "evolves (ln_rows db) (ln_rows (snd (park s now db)))"
  by (auto simp: park_def Let_def moves_def intro!: evolves_map)

lemma boot_evolves: "evolves (ln_rows db) (ln_rows (snd (boot_reconcile now db)))"
proof -
  have "evolves kept (map (\<lambda>r. if lr_state r = Active then r\<lparr>lr_state := Parked, lr_updated_at := now\<rparr> else r) kept)"
    for kept by (rule evolves_map) (simp add: moves_def)
  from evolves_trans [OF evolves_filter this] show ?thesis by (simp add: boot_reconcile_def Let_def)
qed

lemma mark_ended_evolves: "evolves (ln_rows db) (ln_rows (snd (mark_ended a cascade now db)))"
  unfolding mark_ended_rows(1)
  by (rule evolves_trans [OF evolves_map evolves_filter]) (simp add: moves_def ended_row_def)

section \<open>Reachable tables\<close>

definition fresh_id :: "string \<Rightarrow> lineage_row list \<Rightarrow> bool" where
  "fresh_id s rows \<longleftrightarrow> s \<noteq> USER_ROOT \<and>
     list_all (\<lambda>r. lr_session r \<noteq> Some s \<and> lr_parent r \<noteq> s \<and> lr_root r \<noteq> s) rows"

text \<open>A row has its id, key and session to itself; a root has no parent and is the operator's; a
  row whose parent is in the table sits one below it.\<close>

definition row_ok :: "nat \<Rightarrow> lineage_row \<Rightarrow> bool" where
  "row_ok n r \<longleftrightarrow> lr_id r < n \<and> lr_session r \<noteq> Some USER_ROOT \<and>
     (lr_parent r = USER_ROOT \<longleftrightarrow> lr_depth r = 0) \<and> (lr_depth r = 0 \<longrightarrow> lr_origin r = OriginUser)"

definition pair_ok :: "lineage_row \<Rightarrow> lineage_row \<Rightarrow> bool" where
  "pair_ok r q \<longleftrightarrow> (lr_id r = lr_id q \<longrightarrow> r = q) \<and>
     (lr_parent r = lr_parent q \<and> lr_request r = lr_request q \<longrightarrow> r = q) \<and>
     (\<forall>s. lr_session r = Some s \<and> lr_session q = Some s \<longrightarrow> r = q) \<and>
     (lr_session q = Some (lr_parent r) \<longrightarrow> lr_depth r = lr_depth q + 1)"

definition tree_wf :: "lineage_db \<Rightarrow> bool" where
  "tree_wf db \<longleftrightarrow> (\<forall>r \<in> set (ln_rows db). row_ok (ln_next_id db) r) \<and>
     (\<forall>r \<in> set (ln_rows db). \<forall>q \<in> set (ln_rows db). pair_ok r q)"

lemma wf_row: "\<lbrakk>tree_wf db; r \<in> set (ln_rows db)\<rbrakk> \<Longrightarrow> row_ok (ln_next_id db) r"
  by (simp add: tree_wf_def)

lemma wf_pair: "\<lbrakk>tree_wf db; r \<in> set (ln_rows db); q \<in> set (ln_rows db)\<rbrakk> \<Longrightarrow> pair_ok r q"
  by (simp add: tree_wf_def)

lemma wf_same_id: "\<lbrakk>tree_wf db; r \<in> set (ln_rows db); q \<in> set (ln_rows db); lr_id r = lr_id q\<rbrakk> \<Longrightarrow> r = q"
  using wf_pair by (simp add: pair_ok_def)

lemma wf_same_session:
  "\<lbrakk>tree_wf db; r \<in> set (ln_rows db); q \<in> set (ln_rows db); lr_session r = Some s; lr_session q = Some s\<rbrakk> \<Longrightarrow> r = q"
  using wf_pair [of db r q] by (simp add: pair_ok_def)

lemma wf_same_key:
  "\<lbrakk>tree_wf db; r \<in> set (ln_rows db); q \<in> set (ln_rows db); lr_parent r = lr_parent q; lr_request r = lr_request q\<rbrakk>
    \<Longrightarrow> r = q"
  using wf_pair [of db r q] by (simp add: pair_ok_def)

lemma wf_child:
  "\<lbrakk>tree_wf db; r \<in> set (ln_rows db); q \<in> set (ln_rows db); lr_session q = Some (lr_parent r)\<rbrakk>
    \<Longrightarrow> lr_depth r = lr_depth q + 1"
  using wf_pair [of db r q] by (simp add: pair_ok_def)

definition team_open_under :: "string \<Rightarrow> lineage_row \<Rightarrow> bool" where
  "team_open_under p r \<longleftrightarrow> open_under p r \<and> lr_origin r = OriginTeam"

definition within_budgets :: "spawn_caps \<Rightarrow> lineage_row list \<Rightarrow> bool" where
  "within_budgets caps rows \<longleftrightarrow>
     (\<forall>R. count (agent_open_in R) rows \<le> cap_open_per_root caps \<and>
          count (agent_in R) rows \<le> cap_lifetime_per_root caps) \<and>
     (\<forall>p. count (team_open_under p) rows \<le> cap_run_lane caps) \<and>
     (\<forall>r \<in> set rows. lr_depth r \<le> cap_depth (clamped caps))"

text \<open>The operations, as their callers use them: ids handed in are new (the one a reservation holds
  apart), and a root is the operator's.\<close>

inductive lineage_step :: "(string \<Rightarrow> string) \<Rightarrow> spawn_caps \<Rightarrow> lineage_db \<Rightarrow> lineage_db \<Rightarrow> bool"
  for sha caps where
  reserved: "\<lbrakk>parent = UserRoot \<longrightarrow> sp_origin spec = OriginUser; parent \<noteq> UserRoot \<longrightarrow> parent_id_of parent \<noteq> USER_ROOT;
      \<forall>s. sp_preassigned_id spec = Some s \<longrightarrow> fresh_id s (ln_rows db) \<and> parent_id_of parent \<noteq> s;
      \<forall>run. parent = Run run \<longrightarrow> row_by_session (ln_rows db) run = None\<rbrakk>
    \<Longrightarrow> lineage_step sha caps db (snd (reserve sha parent spec caps is_working now db))"
| finalized: "(\<exists>r \<in> set (ln_rows db). lr_id r = i \<and> lr_session r = Some s) \<or> fresh_id s (ln_rows db)
    \<Longrightarrow> lineage_step sha caps db (snd (finalize i s now db))"
| rolled_back: "lineage_step sha caps db (rollback i reason now db)"
| rekeyed: "\<lbrakk>old \<noteq> USER_ROOT; fresh_id new (ln_rows db)\<rbrakk> \<Longrightarrow> lineage_step sha caps db (snd (rekey_lineage old new db))"
| activated: "lineage_step sha caps db (snd (activate s now db))"
| parked: "lineage_step sha caps db (snd (park s now db))"
| ended: "lineage_step sha caps db (snd (mark_ended s cascade now db))"
| booted: "lineage_step sha caps db (snd (boot_reconcile now db))"

inductive lineage_reachable :: "(string \<Rightarrow> string) \<Rightarrow> spawn_caps \<Rightarrow> lineage_db \<Rightarrow> bool"
  for sha caps where
  start: "lineage_reachable sha caps lineage_new"
| stepped: "\<lbrakk>lineage_reachable sha caps db; lineage_step sha caps db db'\<rbrakk> \<Longrightarrow> lineage_reachable sha caps db'"

lemma evolves_wf:
  assumes wf: "tree_wf db" and ev: "evolves (ln_rows db) (ln_rows db')" and next_id: "ln_next_id db' = ln_next_id db"
  shows "tree_wf db'"
proof -
  have "row_ok (ln_next_id db') r" if "r \<in> set (ln_rows db')" for r
  proof -
    obtain r0 where "r0 \<in> set (ln_rows db)" "moves r0 r" using evolves_from [OF ev \<open>r \<in> _\<close>] by blast
    then show ?thesis using wf_row [OF wf] next_id by (fastforce simp: row_ok_def moves_def)
  qed
  moreover have "pair_ok r q" if rq: "r \<in> set (ln_rows db')" "q \<in> set (ln_rows db')" for r q
  proof -
    obtain r0 q0 where "r0 \<in> set (ln_rows db)" "q0 \<in> set (ln_rows db)" and m: "moves r0 r" "moves q0 q"
      "r0 = q0 \<longrightarrow> r = q"
      by (rule evolves_inj [OF ev rq]) blast
    then have "pair_ok r0 q0" using wf_pair [OF wf] by blast
    then show ?thesis using m by (auto simp: pair_ok_def moves_def)
  qed
  ultimately show ?thesis unfolding tree_wf_def by blast
qed

lemma budgets_le:
  assumes "within_budgets caps rows"
    and "\<And>R. count (agent_open_in R) rows' \<le> count (agent_open_in (g R)) rows"
      "\<And>R. count (agent_in R) rows' \<le> count (agent_in (g R)) rows"
      "\<And>p. count (team_open_under p) rows' \<le> count (team_open_under (h p)) rows"
      "\<And>r'. r' \<in> set rows' \<Longrightarrow> \<exists>r \<in> set rows. lr_depth r' = lr_depth r"
  shows "within_budgets caps rows'"
  unfolding within_budgets_def
proof (intro conjI allI ballI)
  show "count (agent_open_in R) rows' \<le> cap_open_per_root caps" for R
    using assms(1) le_trans [OF assms(2)] by (simp add: within_budgets_def)
  show "count (agent_in R) rows' \<le> cap_lifetime_per_root caps" for R
    using assms(1) le_trans [OF assms(3)] by (simp add: within_budgets_def)
  show "count (team_open_under p) rows' \<le> cap_run_lane caps" for p
    using assms(1) le_trans [OF assms(4)] by (simp add: within_budgets_def)
  show "lr_depth r' \<le> cap_depth (clamped caps)" if "r' \<in> set rows'" for r'
    using assms(1) assms(5) [OF that] by (auto simp: within_budgets_def)
qed

lemma evolves_budgets:
  assumes "within_budgets caps rows" "evolves rows rows'"
  shows "within_budgets caps rows'"
proof (rule budgets_le [OF assms(1)])
  show "count (agent_open_in R) rows' \<le> count (agent_open_in R) rows"
    "count (agent_in R) rows' \<le> count (agent_in R) rows"
    "count (team_open_under p) rows' \<le> count (team_open_under p) rows" for R p
    by (rule count_le [OF assms(2)],
        auto simp: moves_def agent_open_in_def agent_in_def team_open_under_def open_under_def)+
  show "\<exists>r \<in> set rows. lr_depth r' = lr_depth r" if "r' \<in> set rows'" for r'
    using evolves_from [OF assms(2) that] by (auto simp: moves_def)
qed

text \<open>A reservation either changes nothing or appends one row to a table that only moved.\<close>

lemma reserve_cases:
  fixes sha parent spec caps w now db
  defines "pid \<equiv> parent_id_of parent" and "fp \<equiv> fingerprint sha (parent_id_of parent) spec"
  obtains (refused) "snd (reserve sha parent spec caps w now db) = db"
      "\<nexists>i d root. fst (reserve sha parent spec caps w now db) = Granted (Fresh i d root)"
  | (fresh) depth root rows1 rows stored where
      "spot_of parent (ln_rows db) = Inr (depth, root)"
      "replay_request pid (sp_request_id spec) fp now (ln_rows db) = Inr rows1"
      "rows = reconcile_tree root w now rows1" "depth \<le> cap_depth (clamped caps)"
      "cap_refusal (sp_origin spec) pid root (clamped caps) rows = None"
      "stored = (case parent of UserRoot \<Rightarrow> (case sp_preassigned_id spec of Some s \<Rightarrow> s | None \<Rightarrow> []) | _ \<Rightarrow> root)"
      "\<not> taken rows (sp_preassigned_id spec)"
      "reserve sha parent spec caps w now db = (Granted (Fresh (ln_next_id db) depth stored),
         db\<lparr>ln_rows := rows @ [new_row (ln_next_id db) pid stored depth fp spec now],
            ln_next_id := ln_next_id db + 1\<rparr>)"
proof (cases "spot_of parent (ln_rows db)")
  case (Inl e)
  then show ?thesis by (intro refused) (simp_all add: reserve_def Let_def)
next
  case (Inr place)
  obtain depth root where place: "place = (depth, root)" by (cases place)
  show ?thesis
  proof (cases "replay_request pid (sp_request_id spec) fp now (ln_rows db)")
    case (Inl a)
    moreover have "a \<noteq> Granted (Fresh i d r)" for i d r
      using Inl by (auto simp: replay_request_def split: option.splits if_splits)
    ultimately show ?thesis using Inr place
      by (intro refused) (simp_all add: reserve_def Let_def pid_def fp_def)
  next
    case (Inr rows1)
    define rows where "rows = reconcile_tree root w now rows1"
    define b where "b = (if sp_origin spec = OriginUser then None else breaker pid now db)"
    define c where "c = cap_refusal (sp_origin spec) pid root (clamped caps) rows"
    define t where "t = taken rows (sp_preassigned_id spec)"
    define stored where "stored = (case parent of
        UserRoot \<Rightarrow> (case sp_preassigned_id spec of Some s \<Rightarrow> s | None \<Rightarrow> []) | _ \<Rightarrow> root)"
    note here = \<open>spot_of parent (ln_rows db) = Inr place\<close> place Inr
    have eq: "reserve sha parent spec caps w now db =
       (if depth > cap_depth (clamped caps) then (Refuse (RefuseDepth depth (cap_depth (clamped caps))), db)
        else case b of Some refusal \<Rightarrow> (Refuse refusal, db) | None \<Rightarrow>
          (case c of Some refusal \<Rightarrow> (Refuse refusal, db) | None \<Rightarrow>
             if t then (DbError, db)
             else (Granted (Fresh (ln_next_id db) depth stored),
               db\<lparr>ln_rows := rows @ [new_row (ln_next_id db) pid stored depth fp spec now],
                  ln_next_id := ln_next_id db + 1\<rparr>)))"
      using here unfolding reserve_def Let_def stored_def t_def c_def b_def rows_def pid_def fp_def
      by simp
    show ?thesis
    proof (cases "depth \<le> cap_depth (clamped caps) \<and> b = None \<and> c = None \<and> \<not> t")
      case True
      then show ?thesis using here
        by (intro fresh [of depth root rows1 rows stored]) (simp_all add: eq rows_def c_def t_def stored_def)
    next
      case False
      then show ?thesis by (intro refused) (auto simp: eq split: option.splits if_splits)
    qed
  qed
qed

lemma replay_new_key:
  assumes "tree_wf db" "replay_request p q fp now (ln_rows db) = Inr rows"
  shows "\<forall>r \<in> set rows. \<not> (lr_parent r = p \<and> lr_request r = q)"
proof (cases "row_by_request (ln_rows db) p q")
  case None
  then have "rows = ln_rows db" using assms(2) by (simp add: replay_request_def)
  with None show ?thesis by (auto simp: row_by_request_def find_None_iff)
next
  case (Some e)
  then have e: "e \<in> set (ln_rows db)" "lr_parent e = p" "lr_request e = q"
    unfolding row_by_request_def by (auto simp: find_Some_iff)
  have rows: "rows = filter (\<lambda>r. lr_id r \<noteq> lr_id e) (ln_rows db)"
    using assms(2) Some by (auto simp: replay_request_def split: if_splits)
  have "r = e" if "r \<in> set (ln_rows db)" "lr_parent r = p" "lr_request r = q" for r
    using wf_same_key [OF assms(1)] that e by simp
  then show ?thesis by (auto simp: rows)
qed

lemma spot_depth:
  "\<lbrakk>spot_of parent rows = Inr (d, root); row_by_session rows (parent_id_of parent) = Some q; parent = Session (parent_id_of parent)\<rbrakk>
    \<Longrightarrow> d = lr_depth q + 1 \<and> root = lr_root q"
  by (cases parent) (auto simp: spot_of_def split: if_splits)

lemma spot_depth_0: "spot_of parent rows = Inr (d, root) \<Longrightarrow> d = 0 \<longleftrightarrow> parent = UserRoot"
  by (auto simp: spot_of_def split: spawn_parent.splits option.splits if_splits)

lemma by_session_unique:
  "\<lbrakk>tree_wf db; r \<in> set (ln_rows db); lr_session r = Some s\<rbrakk> \<Longrightarrow> row_by_session (ln_rows db) s = Some r"
proof -
  assume wf: "tree_wf db" and r: "r \<in> set (ln_rows db)" "lr_session r = Some s"
  then have "row_by_session (ln_rows db) s \<noteq> None" by (auto simp: row_by_session_def find_None_iff)
  then obtain q where q: "row_by_session (ln_rows db) s = Some q" by blast
  then have "q \<in> set (ln_rows db)" "lr_session q = Some s"
    unfolding row_by_session_def by (auto simp: find_Some_iff)
  then have "q = r" using wf_same_session [OF wf] r by blast
  with q show ?thesis by simp
qed

lemma fresh_evolves: "\<lbrakk>fresh_id s rows; evolves rows rows'\<rbrakk> \<Longrightarrow> fresh_id s rows'"
  using evolves_from by (fastforce simp: fresh_id_def list_all_iff moves_def)

lemma wf_append:
  assumes wf: "tree_wf db" "ln_rows db = rows"
    and new: "lr_id r = ln_next_id db" "\<And>s. lr_session r = Some s \<Longrightarrow> fresh_id s rows \<and> lr_parent r \<noteq> s"
      "lr_parent r = USER_ROOT \<longleftrightarrow> lr_depth r = 0" "lr_depth r = 0 \<Longrightarrow> lr_origin r = OriginUser"
      "\<forall>q \<in> set rows. \<not> (lr_parent q = lr_parent r \<and> lr_request q = lr_request r)"
      "\<And>q. q \<in> set rows \<Longrightarrow> lr_session q = Some (lr_parent r) \<Longrightarrow> lr_depth r = lr_depth q + 1"
  shows "tree_wf (db\<lparr>ln_rows := rows @ [r], ln_next_id := ln_next_id db + 1\<rparr>)"
proof -
  have fresh: "lr_session q \<noteq> lr_session r \<or> lr_session r = None" "lr_session r \<noteq> Some (lr_parent q)"
    if "q \<in> set rows" for q
    using new(2) that by (cases "lr_session r"; auto simp: fresh_id_def list_all_iff)+
  have own: "lr_session r \<noteq> Some (lr_parent r)" using new(2) by blast
  have root: "lr_session r \<noteq> Some USER_ROOT" using new(2) by (auto simp: fresh_id_def)
  have old: "lr_id q \<noteq> lr_id r" if "q \<in> set rows" for q
    using wf_row [OF wf(1), of q] that wf(2) new(1) by (auto simp: row_ok_def)
  have "pair_ok a b" if "a \<in> set rows" "b \<in> set rows" for a b
    using that wf_pair [OF wf(1)] wf(2) by blast
  moreover have "pair_ok r r" using own by (simp add: pair_ok_def)
  moreover have "pair_ok a r" if "a \<in> set rows" for a
    using fresh [OF that] old [OF that] that new(5) by (auto simp: pair_ok_def)
  moreover have "pair_ok r a" if a: "a \<in> set rows" for a
  proof -
    have "lr_session a = Some (lr_parent r) \<longrightarrow> lr_depth r = lr_depth a + 1" using new(6) [OF a] by blast
    then show ?thesis
      using fresh [OF a] old [OF a] a new(5) by (auto simp: pair_ok_def)
  qed
  ultimately have pairs: "\<forall>a \<in> insert r (set rows). \<forall>b \<in> insert r (set rows). pair_ok a b" by blast
  have "row_ok (ln_next_id db + 1) a" if "a \<in> set rows" for a
    using wf_row [OF wf(1)] that wf(2) by (fastforce simp: row_ok_def)
  moreover have "row_ok (ln_next_id db + 1) r" using new(1,3,4) root by (simp add: row_ok_def)
  ultimately show ?thesis unfolding tree_wf_def using pairs by simp
qed

lemma reserve_wf:
  assumes wf: "tree_wf db"
    and parent: "parent = UserRoot \<longrightarrow> sp_origin spec = OriginUser"
      "parent \<noteq> UserRoot \<longrightarrow> parent_id_of parent \<noteq> USER_ROOT"
      "\<forall>s. sp_preassigned_id spec = Some s \<longrightarrow> fresh_id s (ln_rows db) \<and> parent_id_of parent \<noteq> s"
      "\<forall>run. parent = Run run \<longrightarrow> row_by_session (ln_rows db) run = None"
  shows "tree_wf (snd (reserve sha parent spec caps w now db))"
proof (cases rule: reserve_cases [of sha parent spec caps w now db])
  case refused
  then show ?thesis using wf by simp
next
  case (fresh depth root rows1 rows stored)
  let ?new = "new_row (ln_next_id db) (parent_id_of parent) stored depth
      (fingerprint sha (parent_id_of parent) spec) spec now"
  let ?mid = "db\<lparr>ln_rows := rows\<rparr>"
  have ev: "evolves (ln_rows db) rows"
    using evolves_trans [OF replay_evolves [OF fresh(2)] reconcile_evolves] by (simp add: fresh(3))
  have mid: "tree_wf ?mid" by (rule evolves_wf [OF wf]) (simp_all add: ev)
  have key: "\<forall>q \<in> set rows. \<not> (lr_parent q = parent_id_of parent \<and> lr_request q = sp_request_id spec)"
  proof
    fix q assume "q \<in> set rows"
    then obtain q0 where "q0 \<in> set rows1" "moves q0 q"
      using evolves_from [OF reconcile_evolves] fresh(3) by blast
    then show "\<not> (lr_parent q = parent_id_of parent \<and> lr_request q = sp_request_id spec)"
      using replay_new_key [OF wf fresh(2)] by (simp add: moves_def)
  qed
  have below: "depth = lr_depth q + 1" if q: "q \<in> set rows" "lr_session q = Some (parent_id_of parent)" for q
  proof -
    obtain q0 where q0: "q0 \<in> set (ln_rows db)" "moves q0 q" using evolves_from [OF ev q(1)] by blast
    then have s: "lr_session q0 = Some (parent_id_of parent)" using q(2) by (simp add: moves_def)
    note find = by_session_unique [OF wf q0(1) s]
    have "lr_session q0 \<noteq> Some USER_ROOT" using wf_row [OF wf q0(1)] by (simp add: row_ok_def)
    then have "parent = Session (parent_id_of parent)" using s find parent(4) by (cases parent) auto
    then show ?thesis using spot_depth [OF fresh(1) find] q0(2) by (simp add: moves_def)
  qed
  have "tree_wf (?mid\<lparr>ln_rows := rows @ [?new], ln_next_id := ln_next_id ?mid + 1\<rparr>)"
  proof (rule wf_append [OF mid])
    show "fresh_id s rows \<and> lr_parent ?new \<noteq> s" if "lr_session ?new = Some s" for s
      using that parent(3) fresh_evolves [OF _ ev] by (simp add: new_row_def)
    show "lr_parent ?new = USER_ROOT \<longleftrightarrow> lr_depth ?new = 0"
      using spot_depth_0 [OF fresh(1)] parent(2) by (auto simp: new_row_def)
    show "lr_origin ?new = OriginUser" if "lr_depth ?new = 0"
      using that spot_depth_0 [OF fresh(1)] parent(1) by (simp add: new_row_def)
    show "lr_depth ?new = lr_depth q + 1" if "q \<in> set rows" "lr_session q = Some (lr_parent ?new)" for q
      using below that by (simp add: new_row_def)
  qed (use key in \<open>simp_all add: new_row_def\<close>)
  then show ?thesis using fresh(8) by simp
qed

definition settle :: "nat \<Rightarrow> string \<Rightarrow> int \<Rightarrow> lineage_row \<Rightarrow> lineage_row" where
  "settle i s now r =
     (if lr_id r = i \<and> lr_state r = Reserved
      then r\<lparr>lr_session := Some s, lr_state := Active, lr_updated_at := now,
             lr_root := (if lr_parent r = USER_ROOT then s else lr_root r)\<rparr>
      else r)"

lemma settle_fields [simp]:
  "lr_id (settle i s now r) = lr_id r" "lr_parent (settle i s now r) = lr_parent r"
  "lr_depth (settle i s now r) = lr_depth r" "lr_request (settle i s now r) = lr_request r"
  "lr_origin (settle i s now r) = lr_origin r"
  "lr_fingerprint (settle i s now r) = lr_fingerprint r"
  "lr_state (settle i s now r) = Ended \<longleftrightarrow> lr_state r = Ended"
  by (simp_all add: settle_def)

lemma finalize_rows:
  "snd (finalize i s now db) = db \<or>
   (ln_rows (snd (finalize i s now db)) = map (settle i s now) (ln_rows db) \<and>
    ln_next_id (snd (finalize i s now db)) = ln_next_id db)"
  by (auto simp: finalize_def settle_def split: option.splits)

lemma finalize_wf:
  assumes wf: "tree_wf db"
    and s: "(\<exists>r \<in> set (ln_rows db). lr_id r = i \<and> lr_session r = Some s) \<or> fresh_id s (ln_rows db)"
  shows "tree_wf (snd (finalize i s now db))"
proof (cases "snd (finalize i s now db) = db")
  case False
  then have db': "ln_rows (snd (finalize i s now db)) = map (settle i s now) (ln_rows db)"
      "ln_next_id (snd (finalize i s now db)) = ln_next_id db"
    using finalize_rows by blast+
  let ?f = "settle i s now"
  have not_root: "s \<noteq> USER_ROOT" using s wf_row [OF wf] by (auto simp: fresh_id_def row_ok_def)
  have same: "lr_session (?f r) = lr_session r \<or> lr_session (?f r) = Some s \<and> lr_id r = i" for r
    by (simp add: settle_def)
  have holder: "lr_id q = i" if "q \<in> set (ln_rows db)" "lr_session q = Some s" for q
    using s
  proof
    assume "\<exists>r \<in> set (ln_rows db). lr_id r = i \<and> lr_session r = Some s"
    then show ?thesis using wf_same_session [OF wf] that by blast
  qed (use that in \<open>auto simp: fresh_id_def list_all_iff\<close>)
  have own: "lr_id q = i" if "q \<in> set (ln_rows db)" "lr_session (?f q) = Some s" for q
    using same [of q] holder [OF that(1)] that(2) by auto
  have eq: "r = q" if rq: "r \<in> set (ln_rows db)" "q \<in> set (ln_rows db)"
    and ses: "lr_session (?f r) = Some t" "lr_session (?f q) = Some t" for r q t
  proof (cases "t = s")
    case True
    then show ?thesis using own rq ses wf_same_id [OF wf rq] by simp
  next
    case False
    then have "lr_session r = Some t" "lr_session q = Some t" using same [of r] same [of q] ses by auto
    then show ?thesis using wf_same_session [OF wf rq] by blast
  qed
  have child: "lr_depth r = lr_depth q + 1"
    if rq: "r \<in> set (ln_rows db)" "q \<in> set (ln_rows db)" "lr_session (?f q) = Some (lr_parent r)" for r q
  proof (cases "lr_session (?f q) = lr_session q")
    case True
    then show ?thesis using wf_child [OF wf rq(1,2)] rq(3) by simp
  next
    case False
    then have p: "lr_parent r = s" "lr_id q = i" using same [of q] rq(3) by auto
    then have "\<not> fresh_id s (ln_rows db)" using rq(1) by (auto simp: fresh_id_def list_all_iff)
    then obtain h where h: "h \<in> set (ln_rows db)" "lr_id h = i" "lr_session h = Some s" using s by blast
    then have "h = q" using wf_same_id [OF wf h(1) rq(2)] p(2) by simp
    then show ?thesis using wf_child [OF wf rq(1,2)] h(3) p(1) by simp
  qed
  have "pair_ok (?f r) (?f q)" if rq: "r \<in> set (ln_rows db)" "q \<in> set (ln_rows db)" for r q
  proof -
    have "\<forall>t. lr_session (?f r) = Some t \<and> lr_session (?f q) = Some t \<longrightarrow> r = q" using eq [OF rq] by blast
    moreover have "lr_session (?f q) = Some (lr_parent r) \<longrightarrow> lr_depth r = lr_depth q + 1" using child [OF rq] by blast
    ultimately show ?thesis
      using wf_same_id [OF wf rq] wf_same_key [OF wf rq] unfolding pair_ok_def settle_fields by blast
  qed
  moreover have "row_ok (ln_next_id db) (?f r)" if "r \<in> set (ln_rows db)" for r
    using wf_row [OF wf that] same [of r] not_root unfolding row_ok_def settle_fields by auto
  ultimately show ?thesis unfolding tree_wf_def db' by simp
qed (use wf in simp)

lemma rekey_rows:
  "snd (rekey_lineage old new db) = db \<or>
   (ln_rows (snd (rekey_lineage old new db)) = map (rekey_row old new) (ln_rows db) \<and>
    ln_next_id (snd (rekey_lineage old new db)) = ln_next_id db)"
  by (auto simp: rekey_lineage_def Let_def)

lemma rekey_row_fields [simp]:
  "lr_id (rekey_row old new r) = lr_id r" "lr_depth (rekey_row old new r) = lr_depth r"
  "lr_request (rekey_row old new r) = lr_request r" "lr_origin (rekey_row old new r) = lr_origin r"
  "lr_state (rekey_row old new r) = lr_state r"
  "lr_parent (rekey_row old new r) = rename old new (lr_parent r)"
  "lr_root (rekey_row old new r) = rename old new (lr_root r)"
  "lr_session (rekey_row old new r) = map_option (rename old new) (lr_session r)"
  by (simp_all add: rekey_row_def)

lemma rename_inj: "\<lbrakk>a \<noteq> new; b \<noteq> new\<rbrakk> \<Longrightarrow> rename old new a = rename old new b \<longleftrightarrow> a = b"
  by (auto simp: rename_def)

lemma rekey_wf:
  assumes wf: "tree_wf db" and names: "old \<noteq> USER_ROOT" "fresh_id new (ln_rows db)"
  shows "tree_wf (snd (rekey_lineage old new db))"
proof (cases "snd (rekey_lineage old new db) = db")
  case False
  then have db': "ln_rows (snd (rekey_lineage old new db)) = map (rekey_row old new) (ln_rows db)"
      "ln_next_id (snd (rekey_lineage old new db)) = ln_next_id db"
    using rekey_rows by blast+
  let ?f = "rekey_row old new"
  have fresh: "lr_parent r \<noteq> new" "lr_session r \<noteq> Some new" if "r \<in> set (ln_rows db)" for r
    using names(2) that by (auto simp: fresh_id_def list_all_iff)
  have root: "rename old new a = USER_ROOT \<longleftrightarrow> a = USER_ROOT" for a
    using names by (auto simp: rename_def fresh_id_def)
  have "pair_ok (?f r) (?f q)" if rq: "r \<in> set (ln_rows db)" "q \<in> set (ln_rows db)" for r q
  proof -
    have same: "lr_session r = lr_session q"
      if "map_option (rename old new) (lr_session r) = Some t" "map_option (rename old new) (lr_session q) = Some t" for t
      using that fresh(2) [OF rq(1)] fresh(2) [OF rq(2)] rename_inj by auto
    have up: "lr_session q = Some (lr_parent r)"
      if "map_option (rename old new) (lr_session q) = Some (rename old new (lr_parent r))"
      using that fresh(1) [OF rq(1)] fresh(2) [OF rq(2)] rename_inj by auto
    have "rename old new (lr_parent r) = rename old new (lr_parent q) \<longleftrightarrow> lr_parent r = lr_parent q"
      using fresh(1) rq rename_inj by blast
    moreover have "r = q" if "map_option (rename old new) (lr_session r) = Some t"
        "map_option (rename old new) (lr_session q) = Some t" for t
      using same [OF that] that(1) wf_same_session [OF wf rq] by (cases "lr_session r") auto
    ultimately show ?thesis
      using wf_same_id [OF wf rq] wf_same_key [OF wf rq] wf_child [OF wf rq] up
      unfolding pair_ok_def rekey_row_fields by blast
  qed
  moreover have "row_ok (ln_next_id db) (?f r)" if "r \<in> set (ln_rows db)" for r
    using wf_row [OF wf that] root unfolding row_ok_def by auto
  ultimately show ?thesis unfolding tree_wf_def db' by simp
qed (use wf in simp)

lemma step_wf: "\<lbrakk>lineage_step sha caps db db'; tree_wf db\<rbrakk> \<Longrightarrow> tree_wf db'"
proof (induction rule: lineage_step.induct)
  case (rolled_back db i reason now)
  then show ?case by (rule evolves_wf [OF _ rollback_evolves]) (simp add: rollback_def Let_def split: option.splits)
next
  case (activated db s now)
  then show ?case unfolding activate_def
    by (rule evolves_wf [OF _ set_state_evolves]) (simp_all add: set_state_def Let_def)
next
  case (parked db s now)
  then show ?case by (rule evolves_wf [OF _ park_evolves]) (simp add: park_def Let_def)
next
  case (ended db s cascade now)
  then show ?case
    by (rule evolves_wf [OF _ mark_ended_evolves]) (simp add: mark_ended_def Let_def split: prod.splits)
next
  case (booted db now)
  then show ?case by (rule evolves_wf [OF _ boot_evolves]) (simp add: boot_reconcile_def Let_def)
qed (blast intro: reserve_wf finalize_wf rekey_wf)+

lemma reachable_wf: "lineage_reachable sha caps db \<Longrightarrow> tree_wf db"
proof (induction rule: lineage_reachable.induct)
  case start
  show ?case by (simp add: tree_wf_def lineage_new_def)
qed (rule step_wf)

section \<open>Budgets\<close>

lemma count_append: "count P (rows @ [r]) = count P rows + (if P r then 1 else 0)"
  by (simp add: count_def)

text \<open>A new row is counted only where the reservation checked the count.\<close>

lemma reserve_budgets:
  assumes budget: "within_budgets caps (ln_rows db)"
    and parent: "parent = UserRoot \<longrightarrow> sp_origin spec = OriginUser"
  shows "within_budgets caps (ln_rows (snd (reserve sha parent spec caps w now db)))"
proof (cases rule: reserve_cases [of sha parent spec caps w now db])
  case refused
  then show ?thesis using budget by simp
next
  case (fresh depth root rows1 rows stored)
  define new where "new = new_row (ln_next_id db) (parent_id_of parent) stored depth
      (fingerprint sha (parent_id_of parent) spec) spec now"
  have ev: "evolves (ln_rows db) rows"
    using evolves_trans [OF replay_evolves [OF fresh(2)] reconcile_evolves] by (simp add: fresh(3))
  have mid: "within_budgets caps rows" using evolves_budgets [OF budget ev] .
  have new: "lr_root new = stored" "lr_parent new = parent_id_of parent" "lr_depth new = depth"
      "lr_origin new = sp_origin spec" "lr_state new = Reserved"
    by (simp_all add: new_def new_row_def)
  have at_root: "stored = root" if "sp_origin spec = OriginAgent"
    using that parent fresh(6) by (cases parent) auto
  have agent: "count (agent_open_in root) rows < cap_open_per_root caps"
      "count (agent_in root) rows < cap_lifetime_per_root caps" if "sp_origin spec = OriginAgent"
    using fresh(5) that by (auto simp: cap_refusal_def Let_def clamped_def split: if_splits)
  have team: "count (team_open_under (parent_id_of parent)) rows < cap_run_lane caps"
    if "sp_origin spec = OriginTeam"
  proof -
    have "count (open_under (parent_id_of parent)) rows < cap_run_lane caps"
      using fresh(5) that by (auto simp: cap_refusal_def Let_def clamped_def split: if_splits)
    moreover have "count (team_open_under p) rows \<le> count (open_under p) rows" for p
      using count_map_le [of rows "team_open_under p" "\<lambda>r. r" "open_under p"] by (simp add: team_open_under_def)
    ultimately show ?thesis by (meson le_less_trans)
  qed
  have "count (agent_open_in R) (rows @ [new]) \<le> cap_open_per_root caps \<and>
      count (agent_in R) (rows @ [new]) \<le> cap_lifetime_per_root caps" for R
    using mid agent at_root
    by (cases "sp_origin spec = OriginAgent \<and> R = root")
       (auto simp: count_append within_budgets_def agent_open_in_def agent_in_def new)
  moreover have "count (team_open_under p) (rows @ [new]) \<le> cap_run_lane caps" for p
    using mid team
    by (cases "sp_origin spec = OriginTeam \<and> p = parent_id_of parent")
       (auto simp: count_append within_budgets_def team_open_under_def open_under_def new)
  moreover have "\<forall>r \<in> set (rows @ [new]). lr_depth r \<le> cap_depth (clamped caps)"
    using mid fresh(4) by (auto simp: within_budgets_def new)
  ultimately have "within_budgets caps (rows @ [new])" by (simp add: within_budgets_def)
  then show ?thesis using fresh(8) by (simp add: new_def)
qed

lemma finalize_budgets:
  assumes wf: "tree_wf db" and budget: "within_budgets caps (ln_rows db)"
  shows "within_budgets caps (ln_rows (snd (finalize i s now db)))"
proof (cases "snd (finalize i s now db) = db")
  case False
  then have rows: "ln_rows (snd (finalize i s now db)) = map (settle i s now) (ln_rows db)"
    using finalize_rows by blast
  have root: "lr_root (settle i s now r) = lr_root r" if "r \<in> set (ln_rows db)" "lr_origin r = OriginAgent" for r
    using wf_row [OF wf that(1)] that(2) by (auto simp: settle_def row_ok_def)
  have "count (agent_open_in R) (map (settle i s now) (ln_rows db)) \<le> count (agent_open_in R) (ln_rows db)"
    "count (agent_in R) (map (settle i s now) (ln_rows db)) \<le> count (agent_in R) (ln_rows db)"
    "count (team_open_under p) (map (settle i s now) (ln_rows db)) \<le> count (team_open_under p) (ln_rows db)" for R p
    using root by (auto intro!: count_map_le simp: agent_open_in_def agent_in_def team_open_under_def open_under_def)
  then show ?thesis unfolding rows by (intro budgets_le [OF budget]) auto
qed (use budget in simp)

lemma rekey_budgets:
  assumes fresh: "fresh_id new (ln_rows db)" and budget: "within_budgets caps (ln_rows db)"
  shows "within_budgets caps (ln_rows (snd (rekey_lineage old new db)))"
proof (cases "snd (rekey_lineage old new db) = db")
  case False
  then have rows: "ln_rows (snd (rekey_lineage old new db)) = map (rekey_row old new) (ln_rows db)"
    using rekey_rows by blast
  define before where "before = (\<lambda>n. if n = new then old else n)"
  have before: "rename old new (lr_root r) = R \<Longrightarrow> lr_root r = before R"
      "rename old new (lr_parent r) = p \<Longrightarrow> lr_parent r = before p" if "r \<in> set (ln_rows db)" for r R p
    using that fresh by (auto simp: rename_def before_def fresh_id_def list_all_iff split: if_splits)
  have "count (agent_open_in R) (map (rekey_row old new) (ln_rows db)) \<le> count (agent_open_in (before R)) (ln_rows db)"
    "count (agent_in R) (map (rekey_row old new) (ln_rows db)) \<le> count (agent_in (before R)) (ln_rows db)"
    "count (team_open_under p) (map (rekey_row old new) (ln_rows db)) \<le> count (team_open_under (before p)) (ln_rows db)"
    for R p
    using before by (auto intro!: count_map_le simp: agent_open_in_def agent_in_def team_open_under_def open_under_def)
  then show ?thesis unfolding rows by (intro budgets_le [OF budget]) auto
qed (use budget in simp)

lemma step_budgets:
  "\<lbrakk>lineage_step sha caps db db'; tree_wf db; within_budgets caps (ln_rows db)\<rbrakk> \<Longrightarrow> within_budgets caps (ln_rows db')"
proof (induction rule: lineage_step.induct)
  case (activated db s now)
  then show ?case unfolding activate_def by (intro evolves_budgets [OF _ set_state_evolves]) simp_all
qed (blast intro: reserve_budgets finalize_budgets rekey_budgets evolves_budgets rollback_evolves park_evolves
    mark_ended_evolves boot_evolves)+

lemma reachable_budgets: "lineage_reachable sha caps db \<Longrightarrow> within_budgets caps (ln_rows db)"
proof (induction rule: lineage_reachable.induct)
  case start
  show ?case by (simp add: within_budgets_def lineage_new_def count_def)
qed (blast intro: step_budgets reachable_wf)

text \<open>C3: In every reachable table the agents below one root never hold more open rows, and never
  have more rows in all, than the caps allow; a run never holds more open roles than its lane;
  no row is deeper than the configured depth, nor than two; and a row sits exactly one below a
  parent that is in the table.\<close>

theorem spawn_budgets_hold:
  assumes "lineage_reachable sha caps db"
  shows "count (agent_open_in root) (ln_rows db) \<le> cap_open_per_root caps \<and>
    count (agent_in root) (ln_rows db) \<le> cap_lifetime_per_root caps \<and>
    count (team_open_under run) (ln_rows db) \<le> cap_run_lane caps \<and>
    (\<forall>r \<in> set (ln_rows db). lr_depth r \<le> cap_depth caps \<and> lr_depth r \<le> MAX_DEPTH \<and>
       (\<forall>q \<in> set (ln_rows db). lr_session q = Some (lr_parent r) \<longrightarrow> lr_depth r = lr_depth q + 1))"
  using reachable_budgets [OF assms] wf_child [OF reachable_wf [OF assms]]
  by (simp add: within_budgets_def clamped_def)

section \<open>Ancestry\<close>

lemma below_has_row: "spawned_below rows a t \<Longrightarrow> \<exists>r \<in> set rows. lr_session r = Some t"
  by (erule spawned_belowE) blast+

lemma below_iff:
  assumes "tree_wf db" "r \<in> set (ln_rows db)" "lr_session r = Some t"
  shows "spawned_below (ln_rows db) a t \<longleftrightarrow> lr_parent r = a \<or> spawned_below (ln_rows db) a (lr_parent r)"
proof
  assume "spawned_below (ln_rows db) a t"
  then obtain q where q: "q \<in> set (ln_rows db)" "lr_session q = Some t"
      "lr_parent q = a \<or> spawned_below (ln_rows db) a (lr_parent q)"
    by (rule spawned_belowE) blast+
  then have "q = r" using wf_same_session [OF assms(1) q(1) assms(2) q(2) assms(3)] by blast
  then show "lr_parent r = a \<or> spawned_below (ln_rows db) a (lr_parent r)" using q(3) by blast
qed (use assms(2,3) in \<open>blast intro: direct deeper\<close>)

lemma below_deeper:
  assumes wf: "tree_wf db" and q: "q \<in> set (ln_rows db)" "lr_session q = Some a"
  shows "\<lbrakk>spawned_below (ln_rows db) a t; r \<in> set (ln_rows db); lr_session r = Some t\<rbrakk> \<Longrightarrow> lr_depth q < lr_depth r"
proof (induction arbitrary: r rule: spawned_below.induct)
  case (direct r' t)
  then have "r = r'" using wf_same_session [OF wf] by blast
  then show ?case using wf_child [OF wf direct(1) q(1)] direct(3) q(2) by simp
next
  case (deeper r' t)
  then have r: "r = r'" using wf_same_session [OF wf] by blast
  obtain p where p: "p \<in> set (ln_rows db)" "lr_session p = Some (lr_parent r')"
    using below_has_row [OF deeper(3)] by blast
  then show ?case using deeper.IH [OF p] wf_child [OF wf deeper(1) p] r by simp
qed

lemma climb_iff:
  assumes wf: "tree_wf db"
  shows "(\<And>r. row_by_session (ln_rows db) t = Some r \<Longrightarrow> lr_depth r < n) \<Longrightarrow> 0 < n \<Longrightarrow>
    climb n (ln_rows db) a t \<longleftrightarrow> spawned_below (ln_rows db) a t"
proof (induction n arbitrary: t)
  case (Suc n)
  show ?case
  proof (cases "row_by_session (ln_rows db) t")
    case None
    then have "\<not> spawned_below (ln_rows db) a t"
      using below_has_row [of "ln_rows db" a t] by (auto simp: row_by_session_def find_None_iff)
    with None show ?thesis by simp
  next
    case (Some r)
    then have r: "r \<in> set (ln_rows db)" "lr_session r = Some t"
      unfolding row_by_session_def by (auto simp: find_Some_iff)
    note iff = below_iff [OF wf r, of a] and ok = wf_row [OF wf r(1)]
    have depth: "lr_depth r \<le> n" using Suc.prems(1) [OF Some] by simp
    show ?thesis
    proof (cases "lr_parent r = USER_ROOT")
      case True
      have "\<not> spawned_below (ln_rows db) a USER_ROOT"
        using below_has_row wf_row [OF wf] by (fastforce simp: row_ok_def)
      then show ?thesis using True Some iff by simp
    next
      case False
      have "climb n (ln_rows db) a (lr_parent r) \<longleftrightarrow> spawned_below (ln_rows db) a (lr_parent r)"
      proof (rule Suc.IH)
        show "lr_depth q < n" if "row_by_session (ln_rows db) (lr_parent r) = Some q" for q
        proof -
          have "q \<in> set (ln_rows db)" "lr_session q = Some (lr_parent r)"
            using that unfolding row_by_session_def by (auto simp: find_Some_iff)
          then show ?thesis using wf_child [OF wf r(1)] depth by fastforce
        qed
        show "0 < n" using False ok depth by (auto simp: row_ok_def)
      qed
      then show ?thesis using False Some iff by simp
    qed
  qed
qed simp

text \<open>The four-step climb decides ancestry in every reachable table: a session is a descendant of
  another exactly when a chain of parent links leads from it to the other, which is never
  itself; so the credential of a session reaches that session and what was spawned below it.\<close>

theorem descendant_is_ancestry:
  assumes "lineage_reachable sha caps db"
  shows "(is_descendant db a t \<longleftrightarrow> spawned_below (ln_rows db) a t) \<and> \<not> is_descendant db t t \<and>
    (may_reach_descendant st (PeerLocal (LocalSession a)) t (is_descendant db) \<longleftrightarrow>
       t = a \<or> spawned_below (ln_rows db) a t)"
proof -
  note wf = reachable_wf [OF assms] and budget = reachable_budgets [OF assms]
  have iff: "is_descendant db a t \<longleftrightarrow> spawned_below (ln_rows db) a t" for a t
  proof -
    have "lr_depth r < MAX_DEPTH + 2" if "row_by_session (ln_rows db) t = Some r" for r
    proof -
      have "r \<in> set (ln_rows db)" using that unfolding row_by_session_def by (auto simp: find_Some_iff)
      then show ?thesis using budget by (fastforce simp: within_budgets_def clamped_def)
    qed
    then show ?thesis unfolding is_descendant_def by (intro climb_iff [OF wf]) simp_all
  qed
  have "\<not> spawned_below (ln_rows db) t t"
    using below_has_row below_deeper [OF wf] by (metis less_irrefl)
  then show ?thesis by (auto simp: iff may_reach_descendant_def)
qed

section \<open>Repeated requests\<close>

lemma find_snoc: "\<forall>x \<in> set xs. \<not> P x \<Longrightarrow> List.find P (xs @ [y]) = (if P y then Some y else None)"
  by (induction xs) auto

lemma park_session_keeps_ended:
  "\<lbrakk>r \<in> set (park_session now s rows); lr_state r = Ended\<rbrakk> \<Longrightarrow> r \<in> set rows"
  by (auto simp: park_session_def split: if_splits)

lemma reconcile_keeps_ended:
  assumes "r \<in> set (reconcile_tree root w now rows)" "lr_state r = Ended"
  shows "r \<in> set rows"
proof -
  have kept: "r \<in> set (fold (park_session now) ids kept) \<Longrightarrow> r \<in> set kept" for ids kept
    using assms(2) by (induction ids arbitrary: kept) (auto dest: park_session_keeps_ended)
  show ?thesis
  proof (cases "root = []")
    case True
    then show ?thesis using assms(1) by (simp add: reconcile_tree_def Let_def)
  next
    case False
    have "set (filter P rows) \<subseteq> set rows" for P by simp
    then show ?thesis
      using assms(1) False kept unfolding reconcile_tree_def Let_def by (simp only: if_False) blast
  qed
qed

lemma spot_open:
  "(\<And>r s. r \<in> set rows \<Longrightarrow> parent = Session s \<Longrightarrow> lr_session r = Some s \<Longrightarrow> lr_state r \<noteq> Ended) \<Longrightarrow>
     \<exists>place. spot_of parent rows = Inr place"
  by (cases parent) (auto simp: spot_of_def row_by_session_def find_Some_iff split: option.splits)

lemma reserve_answers:
  "\<lbrakk>spot_of parent (ln_rows db) = Inr place;
    replay_request (parent_id_of parent) (sp_request_id spec) (fingerprint sha (parent_id_of parent) spec) now (ln_rows db) = Inl a\<rbrakk>
    \<Longrightarrow> reserve sha parent spec caps w now db = (a, db)"
  by (cases place) (simp add: reserve_def Let_def)

text \<open>What a granted reservation leaves: the new row is the only one with its key, and the parent is
  not ended.\<close>

lemma granted_rows:
  assumes wf: "tree_wf db"
    and granted: "reserve sha parent spec caps w now db = (Granted (Fresh i d root), db1)"
  obtains rows stored where
    "ln_rows db1 = rows @ [new_row i (parent_id_of parent) stored d (fingerprint sha (parent_id_of parent) spec) spec now]"
    "\<forall>r \<in> set rows. \<not> (lr_parent r = parent_id_of parent \<and> lr_request r = sp_request_id spec)"
    "\<forall>r \<in> set (ln_rows db1). \<forall>s. parent = Session s \<and> lr_session r = Some s \<longrightarrow> lr_state r \<noteq> Ended"
    "\<forall>r \<in> set rows. lr_id r \<noteq> i"
proof (cases rule: reserve_cases [of sha parent spec caps w now db])
  case refused
  then show ?thesis using granted by simp
next
  case (fresh depth root' rows1 rows stored)
  have i: "i = ln_next_id db" "d = depth" and db1: "ln_rows db1 =
      rows @ [new_row i (parent_id_of parent) stored d (fingerprint sha (parent_id_of parent) spec) spec now]"
    using fresh(8) granted by auto
  have ev: "evolves (ln_rows db) rows"
    using evolves_trans [OF replay_evolves [OF fresh(2)] reconcile_evolves] by (simp add: fresh(3))
  have key: "\<forall>r \<in> set rows. \<not> (lr_parent r = parent_id_of parent \<and> lr_request r = sp_request_id spec)"
  proof
    fix q assume "q \<in> set rows"
    then obtain q0 where "q0 \<in> set rows1" "moves q0 q"
      using evolves_from [OF reconcile_evolves] fresh(3) by blast
    then show "\<not> (lr_parent q = parent_id_of parent \<and> lr_request q = sp_request_id spec)"
      using replay_new_key [OF wf fresh(2)] by (simp add: moves_def)
  qed
  have open_parent: "lr_state r \<noteq> Ended" if r: "r \<in> set rows" "parent = Session s" "lr_session r = Some s" for r s
  proof
    assume e: "lr_state r = Ended"
    then have "r \<in> set rows1" using reconcile_keeps_ended r(1) fresh(3) by blast
    then have "r \<in> set (ln_rows db)"
      using fresh(2) by (auto simp: replay_request_def split: option.splits if_splits)
    then show False
      using by_session_unique [OF wf _ r(3)] fresh(1) r(2) e by (simp add: spot_of_def)
  qed
  have "\<forall>r \<in> set rows. lr_id r \<noteq> i"
  proof
    fix r assume "r \<in> set rows"
    then obtain r0 where "r0 \<in> set (ln_rows db)" "moves r0 r" using evolves_from [OF ev] by blast
    then show "lr_id r \<noteq> i" using wf_row [OF wf] i(1) by (fastforce simp: row_ok_def moves_def)
  qed
  moreover have "lr_state r \<noteq> Ended"
    if "r \<in> set (ln_rows db1)" "parent = Session s" "lr_session r = Some s" for r s
    using that open_parent unfolding db1 by (auto simp: new_row_def)
  ultimately show ?thesis by (intro that [OF db1 key]) blast+
qed


section \<open>Instances\<close>

definition sample_spec :: "string \<Rightarrow> spawn_spec" where
  "sample_spec prompt = \<lparr>sp_request_id = ''r'', sp_origin = OriginAgent, sp_posture = Review,
     sp_notify_parent = NotifyAuto, sp_allow_parent_permits = False, sp_preassigned_id = None,
     sp_fingerprint_input = prompt\<rparr>"

definition sample_db :: lineage_db where
  "sample_db = snd (reserve (\<lambda>x. x) (Session ''a'') (sample_spec ''p'') default_caps (\<lambda>_. False) 0 lineage_new)"

lemma sample_reachable: "lineage_reachable (\<lambda>x. x) default_caps sample_db"
  unfolding sample_db_def
  by (rule lineage_reachable.stepped [OF lineage_reachable.start lineage_step.reserved])
     (simp_all add: sample_spec_def USER_ROOT_def)

lemma sample_rows:
  "sample_db = \<lparr>ln_rows = [new_row 1 ''a'' ''a'' 1 (fingerprint (\<lambda>x. x) ''a'' (sample_spec ''p'')) (sample_spec ''p'') 0],
     ln_next_id = 2, ln_failures = []\<rparr>"
  "fst (reserve (\<lambda>x. x) (Session ''a'') (sample_spec ''p'') default_caps (\<lambda>_. False) 0 lineage_new) =
     Granted (Fresh 1 1 ''a'')"
  by (simp_all add: sample_db_def reserve_def Let_def spot_of_def row_by_session_def lineage_new_def
      replay_request_def row_by_request_def reconcile_tree_def default_caps_def clamped_def sample_spec_def
      breaker_def cap_refusal_def count_def taken_def MAX_DEPTH_def List.map_filter_simps)

theorem spawn_budgets_hold_witness:
  "length (ln_rows sample_db) = 1 \<and> count (agent_open_in ''a'') (ln_rows sample_db) \<le> 16"
  using spawn_budgets_hold [OF sample_reachable, of "''a''"]
  by (simp add: default_caps_def) (simp add: sample_rows)

definition sample_tree :: lineage_db where
  "sample_tree = snd (finalize 1 ''b'' 5 sample_db)"

lemma sample_tree_rows:
  "sample_tree = sample_db\<lparr>ln_rows := map (settle 1 ''b'' 5) (ln_rows sample_db)\<rparr>"
  "finalize 1 ''b'' 5 sample_db = (True, sample_tree)"
  by (simp_all add: sample_tree_def sample_rows finalize_def settle_def new_row_def sample_spec_def
      AList.delete_eq)

lemma sample_tree_reachable: "lineage_reachable (\<lambda>x. x) default_caps sample_tree"
  unfolding sample_tree_def
  by (rule lineage_reachable.stepped [OF sample_reachable lineage_step.finalized])
     (simp add: sample_rows fresh_id_def USER_ROOT_def new_row_def sample_spec_def)

lemma sample_below: "spawned_below (ln_rows sample_tree) ''a'' ''b''"
  by (rule direct [of "hd (ln_rows sample_tree)"])
     (simp_all add: sample_tree_rows sample_rows settle_def new_row_def)

theorem descendant_is_ancestry_witness:
  "is_descendant sample_tree ''a'' ''b'' \<and> \<not> is_descendant sample_tree ''a'' ''a'' \<and>
   may_reach_descendant auth_new (PeerLocal (LocalSession ''a'')) ''b'' (is_descendant sample_tree)"
  using descendant_is_ancestry [OF sample_tree_reachable, of "''a''" "''b''" auth_new]
    descendant_is_ancestry [OF sample_tree_reachable, of "''b''" "''a''" auth_new] sample_below by simp



end
