(* ===== verification/Lineage_Children.thy ===== *)
theory Lineage_Children
  imports Lineage_Tree
begin

text \<open>
  The listing of the children of a session (\<open>LineageStore::children\<close>, \<open>find_by_request\<close> in
  \<open>crates/agents/src/lineage.rs\<close>).  The loop over the growing frontier has no bound of its own; it
  ends on every reachable table, and lists every settled row below the session once.
\<close>

definition find_by_request :: "lineage_db \<Rightarrow> string \<Rightarrow> string \<Rightarrow> lineage_row option" where
  "find_by_request db parent_id request_id = row_by_request (ln_rows db) parent_id request_id"

definition settled_kids :: "lineage_row list \<Rightarrow> string \<Rightarrow> lineage_row list" where
  "settled_kids rows p = sort_key lr_id (filter (\<lambda>r. lr_parent r = p \<and> lr_state r \<noteq> Reserved) rows)"

text \<open>\<open>todo\<close> is \<open>frontier[i..]\<close>; \<open>None\<close> is not returning.\<close>

partial_function (option) children_loop ::
  "lineage_row list \<Rightarrow> bool \<Rightarrow> string list \<Rightarrow> lineage_row list \<Rightarrow> lineage_row list option" where
  "children_loop rows recursive todo out =
     (case todo of
        [] \<Rightarrow> Some out
      | p # rest \<Rightarrow>
          (let ks = settled_kids rows p in
           if recursive
           then children_loop rows recursive (rest @ List.map_filter lr_session ks) (out @ ks)
           else Some (out @ ks)))"

definition children :: "lineage_db \<Rightarrow> string \<Rightarrow> bool \<Rightarrow> lineage_row list option" where
  "children db s recursive = children_loop (ln_rows db) recursive [s] []"

section \<open>What is listed\<close>

inductive listed :: "lineage_row list \<Rightarrow> bool \<Rightarrow> string \<Rightarrow> lineage_row \<Rightarrow> bool" for rows recursive a where
  top: "\<lbrakk>r \<in> set rows; lr_state r \<noteq> Reserved; lr_parent r = a\<rbrakk> \<Longrightarrow> listed rows recursive a r"
| under: "\<lbrakk>recursive; listed rows recursive a q; lr_session q = Some (lr_parent r); r \<in> set rows;
      lr_state r \<noteq> Reserved\<rbrakk> \<Longrightarrow> listed rows recursive a r"

lemma listed_row: "listed rows recursive a r \<Longrightarrow> r \<in> set rows \<and> lr_state r \<noteq> Reserved"
  by (induction rule: listed.induct) simp_all

lemma listed_below: "listed rows recursive a r \<Longrightarrow> lr_session r = Some t \<Longrightarrow> spawned_below rows a t"
  by (induction arbitrary: t rule: listed.induct) (blast intro: direct deeper)+

lemma in_settled_kids: "r \<in> set (settled_kids rows p) \<longleftrightarrow> r \<in> set rows \<and> lr_parent r = p \<and> lr_state r \<noteq> Reserved"
  by (auto simp: settled_kids_def)

lemma distinct_expansion: "\<lbrakk>distinct ps; distinct rows\<rbrakk> \<Longrightarrow> distinct (concat (map (settled_kids rows) ps))"
proof (induction ps)
  case (Cons p ps)
  have "set (settled_kids rows p) \<inter> set (concat (map (settled_kids rows) ps)) = {}"
    using Cons.prems(1) by (auto simp: in_settled_kids)
  moreover have "distinct (settled_kids rows p)" using Cons.prems(2) by (simp add: settled_kids_def)
  ultimately show ?case using Cons by simp
qed simp

lemma in_sessions: "t \<in> set (List.map_filter lr_session ks) \<longleftrightarrow> (\<exists>r \<in> set ks. lr_session r = Some t)"
  by (force simp: List.map_filter_def)

lemma distinct_sessions:
  "\<lbrakk>distinct ks; \<And>r q t. \<lbrakk>r \<in> set ks; q \<in> set ks; lr_session r = Some t; lr_session q = Some t\<rbrakk> \<Longrightarrow> r = q\<rbrakk>
    \<Longrightarrow> distinct (List.map_filter lr_session ks)"
proof (induction ks)
  case (Cons k ks)
  have "distinct (List.map_filter lr_session ks)" using Cons by (metis distinct.simps(2) list.set_intros(2))
  moreover have "t \<notin> set (List.map_filter lr_session ks)" if "lr_session k = Some t" for t
    using Cons.prems(1) Cons.prems(2) [of k _ t] that by (auto simp: in_sessions)
  ultimately show ?case by (auto simp: List.map_filter_simps split: option.split)
qed (simp add: List.map_filter_simps)

section \<open>The loop\<close>

text \<open>\<open>done\<close> has been expanded, into \<open>out\<close>; the sessions of \<open>out\<close> have been or will be.\<close>

definition covered ::
  "lineage_row list \<Rightarrow> string \<Rightarrow> string list \<Rightarrow> string list \<Rightarrow> lineage_row list \<Rightarrow> bool" where
  "covered rows a past todo out \<longleftrightarrow> out = concat (map (settled_kids rows) past) \<and> distinct (past @ todo) \<and>
     set (past @ todo) = insert a {t. \<exists>q \<in> set out. lr_session q = Some t} \<and>
     (\<forall>q \<in> set out. listed rows True a q)"

lemma coveredD:
  assumes "covered rows a past todo out"
  shows "out = concat (map (settled_kids rows) past)" "distinct (past @ todo)"
    "set (past @ todo) = insert a {t. \<exists>q \<in> set out. lr_session q = Some t}"
    "\<And>q. q \<in> set out \<Longrightarrow> listed rows True a q"
  using assms unfolding covered_def by blast+

lemma covered_step:
  assumes wf: "tree_wf db" and dist: "distinct (ln_rows db)" and c: "covered (ln_rows db) a past (p # rest) out"
  shows "covered (ln_rows db) a (past @ [p])
           (rest @ List.map_filter lr_session (settled_kids (ln_rows db) p)) (out @ settled_kids (ln_rows db) p)"
proof -
  let ?rows = "ln_rows db"
  let ?ks = "settled_kids ?rows p"
  have o: "out = concat (map (settled_kids ?rows) past)" and d: "distinct (past @ p # rest)"
    and st: "set (past @ p # rest) = insert a {t. \<exists>q \<in> set out. lr_session q = Some t}"
    and li: "\<forall>q \<in> set out. listed ?rows True a q"
    using c by (simp_all add: covered_def)
  have kl: "listed ?rows True a r" if r: "r \<in> set ?ks" for r
  proof -
    have "p = a \<or> (\<exists>q \<in> set out. lr_session q = Some p)" using st by auto
    then show ?thesis using li r by (auto simp: in_settled_kids intro: listed.intros)
  qed
  have new: "t \<notin> set (past @ p # rest)" if r: "r \<in> set ?ks" "lr_session r = Some t" for r t
  proof
    assume "t \<in> set (past @ p # rest)"
    then consider "t = a" | q where "q \<in> set out" "lr_session q = Some t" using st by blast
    then show False
    proof cases
      case 1
      have rr: "r \<in> set ?rows" using r(1) by (simp add: in_settled_kids)
      show False
        using below_deeper [OF wf rr _ _ rr, of a a] listed_below [OF kl [OF r(1)] r(2)] r(2) 1 by simp
    next
      case 2
      have "q \<in> set ?rows" "r \<in> set ?rows" using li 2(1) r(1) listed_row by (auto simp: in_settled_kids)
      then have "q = r" using wf_same_session [OF wf _ _ 2(2) r(2)] by blast
      then have "lr_parent r \<in> set past" using 2(1) by (auto simp: o in_settled_kids)
      then show False using d r(1) by (simp add: in_settled_kids)
    qed
  qed
  have "distinct ?ks" using dist by (simp add: settled_kids_def)
  then have "distinct (List.map_filter lr_session ?ks)"
    by (rule distinct_sessions) (use wf_same_session [OF wf] in \<open>auto simp: in_settled_kids\<close>)
  then have "distinct ((past @ [p]) @ rest @ List.map_filter lr_session ?ks)"
    using d new by (fastforce simp: in_sessions)
  moreover have "set ((past @ [p]) @ rest @ List.map_filter lr_session ?ks) =
      insert a {t. \<exists>q \<in> set (out @ ?ks). lr_session q = Some t}"
  proof -
    have "set ((past @ [p]) @ rest @ List.map_filter lr_session ?ks) =
        set (past @ p # rest) \<union> {t. \<exists>q \<in> set ?ks. lr_session q = Some t}"
      by (auto simp: in_sessions)
    then show ?thesis unfolding st by auto
  qed
  ultimately show ?thesis using o li kl by (auto simp: covered_def)
qed

lemma covered_length:
  assumes "covered rows a past todo out"
  shows "length past \<le> card (insert a (sessions rows))"
proof -
  have li: "\<And>q. q \<in> set out \<Longrightarrow> q \<in> set rows"
    and st: "set (past @ todo) = insert a {t. \<exists>q \<in> set out. lr_session q = Some t}"
    and d: "distinct past"
    subgoal using coveredD(4) [OF assms] listed_row by blast
    subgoal by (rule coveredD(3) [OF assms])
    subgoal using coveredD(2) [OF assms] by simp
    done
  have "set past \<subseteq> insert a {t. \<exists>q \<in> set out. lr_session q = Some t}" using st by auto
  also have "\<dots> \<subseteq> insert a (sessions rows)" using li by (auto simp: sessions_def)
  finally have "card (set past) \<le> card (insert a (sessions rows))"
    by (rule card_mono [rotated]) simp
  then show ?thesis using d by (simp add: distinct_card)
qed

lemma loop_returns:
  assumes wf: "tree_wf db" and dist: "distinct (ln_rows db)"
  shows "\<lbrakk>covered (ln_rows db) a past todo out; card (insert a (sessions (ln_rows db))) - length past = n\<rbrakk>
    \<Longrightarrow> \<exists>out' past'. children_loop (ln_rows db) True todo out = Some out' \<and> covered (ln_rows db) a past' [] out'"
proof (induction n arbitrary: past todo out rule: less_induct)
  case (less n)
  show ?case
  proof (cases todo)
    case Nil
    then show ?thesis using less.prems(1) by (subst children_loop.simps) auto
  next
    case (Cons p rest)
    note step = covered_step [OF wf dist less.prems(1) [unfolded Cons]]
    have "card (insert a (sessions (ln_rows db))) - length (past @ [p]) < n"
      using covered_length [OF step] less.prems(2) by simp
    from less.IH [OF this step refl] show ?thesis
      by (subst children_loop.simps) (simp add: Cons Let_def)
  qed
qed

text \<open>
  C36: On a reachable table the listing of what a session spawned returns, recursive or not, and is
  made of every row under the session whose launch is settled, each once.
\<close>

theorem children_lists_subtree:
  assumes "lineage_reachable sha caps db" "distinct (ln_rows db)"
  shows "\<exists>out. children db a recursive = Some out \<and> distinct out \<and>
    set out = {r. listed (ln_rows db) recursive a r}"
proof (cases recursive)
  case False
  have "listed (ln_rows db) False a r \<longleftrightarrow> r \<in> set (settled_kids (ln_rows db) a)" for r
    by (auto simp: in_settled_kids elim: listed.cases intro: listed.top)
  moreover have "children db a False = Some (settled_kids (ln_rows db) a)"
    by (simp add: children_def children_loop.simps)
  ultimately show ?thesis using assms(2) False by (simp add: settled_kids_def set_eq_iff)
next
  case True
  let ?rows = "ln_rows db"
  have wf: "tree_wf db" using assms(1) by (rule reachable_wf)
  have "covered ?rows a [] [a] []" by (simp add: covered_def)
  from loop_returns [OF wf assms(2) this refl] obtain out past
    where run: "children db a True = Some out" and c: "covered ?rows a past [] out"
    by (auto simp: children_def)
  have o: "out = concat (map (settled_kids ?rows) past)" and d: "distinct past"
    and st: "set past = insert a {t. \<exists>q \<in> set out. lr_session q = Some t}"
    and li: "\<And>q. q \<in> set out \<Longrightarrow> listed ?rows True a q"
    using coveredD [OF c] by simp_all
  have out: "r \<in> set out \<longleftrightarrow> r \<in> set ?rows \<and> lr_state r \<noteq> Reserved \<and> lr_parent r \<in> set past" for r
    unfolding o by (auto simp: in_settled_kids)
  have all: "r \<in> set out" if "listed ?rows True a r" for r
    using that
  proof induction
    case (top r)
    moreover have "a \<in> set past" unfolding st by simp
    ultimately show ?case unfolding out by simp
  next
    case (under q r)
    then have "lr_parent r \<in> set past" unfolding st by blast
    then show ?case using under unfolding out by blast
  qed
  have "set out = {r. listed ?rows True a r}"
    by (rule set_eqI, unfold mem_Collect_eq, rule iffI) (erule li, erule all)
  moreover have "distinct out" unfolding o by (rule distinct_expansion [OF d assms(2)])
  ultimately show ?thesis using run by (intro exI [where x = out] conjI) (simp_all only: True)
qed

theorem children_lists_subtree_witness:
  "\<exists>out. children sample_tree ''a'' True = Some out \<and> distinct out \<and>
    set out = {r. listed (ln_rows sample_tree) True ''a'' r}"
  by (rule children_lists_subtree [OF sample_tree_reachable]) (simp add: sample_tree_rows sample_rows)

end
