(* ===== verification/Sql_Rows.thy ===== *)
theory Sql_Rows
  imports Prelude
begin

text \<open>
  The statements the stores of the program run on their tables, over a table as the list of its
  rows: \<open>UPDATE\<close> and \<open>DELETE\<close> with a condition, and \<open>UPDATE OR REPLACE\<close>, which first drops the
  rows the changed ones would clash with.
\<close>

definition sql_update :: "('r \<Rightarrow> bool) \<Rightarrow> ('r \<Rightarrow> 'r) \<Rightarrow> 'r list \<Rightarrow> 'r list" where
  "sql_update hit upd rows = map (\<lambda>r. if hit r then upd r else r) rows"

definition sql_delete :: "('r \<Rightarrow> bool) \<Rightarrow> 'r list \<Rightarrow> 'r list" where
  "sql_delete hit rows = filter (\<lambda>r. \<not> hit r) rows"

definition sql_count :: "('r \<Rightarrow> bool) \<Rightarrow> 'r list \<Rightarrow> nat" where
  "sql_count hit rows = length (filter hit rows)"

definition sql_replace ::
  "('r \<Rightarrow> 'r \<Rightarrow> bool) \<Rightarrow> ('r \<Rightarrow> bool) \<Rightarrow> ('r \<Rightarrow> 'r) \<Rightarrow> 'r list \<Rightarrow> 'r list" where
  "sql_replace clash hit upd rows =
     sql_update hit upd (filter (\<lambda>r. hit r \<or> \<not> list_ex (\<lambda>q. hit q \<and> clash (upd q) r) rows) rows)"

lemma sql_update_simps [simp]:
  "sql_update hit upd [] = []"
  "sql_update hit upd (r # rows) = (if hit r then upd r else r) # sql_update hit upd rows"
  "sql_update hit upd (rows @ rows') = sql_update hit upd rows @ sql_update hit upd rows'"
  by (simp_all add: sql_update_def)

lemma in_sql_update:
  "r' \<in> set (sql_update hit upd rows) \<longleftrightarrow> (\<exists>r \<in> set rows. r' = (if hit r then upd r else r))"
  by (auto simp: sql_update_def)

lemma sql_updateE:
  assumes "r' \<in> set (sql_update hit upd rows)"
  obtains r where "r \<in> set rows" "r' = (if hit r then upd r else r)"
  using assms by (auto simp: in_sql_update)

lemma map_sql_update:
  "(\<And>r. hit r \<Longrightarrow> f (upd r) = f r) \<Longrightarrow> map f (sql_update hit upd rows) = map f rows"
  by (simp add: sql_update_def)

lemma in_sql_delete [simp]: "r \<in> set (sql_delete hit rows) \<longleftrightarrow> r \<in> set rows \<and> \<not> hit r"
  by (simp add: sql_delete_def)

lemma sql_count_0: "sql_count hit rows = 0 \<longleftrightarrow> (\<forall>r \<in> set rows. \<not> hit r)"
  by (simp add: sql_count_def filter_empty_conv)

lemma sql_replaceE:
  assumes "r' \<in> set (sql_replace clash hit upd rows)"
  obtains r where "r \<in> set rows" "r' = (if hit r then upd r else r)"
    "hit r \<or> (\<forall>q \<in> set rows. hit q \<longrightarrow> \<not> clash (upd q) r)"
  using assms by (auto simp: sql_replace_def in_sql_update list_ex_iff)

lemma in_sql_replace_other:
  assumes "\<not> hit r" "\<And>q. hit q \<Longrightarrow> \<not> clash (upd q) r" "\<And>q. hit q \<Longrightarrow> upd q \<noteq> r"
  shows "r \<in> set (sql_replace clash hit upd rows) \<longleftrightarrow> r \<in> set rows"
proof
  assume "r \<in> set (sql_replace clash hit upd rows)"
  then obtain q where "q \<in> set rows" "r = (if hit q then upd q else q)" by (rule sql_replaceE)
  then show "r \<in> set rows" using assms(3) by (cases "hit q") auto
next
  assume "r \<in> set rows"
  then have "r \<in> set (filter (\<lambda>r. hit r \<or> \<not> list_ex (\<lambda>q. hit q \<and> clash (upd q) r) rows) rows)"
    using assms(2) by (auto simp: list_ex_iff)
  then show "r \<in> set (sql_replace clash hit upd rows)"
    using assms(1) unfolding sql_replace_def in_sql_update by force
qed

end
