(* ===== verification/Outbox.thy ===== *)
theory Outbox
  imports Sql_Rows Envelope "HOL-Library.Product_Lexorder" "HOL-Library.List_Lexorder"
begin

text \<open>
  The child events waiting to reach their parent (\<open>crates/agents/src/outbox.rs\<close>), on the table
  \<open>agent_event_outbox\<close> of \<open>crates/storage/migrations/V032__agent_lineage.sql\<close>.  The table is the
  list of its rows in the order of their ids.  The digest and the shaping of its first bytes
  into a uuid are parameters; instants are nanoseconds since an origin, compared as the UTC
  texts they are stored as compare.
\<close>

section \<open>Rows\<close>

definition BACKOFF_START_S :: int where "BACKOFF_START_S = 1"
definition BACKOFF_CAP_S :: int where "BACKOFF_CAP_S = 60"

datatype outbox_state =
  ObPending | ObClaimed | ObSent | ObAccepted | ObDelivered | ObUnconfirmed | ObUndeliverable

type_synonym uuid = bytes

record outbox_row =
  ob_id :: nat
  ob_parent :: utext
  ob_child :: utext
  ob_kind :: child_event_kind
  ob_edge :: utext
  ob_event :: child_event
  ob_state :: outbox_state
  ob_key :: "uuid option"
  ob_claimed_by :: "utext option"
  ob_claimed_at :: "int option"
  ob_attempts :: nat
  ob_next :: "int option"
  ob_created_at :: int
  ob_accepted_at :: "int option"
  ob_delivered_at :: "int option"

record outbox_batch =
  bt_parent :: utext
  bt_key :: uuid
  bt_rows :: "outbox_row list"

definition batch_events :: "outbox_batch \<Rightarrow> child_event list" where
  "batch_events b = map ob_event (bt_rows b)"

section \<open>Keys\<close>

fun le_bytes :: "nat \<Rightarrow> nat \<Rightarrow> bytes" where
  "le_bytes 0 v = []"
| "le_bytes (Suc k) v = word_of_nat (v mod 256) # le_bytes k (v div 256)"

definition outbox_tag :: bytes where
  "outbox_tag = map (\<lambda>c. word_of_nat (of_char c)) ''oximux-outbox''"

definition key_input :: "(nat \<times> nat) list \<Rightarrow> bytes" where
  "key_input rows =
     outbox_tag @ concat (map (\<lambda>(i, attempts). le_bytes 8 i @ le_bytes 4 attempts) (sort rows))"

definition batch_key :: "(bytes \<Rightarrow> bytes) \<Rightarrow> (bytes \<Rightarrow> uuid) \<Rightarrow> (nat \<times> nat) list \<Rightarrow> uuid" where
  "batch_key sha from_random_bytes rows =
     from_random_bytes (take 16 (sha (key_input rows)))"

definition backoff_s :: "nat \<Rightarrow> int" where
  "backoff_s attempt = min (push_bit (min (attempt - 1) 16) BACKOFF_START_S) BACKOFF_CAP_S"

section \<open>Operations\<close>

definition same_edge :: "outbox_row \<Rightarrow> outbox_row \<Rightarrow> bool" where
  "same_edge r q \<longleftrightarrow> ob_parent r = ob_parent q \<and> ob_child r = ob_child q \<and> ob_kind r = ob_kind q \<and>
     ob_edge r = ob_edge q"

text \<open>A rowid is one above the largest in the table.\<close>

definition next_rowid :: "outbox_row list \<Rightarrow> nat" where
  "next_rowid rows = (if rows = [] then 1 else Max (set (map ob_id rows)) + 1)"

definition event_row :: "nat \<Rightarrow> utext \<Rightarrow> child_event \<Rightarrow> utext \<Rightarrow> int \<Rightarrow> outbox_row" where
  "event_row i parent event edge now =
     \<lparr>ob_id = i, ob_parent = parent, ob_child = ev_child event, ob_kind = ev_kind event,
      ob_edge = edge, ob_event = event, ob_state = ObPending, ob_key = None, ob_claimed_by = None,
      ob_claimed_at = None, ob_attempts = 0, ob_next = None, ob_created_at = now,
      ob_accepted_at = None, ob_delivered_at = None\<rparr>"

definition outbox_push ::
  "utext \<Rightarrow> child_event \<Rightarrow> utext \<Rightarrow> int \<Rightarrow> outbox_row list \<Rightarrow> bool \<times> outbox_row list" where
  "outbox_push parent event edge now rows =
     (let r = event_row (next_rowid rows) parent event edge now in
      if list_ex (same_edge r) rows then (False, rows) else (True, rows @ [r]))"

definition is_due :: "int \<Rightarrow> outbox_row \<Rightarrow> bool" where
  "is_due now r \<longleftrightarrow> ob_state r = ObPending \<and> (case ob_next r of None \<Rightarrow> True | Some t \<Rightarrow> t \<le> now)"

definition claim_row :: "uuid \<Rightarrow> utext \<Rightarrow> int \<Rightarrow> outbox_row \<Rightarrow> outbox_row" where
  "claim_row key instance now r =
     r\<lparr>ob_state := ObClaimed, ob_claimed_by := Some instance, ob_claimed_at := Some now, ob_key := Some key\<rparr>"

definition claim ::
  "(bytes \<Rightarrow> bytes) \<Rightarrow> (bytes \<Rightarrow> uuid) \<Rightarrow> utext \<Rightarrow> utext \<Rightarrow> int \<Rightarrow> outbox_row list \<Rightarrow>
   outbox_batch option \<times> outbox_row list" where
  "claim sha uu parent instance now table =
     (let rows = filter (\<lambda>r. ob_parent r = parent \<and> is_due now r) table in
      if rows = [] then (None, table)
      else
        (let key = batch_key sha uu (map (\<lambda>r. (ob_id r, ob_attempts r)) rows) in
         (Some \<lparr>bt_parent = parent, bt_key = key,
                bt_rows = map (\<lambda>r. r\<lparr>ob_state := ObClaimed, ob_key := Some key\<rparr>) rows\<rparr>,
          sql_update (\<lambda>r. ob_id r \<in> set (map ob_id rows)) (claim_row key instance now) table)))"

definition reopened :: "outbox_row \<Rightarrow> outbox_row" where
  "reopened r = r\<lparr>ob_state := ObPending, ob_claimed_by := None, ob_claimed_at := None, ob_key := None,
     ob_attempts := ob_attempts r + 1\<rparr>"

definition keyed :: "uuid \<Rightarrow> outbox_state list \<Rightarrow> outbox_row \<Rightarrow> bool" where
  "keyed key from r \<longleftrightarrow> ob_key r = Some key \<and> ob_state r \<in> set from"

definition release_with_backoff :: "uuid \<Rightarrow> int \<Rightarrow> outbox_row list \<Rightarrow> outbox_row list" where
  "release_with_backoff key now rows =
     (let attempts = foldl max 0 (map ob_attempts (filter (keyed key [ObClaimed]) rows));
          next_at = now + backoff_s (attempts + 1) * 10 ^ 9
      in sql_update (keyed key [ObClaimed]) (\<lambda>r. reopened r\<lparr>ob_next := Some next_at\<rparr>) rows)"

definition reopen :: "uuid \<Rightarrow> outbox_state list \<Rightarrow> outbox_row list \<Rightarrow> nat \<times> outbox_row list" where
  "reopen key from rows = (sql_count (keyed key from) rows, sql_update (keyed key from) reopened rows)"

definition unclaim :: "uuid \<Rightarrow> outbox_row list \<Rightarrow> nat \<times> outbox_row list" where
  "unclaim key rows = reopen key [ObClaimed, ObSent] rows"

definition rearm :: "uuid \<Rightarrow> outbox_row list \<Rightarrow> nat \<times> outbox_row list" where
  "rearm key rows = reopen key [ObAccepted] rows"

definition transition ::
  "uuid \<Rightarrow> outbox_state list \<Rightarrow> (outbox_row \<Rightarrow> outbox_row) \<Rightarrow> outbox_row list \<Rightarrow> nat \<times> outbox_row list" where
  "transition key from upd rows = (sql_count (keyed key from) rows, sql_update (keyed key from) upd rows)"

definition mark_sent :: "uuid \<Rightarrow> outbox_row list \<Rightarrow> nat \<times> outbox_row list" where
  "mark_sent key rows = transition key [ObClaimed] (\<lambda>r. r\<lparr>ob_state := ObSent\<rparr>) rows"

definition mark_accepted :: "uuid \<Rightarrow> int \<Rightarrow> outbox_row list \<Rightarrow> nat \<times> outbox_row list" where
  "mark_accepted key now rows =
     transition key [ObClaimed, ObSent, ObUnconfirmed]
       (\<lambda>r. r\<lparr>ob_state := ObAccepted, ob_accepted_at := Some now\<rparr>) rows"

definition mark_delivered :: "uuid \<Rightarrow> int \<Rightarrow> outbox_row list \<Rightarrow> nat \<times> outbox_row list" where
  "mark_delivered key now rows =
     transition key [ObClaimed, ObSent, ObAccepted, ObUnconfirmed]
       (\<lambda>r. r\<lparr>ob_state := ObDelivered, ob_delivered_at := Some now\<rparr>) rows"

definition mark_unconfirmed :: "uuid \<Rightarrow> outbox_row list \<Rightarrow> nat \<times> outbox_row list" where
  "mark_unconfirmed key rows = transition key [ObSent] (\<lambda>r. r\<lparr>ob_state := ObUnconfirmed\<rparr>) rows"

definition release_parent :: "utext \<Rightarrow> outbox_row list \<Rightarrow> outbox_row list" where
  "release_parent parent rows =
     sql_update (\<lambda>r. ob_parent r = parent \<and> ob_state r = ObSent) (\<lambda>r. r\<lparr>ob_state := ObUnconfirmed\<rparr>)
       (sql_update (\<lambda>r. ob_parent r = parent \<and> ob_state r = ObClaimed) reopened rows)"

definition settle_undeliverable :: "utext \<Rightarrow> outbox_row list \<Rightarrow> nat \<times> outbox_row list" where
  "settle_undeliverable parent rows =
     (let hit = (\<lambda>r. ob_parent r = parent \<and> ob_state r \<in> {ObPending, ObClaimed}) in
      (sql_count hit rows, sql_update hit (\<lambda>r. r\<lparr>ob_state := ObUndeliverable\<rparr>) rows))"

definition outbox_take_over :: "utext \<Rightarrow> outbox_row list \<Rightarrow> outbox_row list" where
  "outbox_take_over instance rows =
     sql_update (\<lambda>r. ob_state r = ObSent \<and> ob_claimed_by r \<noteq> Some instance) (\<lambda>r. r\<lparr>ob_state := ObUnconfirmed\<rparr>)
       (sql_update (\<lambda>r. ob_state r = ObClaimed \<and> ob_claimed_by r \<noteq> Some instance)
          (\<lambda>r. r\<lparr>ob_state := ObPending, ob_claimed_by := None, ob_claimed_at := None, ob_key := None\<rparr>) rows)"

definition pending_count :: "utext \<Rightarrow> outbox_row list \<Rightarrow> nat" where
  "pending_count parent rows = sql_count (\<lambda>r. ob_parent r = parent \<and> ob_state r \<in> {ObPending, ObClaimed}) rows"

definition parents_with_pending :: "int \<Rightarrow> outbox_row list \<Rightarrow> utext list" where
  "parents_with_pending now rows = sort (remdups (map ob_parent (filter (is_due now) rows)))"

definition parents_in_flight :: "outbox_row list \<Rightarrow> utext list" where
  "parents_in_flight rows =
     sort (remdups (map ob_parent
       (filter (\<lambda>r. ob_state r \<in> {ObClaimed, ObSent, ObAccepted, ObUnconfirmed}) rows)))"

definition has_edge :: "utext \<Rightarrow> utext \<Rightarrow> child_event_kind \<Rightarrow> utext \<Rightarrow> outbox_row list \<Rightarrow> bool" where
  "has_edge parent child kind edge rows \<longleftrightarrow>
     sql_count (\<lambda>r. ob_parent r = parent \<and> ob_child r = child \<and> ob_kind r = kind \<and> ob_edge r = edge) rows > 0"

definition rows_for :: "utext \<Rightarrow> outbox_row list \<Rightarrow> outbox_row list" where
  "rows_for parent rows = filter (\<lambda>r. ob_parent r = parent) rows"

text \<open>The statements of \<open>LineageStore::rekey\<close> on this table.\<close>

definition outbox_rekey :: "utext \<Rightarrow> utext \<Rightarrow> outbox_row list \<Rightarrow> outbox_row list" where
  "outbox_rekey old new rows =
     sql_replace same_edge (\<lambda>r. ob_child r = old)
       (\<lambda>r. r\<lparr>ob_child := new, ob_event := (ob_event r)\<lparr>ev_child := new\<rparr>\<rparr>)
       (sql_replace same_edge (\<lambda>r. ob_parent r = old) (\<lambda>r. r\<lparr>ob_parent := new\<rparr>) rows)"

section \<open>Runs\<close>

datatype outbox_op =
    OpPush utext child_event utext int
  | OpClaim utext utext int
  | OpBackoff uuid int
  | OpUnclaim uuid
  | OpRearm uuid
  | OpSent uuid
  | OpAccepted uuid int
  | OpDelivered uuid int
  | OpUnconfirmed uuid
  | OpReleaseParent utext
  | OpUndeliverable utext
  | OpTakeOver utext

fun outbox_apply ::
  "(bytes \<Rightarrow> bytes) \<Rightarrow> (bytes \<Rightarrow> uuid) \<Rightarrow> outbox_op \<Rightarrow> outbox_row list \<Rightarrow> outbox_row list" where
  "outbox_apply sha uu (OpPush parent event edge now) rows = snd (outbox_push parent event edge now rows)"
| "outbox_apply sha uu (OpClaim parent instance now) rows = snd (claim sha uu parent instance now rows)"
| "outbox_apply sha uu (OpBackoff key now) rows = release_with_backoff key now rows"
| "outbox_apply sha uu (OpUnclaim key) rows = snd (unclaim key rows)"
| "outbox_apply sha uu (OpRearm key) rows = snd (rearm key rows)"
| "outbox_apply sha uu (OpSent key) rows = snd (mark_sent key rows)"
| "outbox_apply sha uu (OpAccepted key now) rows = snd (mark_accepted key now rows)"
| "outbox_apply sha uu (OpDelivered key now) rows = snd (mark_delivered key now rows)"
| "outbox_apply sha uu (OpUnconfirmed key) rows = snd (mark_unconfirmed key rows)"
| "outbox_apply sha uu (OpReleaseParent parent) rows = release_parent parent rows"
| "outbox_apply sha uu (OpUndeliverable parent) rows = snd (settle_undeliverable parent rows)"
| "outbox_apply sha uu (OpTakeOver instance) rows = outbox_take_over instance rows"

text \<open>The keys an operation proves written, and the rows it hands out under one key.\<close>

fun proves_written :: "outbox_op \<Rightarrow> outbox_row list \<Rightarrow> uuid list" where
  "proves_written (OpSent key) rows = (if fst (mark_sent key rows) > 0 then [key] else [])"
| "proves_written (OpAccepted key now) rows = (if fst (mark_accepted key now rows) > 0 then [key] else [])"
| "proves_written (OpDelivered key now) rows = (if fst (mark_delivered key now rows) > 0 then [key] else [])"
| "proves_written _ rows = []"

definition claim_pairs :: "utext \<Rightarrow> int \<Rightarrow> outbox_row list \<Rightarrow> (nat \<times> nat) list" where
  "claim_pairs parent now rows =
     map (\<lambda>r. (ob_id r, ob_attempts r)) (filter (\<lambda>r. ob_parent r = parent \<and> is_due now r) rows)"

fun hands_out :: "outbox_op \<Rightarrow> outbox_row list \<Rightarrow> (nat \<times> nat) list list" where
  "hands_out (OpClaim parent instance now) rows =
     (if claim_pairs parent now rows = [] then [] else [claim_pairs parent now rows])"
| "hands_out _ rows = []"

text \<open>The table, the keys written and the batches handed out after a run.\<close>

fun outbox_run ::
  "(bytes \<Rightarrow> bytes) \<Rightarrow> (bytes \<Rightarrow> uuid) \<Rightarrow> outbox_op list \<Rightarrow>
   outbox_row list \<times> uuid list \<times> (nat \<times> nat) list list \<Rightarrow>
   outbox_row list \<times> uuid list \<times> (nat \<times> nat) list list" where
  "outbox_run sha uu [] st = st"
| "outbox_run sha uu (op # ops) (rows, written, handed) =
     outbox_run sha uu ops
       (outbox_apply sha uu op rows, proves_written op rows @ written, hands_out op rows @ handed)"

end
