(* ===== verification/Send_Receipts.thy ===== *)
theory Send_Receipts
  imports Sql_Rows
begin

text \<open>
  What became of each send (\<open>crates/agents/src/send_receipts.rs\<close>), on the table
  \<open>send_receipts\<close> of \<open>crates/storage/migrations/V033__send_receipts.sql\<close>.  The digest is a
  parameter; instants are nanoseconds.
\<close>

definition KEEP_HOURS :: int where "KEEP_HOURS = 7 * 24"

definition hours :: "int \<Rightarrow> int" where
  "hours h = h * 3600 * 10 ^ 9"

datatype receipt_state = RcPending | RcAccepted | RcRejected | RcUnknown

datatype key_kind = KindGate | KindV2

fun key_tag :: "key_kind \<Rightarrow> string" where
  "key_tag KindGate = ''gate''"
| "key_tag KindV2 = ''v2''"

definition hex_char :: "nat \<Rightarrow> char" where
  "hex_char d = ''0123456789abcdef'' ! d"

definition hex_text :: "bytes \<Rightarrow> string" where
  "hex_text bs = concat (map (\<lambda>b. [hex_char (unat b div 16), hex_char (unat b mod 16)]) bs)"

definition key_hash :: "(string \<Rightarrow> bytes) \<Rightarrow> key_kind \<Rightarrow> string \<Rightarrow> string" where
  "key_hash sha kind key = hex_text (sha (key_tag kind @ '':'' @ key))"

record receipt =
  rc_session :: string
  rc_hash :: string
  rc_state :: receipt_state
  rc_instance :: string
  rc_created :: int
  rc_updated :: int

definition is_receipt :: "string \<Rightarrow> string \<Rightarrow> receipt \<Rightarrow> bool" where
  "is_receipt session hash r \<longleftrightarrow> rc_session r = session \<and> rc_hash r = hash"

definition receipt_of :: "string \<Rightarrow> string \<Rightarrow> receipt list \<Rightarrow> receipt_state option" where
  "receipt_of session hash rows = map_option rc_state (List.find (is_receipt session hash) rows)"

definition reserve_receipt ::
  "string \<Rightarrow> string \<Rightarrow> string \<Rightarrow> int \<Rightarrow> receipt list \<Rightarrow> receipt_state option \<times> receipt list" where
  "reserve_receipt session hash inst now rows =
     (if list_ex (is_receipt session hash) rows then (receipt_of session hash rows, rows)
      else (None, rows @ [\<lparr>rc_session = session, rc_hash = hash, rc_state = RcPending, rc_instance = inst,
                           rc_created = now, rc_updated = now\<rparr>]))"

definition settle_receipt ::
  "string \<Rightarrow> string \<Rightarrow> receipt_state \<Rightarrow> string \<Rightarrow> int \<Rightarrow> receipt list \<Rightarrow> receipt list" where
  "settle_receipt session hash state inst now rows =
     (if list_ex (is_receipt session hash) rows
      then sql_update (\<lambda>r. is_receipt session hash r \<and>
             (rc_state r \<in> {RcPending, RcUnknown} \<or> state = RcRejected \<and> rc_state r = RcAccepted))
             (\<lambda>r. r\<lparr>rc_state := state, rc_updated := now\<rparr>) rows
      else rows @ [\<lparr>rc_session = session, rc_hash = hash, rc_state = state, rc_instance = inst,
                    rc_created = now, rc_updated = now\<rparr>])"

definition resend :: "string \<Rightarrow> string \<Rightarrow> int \<Rightarrow> receipt list \<Rightarrow> receipt list" where
  "resend session hash now rows =
     sql_update (\<lambda>r. is_receipt session hash r \<and> rc_state r = RcRejected)
       (\<lambda>r. r\<lparr>rc_state := RcPending, rc_updated := now\<rparr>) rows"

definition forget_pending :: "string \<Rightarrow> string \<Rightarrow> receipt list \<Rightarrow> receipt list" where
  "forget_pending session hash rows =
     sql_delete (\<lambda>r. is_receipt session hash r \<and> rc_state r = RcPending) rows"

definition receipts_take_over :: "string \<Rightarrow> int \<Rightarrow> receipt list \<Rightarrow> nat \<times> receipt list" where
  "receipts_take_over inst now rows =
     (let hit = (\<lambda>r. rc_state r = RcPending \<and> rc_instance r \<noteq> inst) in
      (sql_count hit rows, sql_update hit (\<lambda>r. r\<lparr>rc_state := RcUnknown, rc_updated := now\<rparr>) rows))"

definition receipts_prune :: "int \<Rightarrow> receipt list \<Rightarrow> nat \<times> receipt list" where
  "receipts_prune now rows =
     (let hit = (\<lambda>r. rc_created r < now - hours KEEP_HOURS) in (sql_count hit rows, sql_delete hit rows))"

text \<open>The statement of \<open>LineageStore::rekey\<close> on this table.\<close>

definition receipts_rekey :: "string \<Rightarrow> string \<Rightarrow> receipt list \<Rightarrow> receipt list" where
  "receipts_rekey old new rows =
     sql_replace (\<lambda>r q. rc_session r = rc_session q \<and> rc_hash r = rc_hash q) (\<lambda>r. rc_session r = old)
       (\<lambda>r. r\<lparr>rc_session := new\<rparr>) rows"

section \<open>One receipt\<close>

lemma receipt_of_Nil [simp]: "receipt_of s h [] = None"
  by (simp add: receipt_of_def)

lemma receipt_of_Cons [simp]:
  "receipt_of s h (r # rows) = (if is_receipt s h r then Some (rc_state r) else receipt_of s h rows)"
  by (simp add: receipt_of_def)

lemma receipt_of_append:
  "receipt_of s h (rows @ [r]) =
     (case receipt_of s h rows of None \<Rightarrow> if is_receipt s h r then Some (rc_state r) else None | Some x \<Rightarrow> Some x)"
  by (induction rows) auto

lemma receipt_of_None: "receipt_of s h rows = None \<longleftrightarrow> \<not> list_ex (is_receipt s h) rows"
  by (induction rows) auto

text \<open>An update that leaves the keys alone acts on the one receipt.\<close>

lemma receipt_of_update:
  assumes "\<And>r. is_receipt s h (upd r) = is_receipt s h r"
    and "\<And>r. \<lbrakk>is_receipt s h r; hit r\<rbrakk> \<Longrightarrow> rc_state (upd r) = f (rc_state r)"
    and "\<And>r. \<lbrakk>is_receipt s h r; \<not> hit r\<rbrakk> \<Longrightarrow> rc_state r = f (rc_state r)"
  shows "receipt_of s h (sql_update hit upd rows) = map_option f (receipt_of s h rows)"
  using assms by (induction rows) auto

definition settled_by :: "receipt_state \<Rightarrow> receipt_state \<Rightarrow> receipt_state" where
  "settled_by new old =
     (if old \<in> {RcPending, RcUnknown} \<or> new = RcRejected \<and> old = RcAccepted then new else old)"

lemma receipt_of_settle:
  "receipt_of s h (settle_receipt s h state inst now rows) =
     Some (case receipt_of s h rows of None \<Rightarrow> state | Some old \<Rightarrow> settled_by state old)"
proof (cases "receipt_of s h rows")
  case None
  then have "\<not> list_ex (is_receipt s h) rows" by (simp add: receipt_of_None)
  with None show ?thesis by (simp add: settle_receipt_def receipt_of_append) (simp add: is_receipt_def)
next
  case (Some old)
  then have known: "list_ex (is_receipt s h) rows" using receipt_of_None [of s h rows] by simp
  have "receipt_of s h (settle_receipt s h state inst now rows) = map_option (settled_by state) (receipt_of s h rows)"
    unfolding settle_receipt_def if_P [OF known]
    by (rule receipt_of_update) (auto simp: is_receipt_def settled_by_def)
  then show ?thesis by (simp add: Some)
qed

lemma is_receipt_other: "\<lbrakk>is_receipt s h r; is_receipt s' h' r\<rbrakk> \<Longrightarrow> s' = s \<and> h' = h"
  by (simp add: is_receipt_def)

lemma receipt_of_settle_other:
  "(s', h') \<noteq> (s, h) \<Longrightarrow> receipt_of s h (settle_receipt s' h' state inst now rows) = receipt_of s h rows"
proof (cases "list_ex (is_receipt s' h') rows")
  case True
  assume other: "(s', h') \<noteq> (s, h)"
  have "receipt_of s h (settle_receipt s' h' state inst now rows) = map_option id (receipt_of s h rows)"
    unfolding settle_receipt_def if_P [OF True]
    by (rule receipt_of_update) (use other in \<open>auto simp: is_receipt_def\<close>)
  then show ?thesis by (simp add: option.map_id)
next
  case False
  assume "(s', h') \<noteq> (s, h)"
  then show ?thesis using False
    by (auto simp: settle_receipt_def receipt_of_append is_receipt_def split: option.splits)
qed

text \<open>The proofs for a send settle it the same in any order: once it was reserved, after any
  sequence of proofs it is rejected when one of them was a rejection, and accepted otherwise.\<close>

theorem proofs_settle_in_any_order:
  assumes "receipt_of s h rows \<in> {Some RcPending, Some RcUnknown}" and "proofs \<noteq> []"
    and "\<forall>p \<in> set proofs. fst p \<in> {RcAccepted, RcRejected}"
  shows "receipt_of s h (fold (\<lambda>(state, inst, now). settle_receipt s h state inst now) proofs rows) =
    Some (if RcRejected \<in> fst ` set proofs then RcRejected else RcAccepted)"
proof -
  have settled: "receipt_of s h (fold (\<lambda>(state, inst, now). settle_receipt s h state inst now) ps rows) =
      Some (if RcRejected \<in> fst ` set ps \<or> old = RcRejected then RcRejected else RcAccepted)"
    if "receipt_of s h rows = Some old" "old \<in> {RcAccepted, RcRejected}" "\<forall>p \<in> set ps. fst p \<in> {RcAccepted, RcRejected}"
    for ps rows old
    using that
  proof (induction ps arbitrary: rows old)
    case (Cons p ps)
    obtain state inst now where p: "p = (state, inst, now)" by (cases p)
    have "receipt_of s h (settle_receipt s h state inst now rows) = Some (settled_by state old)"
      using Cons.prems(1) by (simp add: receipt_of_settle)
    then show ?case
      using Cons.IH [of "settle_receipt s h state inst now rows" "settled_by state old"] Cons.prems
      by (auto simp: p settled_by_def)
  qed auto
  obtain p ps where p: "proofs = p # ps" using assms(2) by (cases proofs) auto
  obtain state inst now where q: "p = (state, inst, now)" by (cases p)
  have "receipt_of s h (settle_receipt s h state inst now rows) = Some state"
    using assms(1) by (auto simp: receipt_of_settle settled_by_def)
  then show ?thesis
    using settled [of "settle_receipt s h state inst now rows" state ps] assms(3) by (auto simp: p q)
qed

theorem proofs_settle_in_any_order_witness:
  "receipt_of ''s'' ''h'' (fold (\<lambda>(state, inst, now). settle_receipt ''s'' ''h'' state inst now)
     [(RcRejected, ''i'', 1), (RcAccepted, ''i'', 2)] (snd (reserve_receipt ''s'' ''h'' ''i'' 0 []))) = Some RcRejected"
  using proofs_settle_in_any_order [of "''s''" "''h''" "snd (reserve_receipt ''s'' ''h'' ''i'' 0 [])"
      "[(RcRejected, ''i'', 1), (RcAccepted, ''i'', 2)]"]
  by (simp add: reserve_receipt_def is_receipt_def)

section \<open>Never twice\<close>

datatype receipt_op =
    RcReserve string string string int
  | RcSettle string string receipt_state string int
  | RcResend string string int
  | RcForget string string
  | RcTakeOver string int

fun receipt_apply :: "receipt_op \<Rightarrow> receipt list \<Rightarrow> receipt list" where
  "receipt_apply (RcReserve s h inst now) rows = snd (reserve_receipt s h inst now rows)"
| "receipt_apply (RcSettle s h state inst now) rows = settle_receipt s h state inst now rows"
| "receipt_apply (RcResend s h now) rows = resend s h now rows"
| "receipt_apply (RcForget s h) rows = forget_pending s h rows"
| "receipt_apply (RcTakeOver inst now) rows = snd (receipts_take_over inst now rows)"

lemma resend_as_update:
  "receipt_of s h (resend s' h' now rows) =
     map_option (\<lambda>x. if (s', h') = (s, h) \<and> x = RcRejected then RcPending else x) (receipt_of s h rows)"
  unfolding resend_def by (rule receipt_of_update) (auto simp: is_receipt_def)

lemma take_over_as_update:
  "receipt_of s h rows \<noteq> Some RcPending \<Longrightarrow>
     receipt_of s h (snd (receipts_take_over inst now rows)) = receipt_of s h rows"
  by (induction rows) (auto simp: receipts_take_over_def Let_def is_receipt_def)

lemma forget_keeps_settled:
  "receipt_of s h rows \<notin> {None, Some RcPending} \<Longrightarrow> receipt_of s h (forget_pending s' h' rows) = receipt_of s h rows"
  by (induction rows) (auto simp: forget_pending_def sql_delete_def)

lemma reserve_keeps: "receipt_of s h rows \<noteq> None \<Longrightarrow> receipt_of s h (snd (reserve_receipt s' h' inst now rows)) = receipt_of s h rows"
  by (auto simp: reserve_receipt_def receipt_of_append)

text \<open>C22: A send the agent took, and the provider did not refuse, is never sent again: whatever is
  reserved, settled, resent, forgotten or taken over by another host afterwards, reserving its
  key answers that it was accepted.\<close>

theorem accepted_send_is_never_resent:
  assumes "receipt_of s h rows = Some RcAccepted"
    and "\<forall>inst now. RcSettle s h RcRejected inst now \<notin> set ops"
  shows "reserve_receipt s h inst now (fold receipt_apply ops rows) = (Some RcAccepted, fold receipt_apply ops rows)"
proof -
  have "receipt_of s h (fold receipt_apply ops rows) = Some RcAccepted"
    using assms
  proof (induction ops arbitrary: rows)
    case (Cons op ops)
    have "receipt_of s h (receipt_apply op rows) = Some RcAccepted"
    proof (cases op)
      case (RcSettle s' h' state inst now)
      then show ?thesis using Cons.prems receipt_of_settle_other [of s' h' s h]
        by (cases "(s', h') = (s, h)") (auto simp: receipt_of_settle settled_by_def)
    qed (use Cons.prems reserve_keeps [of s h rows] forget_keeps_settled [of s h rows] take_over_as_update [of s h rows]
        in \<open>auto simp: resend_as_update\<close>)
    then show ?case using Cons by simp
  qed simp
  then show ?thesis using receipt_of_None [of s h "fold receipt_apply ops rows"] by (auto simp: reserve_receipt_def)
qed

theorem accepted_send_is_never_resent_witness:
  "fst (reserve_receipt ''s'' ''h'' ''j'' 9 (fold receipt_apply [RcTakeOver ''j'' 5, RcForget ''s'' ''h'']
     (settle_receipt ''s'' ''h'' RcAccepted ''i'' 1 []))) = Some RcAccepted"
  using accepted_send_is_never_resent [of "''s''" "''h''" "settle_receipt ''s'' ''h'' RcAccepted ''i'' 1 []"
      "[RcTakeOver ''j'' 5, RcForget ''s'' ''h'']" "''j''" 9]
  by (simp add: receipt_of_settle)

section \<open>Keys\<close>

lemma hex_char_inj: "\<lbrakk>hex_char m = hex_char n; m < 16; n < 16\<rbrakk> \<Longrightarrow> m = n"
proof -
  assume h: "hex_char m = hex_char n" and "m < 16" "n < 16"
  have "distinct ''0123456789abcdef''" by simp
  then show "m = n"
    using h \<open>m < 16\<close> \<open>n < 16\<close> nth_eq_iff_index_eq [of "''0123456789abcdef''" m n] by (simp add: hex_char_def)
qed

lemma hex_text_inj: "hex_text xs = hex_text ys \<Longrightarrow> xs = ys"
proof (induction xs arbitrary: ys)
  case Nil
  then show ?case by (cases ys) (simp_all add: hex_text_def)
next
  case (Cons x xs)
  then obtain y ys' where ys: "ys = y # ys'" by (cases ys) (auto simp: hex_text_def)
  have small: "unat x div 16 < 16" "unat y div 16 < 16"
    using unsigned_less [of x, where ?'a = nat] unsigned_less [of y, where ?'a = nat] by auto
  have "unat x div 16 = unat y div 16" "unat x mod 16 = unat y mod 16"
    using Cons.prems small by (auto simp: ys hex_text_def intro: hex_char_inj)
  then have "unat x = unat y" by (metis div_mult_mod_eq)
  then have "x = y" by (simp add: word_unat_eq_iff)
  moreover have "xs = ys'" using Cons.prems Cons.IH [of ys'] by (simp add: ys hex_text_def)
  ultimately show ?case by (simp add: ys)
qed

text \<open>The keys of the two kinds are told apart unless the digest collides.\<close>

lemma key_kinds_differ:
  "inj sha \<Longrightarrow> key_hash sha KindGate k \<noteq> key_hash sha KindV2 k'"
  by (auto simp: key_hash_def dest!: hex_text_inj injD)

end
