(* ===== verification/Turn_Retry.thy ===== *)
theory Turn_Retry
  imports Sql_Rows Envelope
begin

text \<open>
  Automatic retries of failed turns: the class of a failure
  (\<open>crates/agents/src/retry/classify.rs\<close> with \<open>RateLimitInfo\<close> of
  \<open>crates/agent-core/src/thread/event.rs\<close>), the wake time (\<open>retry/mod.rs\<close>), the decision
  (\<open>retry/driver.rs\<close>) and the durable count of attempts (\<open>retry/store.rs\<close>, on the table
  \<open>turn_retries\<close>).  Wall-clock times are unix milliseconds, as integers with the checks of
  \<open>i64\<close> written out; the stored instants are nanoseconds.\<close>

section \<open>Classes\<close>

text \<open>A floating-point number is its 64 bits.\<close>

type_synonym f64 = u64

record rate_limit_info =
  rl_status :: utext
  rl_resets_at :: "int option"
  rl_limit_type :: "utext option"
  rl_utilization :: "f64 option"

definition is_rejected :: "rate_limit_info \<Rightarrow> bool" where
  "is_rejected i \<longleftrightarrow> rl_status i = lit ''rejected''"

definition is_waitable_window :: "rate_limit_info \<Rightarrow> bool" where
  "is_waitable_window i \<longleftrightarrow>
     rl_limit_type i \<in> {Some (lit ''five_hour''), Some (lit ''seven_day''), Some (lit ''seven_day_opus''),
                        Some (lit ''seven_day_sonnet'')}"

datatype retry_class = Overload | Window int | Spend | OtherFailure

fun is_retryable :: "retry_class \<Rightarrow> bool" where
  "is_retryable Overload = True"
| "is_retryable (Window _) = True"
| "is_retryable _ = False"

definition OVERLOAD_STATUSES :: "u16 list" where "OVERLOAD_STATUSES = [429, 503, 529]"

definition classify_failure ::
  "rate_limit_info option \<Rightarrow> (u16 option \<times> utext option) option \<Rightarrow> retry_class" where
  "classify_failure rate_limit turn_failure =
     (let by_status = (case turn_failure of
            Some (Some status, _) \<Rightarrow> if status \<in> set OVERLOAD_STATUSES then Overload else OtherFailure
          | _ \<Rightarrow> OtherFailure)
      in case rate_limit of
           None \<Rightarrow> by_status
         | Some info \<Rightarrow>
             if \<not> is_rejected info then by_status
             else if is_waitable_window info
             then (case rl_resets_at info of Some t \<Rightarrow> Window t | None \<Rightarrow> OtherFailure)
             else if (case rl_limit_type info of None \<Rightarrow> False | Some t \<Rightarrow> contains_text (lit ''overage'') t)
             then Spend else OtherFailure)"

section \<open>Wake times\<close>

definition MAX_ATTEMPTS :: nat where "MAX_ATTEMPTS = 4"
definition OVERLOAD_BASE :: nat where "OVERLOAD_BASE = 30000"
definition WINDOW_GRACE :: nat where "WINDOW_GRACE = 30000"
definition JITTER_SPAN :: nat where "JITTER_SPAN = 120000"

definition in_i64 :: "int \<Rightarrow> bool" where
  "in_i64 x \<longleftrightarrow> - (2 ^ 63) \<le> x \<and> x < 2 ^ 63"

definition i64_checked_add :: "int \<Rightarrow> int \<Rightarrow> int option" where
  "i64_checked_add a b = (if in_i64 (a + b) then Some (a + b) else None)"

definition i64_saturating_sub :: "int \<Rightarrow> int \<Rightarrow> int" where
  "i64_saturating_sub a b = max (- (2 ^ 63)) (min (2 ^ 63 - 1) (a - b))"

text \<open>\<open>as i64\<close>\<close>

definition as_i64 :: "nat \<Rightarrow> int" where
  "as_i64 n = sint (word_of_nat n :: 64 word)"

definition jitter_ms :: "u64 \<Rightarrow> u64 \<Rightarrow> u64" where
  "jitter_ms seed span_ms =
     (if span_ms = 0 then 0
      else
        (let z0 = seed + 0x9E3779B97F4A7C15;
             z1 = xor z0 (drop_bit 30 z0) * 0xBF58476D1CE4E5B9;
             z2 = xor z1 (drop_bit 27 z1) * 0x94D049BB133111EB
         in xor z2 (drop_bit 31 z2) mod span_ms))"

text \<open>The longest automatic wait, in milliseconds; \<open>None\<close> is no limit.\<close>

type_synonym retry_settings = "nat option"

definition default_retry_settings :: retry_settings where
  "default_retry_settings = Some (24 * 60 * 60 * 1000)"

definition retry_at ::
  "retry_class \<Rightarrow> nat \<Rightarrow> int \<Rightarrow> retry_settings \<Rightarrow> u64 \<Rightarrow> int option" where
  "retry_at class attempt now_ms settings seed =
     (if attempt \<ge> MAX_ATTEMPTS \<or> \<not> is_retryable class then None
      else
        (let jitter = jitter_ms seed (word_of_nat JITTER_SPAN);
             wake = (case class of
                 Overload \<Rightarrow>
                   i64_checked_add now_ms
                     (sint (word_of_nat OVERLOAD_BASE * push_bit attempt 1 + jitter :: u64))
               | Window resets_at \<Rightarrow>
                   i64_checked_add (max resets_at now_ms) (sint (word_of_nat WINDOW_GRACE + jitter :: u64))
               | _ \<Rightarrow> None)
         in case wake of
              None \<Rightarrow> None
            | Some wake_ms \<Rightarrow>
                (case settings of
                   Some limit \<Rightarrow>
                     if i64_saturating_sub wake_ms now_ms > as_i64 limit then None else Some wake_ms
                 | None \<Rightarrow> Some wake_ms)))"

section \<open>Decisions\<close>

datatype retry_next = Arm int nat | Exhausted | Never

definition decide :: "retry_class \<Rightarrow> nat \<Rightarrow> int \<Rightarrow> retry_settings \<Rightarrow> u64 \<Rightarrow> retry_next" where
  "decide class attempts now_ms settings seed =
     (if \<not> is_retryable class then Never
      else if attempts \<ge> MAX_ATTEMPTS then Exhausted
      else (case retry_at class attempts now_ms settings seed of
              Some wake_ms \<Rightarrow> Arm wake_ms attempts
            | None \<Rightarrow> Exhausted))"

fun class_text :: "retry_class \<Rightarrow> string" where
  "class_text (Window _) = ''window''"
| "class_text Overload = ''overload''"
| "class_text Spend = ''spend''"
| "class_text OtherFailure = ''other''"

section \<open>The store\<close>

definition RETRY_KEEP_HOURS :: int where "RETRY_KEEP_HOURS = 24"
definition ABANDONED_DAYS :: int where "ABANDONED_DAYS = 7"

datatype resolution = Succeeded | ResExhausted | Cancelled | Superseded

record retry_row =
  tr_session :: string
  tr_key :: string
  tr_class :: string
  tr_reason :: string
  tr_attempts :: nat
  tr_first_failed :: int
  tr_wake :: "int option"
  tr_resolved :: "resolution option"
  tr_resolved_at :: "int option"
  tr_instance :: string

record live_retry =
  lv_turn_key :: string
  lv_class :: string
  lv_reason :: string
  lv_attempts :: nat
  lv_wake :: "int option"

definition is_retry :: "string \<Rightarrow> string \<Rightarrow> retry_row \<Rightarrow> bool" where
  "is_retry session key r \<longleftrightarrow> tr_session r = session \<and> tr_key r = key"

definition is_live :: "string \<Rightarrow> retry_row \<Rightarrow> bool" where
  "is_live session r \<longleftrightarrow> tr_session r = session \<and> tr_resolved r = None"

definition attempts_of :: "string \<Rightarrow> string \<Rightarrow> retry_row list \<Rightarrow> nat" where
  "attempts_of session key rows =
     (case List.find (is_retry session key) rows of None \<Rightarrow> 0 | Some r \<Rightarrow> tr_attempts r)"

definition resolve_row :: "resolution \<Rightarrow> int \<Rightarrow> retry_row \<Rightarrow> retry_row" where
  "resolve_row how now r = r\<lparr>tr_resolved := Some how, tr_resolved_at := Some now, tr_wake := None\<rparr>"

definition rearm_row :: "string \<Rightarrow> string \<Rightarrow> int \<Rightarrow> string \<Rightarrow> int \<Rightarrow> retry_row \<Rightarrow> retry_row" where
  "rearm_row class reason wake inst now r =
     r\<lparr>tr_class := class, tr_reason := reason, tr_wake := Some wake, tr_instance := inst,
       tr_attempts := (if tr_resolved r = Some Cancelled then 0 else tr_attempts r),
       tr_first_failed := (if tr_resolved r = Some Cancelled then now else tr_first_failed r),
       tr_resolved := None, tr_resolved_at := None\<rparr>"

definition arm_retry ::
  "string \<Rightarrow> string \<Rightarrow> string \<Rightarrow> string \<Rightarrow> int \<Rightarrow> string \<Rightarrow> int \<Rightarrow> retry_row list \<Rightarrow> nat \<times> retry_row list" where
  "arm_retry session key class reason wake inst now rows =
     (let rows1 = sql_update (\<lambda>r. is_live session r \<and> tr_key r \<noteq> key) (resolve_row Superseded now) rows;
          rows2 = (if list_ex (is_retry session key) rows1
                   then sql_update (is_retry session key) (rearm_row class reason wake inst now) rows1
                   else rows1 @ [\<lparr>tr_session = session, tr_key = key, tr_class = class, tr_reason = reason,
                                  tr_attempts = 0, tr_first_failed = now, tr_wake = Some wake,
                                  tr_resolved = None, tr_resolved_at = None, tr_instance = inst\<rparr>])
      in (attempts_of session key rows2, rows2))"

definition fired :: "string \<Rightarrow> string \<Rightarrow> retry_row list \<Rightarrow> nat \<times> retry_row list" where
  "fired session key rows =
     (let rows' = sql_update (\<lambda>r. is_retry session key r \<and> tr_resolved r = None)
                    (\<lambda>r. r\<lparr>tr_attempts := tr_attempts r + 1, tr_wake := None\<rparr>) rows
      in (attempts_of session key rows', rows'))"

definition resolve :: "string \<Rightarrow> resolution \<Rightarrow> int \<Rightarrow> retry_row list \<Rightarrow> bool \<times> retry_row list" where
  "resolve session how now rows =
     (sql_count (is_live session) rows > 0, sql_update (is_live session) (resolve_row how now) rows)"

definition live :: "string \<Rightarrow> retry_row list \<Rightarrow> live_retry option" where
  "live session rows =
     map_option (\<lambda>r. \<lparr>lv_turn_key = tr_key r, lv_class = tr_class r, lv_reason = tr_reason r,
                      lv_attempts = tr_attempts r, lv_wake = tr_wake r\<rparr>)
       (List.find (is_live session) rows)"

text \<open>\<open>timestamp_millis\<close> rounds towards the past.\<close>

definition retry_prune :: "int \<Rightarrow> retry_row list \<Rightarrow> nat \<times> retry_row list" where
  "retry_prune now rows =
     (let cutoff = now - RETRY_KEEP_HOURS * 3600 * 10 ^ 9;
          abandoned = now - ABANDONED_DAYS * 24 * 3600 * 10 ^ 9;
          hit = (\<lambda>r. (tr_resolved r \<noteq> None \<and> (case tr_resolved_at r of None \<Rightarrow> False | Some t \<Rightarrow> t < cutoff)) \<or>
                     (tr_resolved r = None \<and> tr_first_failed r < abandoned \<and>
                        (case tr_wake r of None \<Rightarrow> 0 | Some w \<Rightarrow> w) < abandoned div 10 ^ 6))
      in (sql_count hit rows, sql_delete hit rows))"

text \<open>The statements of \<open>LineageStore::rekey\<close> on this table.\<close>

definition retries_rekey :: "string \<Rightarrow> string \<Rightarrow> int \<Rightarrow> retry_row list \<Rightarrow> retry_row list" where
  "retries_rekey old new now rows =
     sql_replace (\<lambda>r q. tr_session r = tr_session q \<and>
                        (tr_key r = tr_key q \<or> tr_resolved r = None \<and> tr_resolved q = None))
       (\<lambda>r. tr_session r = old) (\<lambda>r. r\<lparr>tr_session := new\<rparr>)
       (if list_ex (is_live new) rows
        then sql_update (is_live old) (\<lambda>r. r\<lparr>tr_resolved := Some Superseded, tr_resolved_at := Some now\<rparr>) rows
        else rows)"

end
