(* ===== verification/Retry_Limits.thy ===== *)
theory Retry_Limits
  imports Turn_Retry
begin

text \<open>
  What bounds the automatic retries of a turn: the wake time of a retry, the one live row of a
  session, and the count of spent attempts, which only the user (by cancelling) or the erasure
  of old rows takes back.
\<close>

section \<open>Wake times\<close>

lemma jitter_small: "unat (jitter_ms seed (word_of_nat JITTER_SPAN)) < 120000"
proof -
  have u: "unat (120000 :: u64) = 120000" by simp
  then have "unat (x mod 120000 :: u64) = unat x mod 120000" for x by (simp only: unat_mod)
  then have bound: "unat (x mod 120000 :: u64) < 120000" for x by (simp only: mod_less_divisor zero_less_numeral)
  have n: "word_of_nat JITTER_SPAN = (120000 :: u64)" by (simp only: JITTER_SPAN_def of_nat_numeral)
  have nz: "(120000 :: u64) \<noteq> 0" by (simp only: word_unat_eq_iff unat_0 u)
  show ?thesis unfolding jitter_ms_def n Let_def if_not_P [OF nz] by (rule bound)
qed

lemma sint_small:
  assumes "unat w < 2 ^ 63"
  shows "sint (w :: u64) = int (unat w)"
proof -
  have "int (unat w) < int (2 ^ 63)" using assms by (simp only: of_nat_less_iff)
  then have u: "uint w < 2 ^ 63" by (simp only: uint_nat of_nat_power of_nat_numeral)
  have "- (2 ^ 63) \<le> uint w" by (rule order_trans [OF _ unsigned_greater_eq]) simp
  from signed_take_bit_int_eq_self [OF this u] have "sint w = uint w" unfolding sint_uint by simp
  then show ?thesis by simp
qed

lemma overload_wait:
  assumes "attempt < MAX_ATTEMPTS" "unat j < 120000"
  shows "sint (word_of_nat OVERLOAD_BASE * push_bit attempt 1 + j :: u64) = 30000 * 2 ^ attempt + int (unat j)"
proof -
  have "attempt = 0 \<or> attempt = 1 \<or> attempt = 2 \<or> attempt = 3" using assms(1) by (auto simp: MAX_ATTEMPTS_def)
  then have "unat (word_of_nat OVERLOAD_BASE * push_bit attempt 1 + j :: u64) = 30000 * 2 ^ attempt + unat j"
    using assms(2) by (elim disjE) (simp_all add: OVERLOAD_BASE_def unat_word_ariths push_bit_of_1)
  moreover from this have "unat (word_of_nat OVERLOAD_BASE * push_bit attempt 1 + j :: u64) < 2 ^ 63"
    using \<open>attempt = 0 \<or> _\<close> assms(2) by (elim disjE) simp_all
  ultimately show ?thesis by (simp add: sint_small)
qed

lemma window_wait:
  assumes "unat j < 120000"
  shows "sint (word_of_nat WINDOW_GRACE + j :: u64) = 30000 + int (unat j)"
proof -
  have "unat (word_of_nat WINDOW_GRACE + j :: u64) = 30000 + unat j"
    using assms by (simp add: WINDOW_GRACE_def unat_word_ariths)
  then show ?thesis using assms by (simp add: sint_small)
qed

lemma within_limit:
  assumes "i64_saturating_sub wake now \<le> as_i64 limit" "limit < 2 ^ 63 - 1" "now \<le> wake"
  shows "wake - now \<le> int limit"
proof -
  have "unat (word_of_nat limit :: 64 word) = limit" using assms(2) by (simp add: unat_of_nat)
  then have "as_i64 limit = int limit" using assms(2) by (simp add: as_i64_def sint_small)
  then show ?thesis using assms by (simp add: i64_saturating_sub_def)
qed

text \<open>The earliest time a failure of a class may be tried again.\<close>

fun floor_of :: "retry_class \<Rightarrow> nat \<Rightarrow> int \<Rightarrow> int" where
  "floor_of (Window resets_at) attempt now = max resets_at now + 30000"
| "floor_of _ attempt now = now + 30000 * 2 ^ attempt"

lemma checked_add_SomeD: "i64_checked_add a b = Some c \<Longrightarrow> c = a + b"
  by (simp add: i64_checked_add_def split: if_splits)

lemma retry_at_base:
  assumes "retry_at class attempt now settings seed = Some wake"
  shows "is_retryable class" "attempt < MAX_ATTEMPTS"
    "floor_of class attempt now \<le> wake" "wake < floor_of class attempt now + 120000"
    "\<And>limit. settings = Some limit \<Longrightarrow> i64_saturating_sub wake now \<le> as_i64 limit"
proof -
  let ?j = "jitter_ms seed (word_of_nat JITTER_SPAN)"
  have go: "\<not> (attempt \<ge> MAX_ATTEMPTS \<or> \<not> is_retryable class)"
    using assms by (cases "attempt \<ge> MAX_ATTEMPTS \<or> \<not> is_retryable class") (simp_all add: retry_at_def)
  show r: "is_retryable class" and a: "attempt < MAX_ATTEMPTS" using go by simp_all
  have w: "(case class of
                 Overload \<Rightarrow> i64_checked_add now
                     (sint (word_of_nat OVERLOAD_BASE * push_bit attempt 1 + ?j :: u64))
               | Window resets_at \<Rightarrow>
                   i64_checked_add (max resets_at now) (sint (word_of_nat WINDOW_GRACE + ?j :: u64))
               | _ \<Rightarrow> None) = Some wake"
    and lim: "\<And>limit. settings = Some limit \<Longrightarrow> i64_saturating_sub wake now \<le> as_i64 limit"
    using assms go by (auto simp: retry_at_def Let_def split: option.splits if_splits)
  show "\<And>limit. settings = Some limit \<Longrightarrow> i64_saturating_sub wake now \<le> as_i64 limit" by (rule lim)
  have "wake = floor_of class attempt now + int (unat ?j)"
  proof (cases "class")
    case Overload
    then show ?thesis
      using w overload_wait [OF a jitter_small [of seed]]
      by (simp del: push_bit_of_1) (drule checked_add_SomeD, simp)
  next
    case (Window t)
    then show ?thesis
      using w window_wait [OF jitter_small [of seed]] by simp (drule checked_add_SomeD, simp)
  qed (use r in simp_all)
  then show "floor_of class attempt now \<le> wake" "wake < floor_of class attempt now + 120000"
    using jitter_small [of seed] by linarith+
qed

text \<open>
  C33: An automatic retry is armed only for a failure that can pass, for the first four attempts, at
  least the back-off of its attempt (or half a minute after the window resets) away and less than
  two minutes of jitter later, and never further off than the longest wait the settings allow.
\<close>

theorem retry_wakes_in_bounds:
  assumes "decide class attempts now (Some limit) seed = Arm wake n"
    and "limit < 2 ^ 63 - 1"
  shows "is_retryable class \<and> n = attempts \<and> n < MAX_ATTEMPTS \<and>
    floor_of class n now \<le> wake \<and> wake < floor_of class n now + 120000 \<and> wake - now \<le> int limit"
proof -
  have r: "retry_at class attempts now (Some limit) seed = Some wake" and n: "n = attempts"
    using assms(1) by (auto simp: decide_def split: if_splits option.splits)
  note base = retry_at_base [OF r]
  have "now \<le> floor_of class attempts now" by (cases "class") simp_all
  then have "now \<le> wake" using base(3) by linarith
  then show ?thesis using base n within_limit [OF base(5) [OF refl] assms(2)] by simp
qed

theorem retry_wakes_in_bounds_witness:
  "is_retryable (Window 5000000) \<and> (2::nat) = 2 \<and> 2 < MAX_ATTEMPTS \<and>
   floor_of (Window 5000000) 2 1000 \<le> (5030000 :: int) \<and> (5030000 :: int) < floor_of (Window 5000000) 2 1000 + 120000 \<and>
   5030000 - 1000 \<le> int 86400000"
proof -
  have "jitter_ms (- 0x9E3779B97F4A7C15) (word_of_nat JITTER_SPAN) = 0" by (simp add: jitter_ms_def)
  then have "decide (Window 5000000) 2 1000 (Some 86400000) (- 0x9E3779B97F4A7C15) = Arm 5030000 2"
    by (simp add: decide_def retry_at_def MAX_ATTEMPTS_def WINDOW_GRACE_def i64_checked_add_def in_i64_def
          i64_saturating_sub_def as_i64_def sint_small)
  from retry_wakes_in_bounds [OF this] show ?thesis by simp
qed

section \<open>The operations of the store\<close>

datatype retry_op =
    OpArm string string string string int string int
  | OpFired string string
  | OpResolve string resolution int
  | OpPrune int
  | OpRekey string string int

fun retry_apply :: "retry_op \<Rightarrow> retry_row list \<Rightarrow> retry_row list" where
  "retry_apply (OpArm s k c r w i now) rows = snd (arm_retry s k c r w i now rows)"
| "retry_apply (OpFired s k) rows = snd (fired s k rows)"
| "retry_apply (OpResolve s how now) rows = snd (resolve s how now rows)"
| "retry_apply (OpPrune now) rows = snd (retry_prune now rows)"
| "retry_apply (OpRekey old new now) rows = retries_rekey old new now rows"

section \<open>One live retry per session\<close>

definition row_id :: "retry_row \<Rightarrow> string \<times> string" where
  "row_id r = (tr_session r, tr_key r)"

definition retries_ok :: "retry_row list \<Rightarrow> bool" where
  "retries_ok rows \<longleftrightarrow> distinct (map row_id rows) \<and>
     (\<forall>r \<in> set rows. \<forall>q \<in> set rows.
        tr_session r = tr_session q \<and> tr_resolved r = None \<and> tr_resolved q = None \<longrightarrow> r = q)"

lemma retries_okI:
  assumes "distinct (map row_id rows)"
    and "\<And>r q. \<lbrakk>r \<in> set rows; q \<in> set rows; tr_session r = tr_session q; tr_resolved r = None;
            tr_resolved q = None\<rbrakk> \<Longrightarrow> row_id r = row_id q"
  shows "retries_ok rows"
proof -
  have "inj_on row_id (set rows)" using assms(1) by (simp add: distinct_map)
  then show ?thesis using assms by (auto simp: retries_ok_def dest: inj_onD)
qed

lemma retries_okD:
  assumes "retries_ok rows"
  shows "distinct (map row_id rows)" "inj_on row_id (set rows)"
    "\<And>r q. \<lbrakk>r \<in> set rows; q \<in> set rows; tr_session r = tr_session q; tr_resolved r = None;
            tr_resolved q = None\<rbrakk> \<Longrightarrow> r = q"
  using assms by (auto simp: retries_ok_def distinct_map)

text \<open>An update that keeps the keys and revives nothing keeps the table well formed.\<close>

lemma retries_ok_update:
  assumes "retries_ok rows" "\<And>r. row_id (upd r) = row_id r"
    and "\<And>r. hit r \<Longrightarrow> tr_resolved (upd r) = None \<Longrightarrow> tr_resolved r = None"
  shows "retries_ok (sql_update hit upd rows)"
proof (rule retries_okI)
  show "distinct (map row_id (sql_update hit upd rows))"
    using retries_okD(1) [OF assms(1)] assms(2) by (simp add: map_sql_update)
  fix r' q'
  assume r': "r' \<in> set (sql_update hit upd rows)" and q': "q' \<in> set (sql_update hit upd rows)"
    and s: "tr_session r' = tr_session q'" and n: "tr_resolved r' = None" "tr_resolved q' = None"
  obtain r where r: "r \<in> set rows" "r' = (if hit r then upd r else r)" using r' by (rule sql_updateE)
  obtain q where q: "q \<in> set rows" "q' = (if hit q then upd q else q)" using q' by (rule sql_updateE)
  have id: "row_id r' = row_id r" "row_id q' = row_id q" using r(2) q(2) assms(2) by simp_all
  then have "tr_session r = tr_session q" using s by (simp add: row_id_def)
  moreover have "tr_resolved r = None" "tr_resolved q = None"
    using n r(2) q(2) assms(3) by (auto split: if_splits)
  ultimately have "r = q" using retries_okD(3) [OF assms(1) r(1) q(1)] by blast
  then show "row_id r' = row_id q'" using id by simp
qed

lemma retries_ok_delete: "retries_ok rows \<Longrightarrow> retries_ok (sql_delete hit rows)"
  by (auto simp: retries_ok_def sql_delete_def distinct_map intro: inj_on_subset)

lemma retries_ok_arm:
  assumes ok: "retries_ok rows"
  shows "retries_ok (snd (arm_retry s k c rsn w i now rows))"
proof -
  let ?r1 = "sql_update (\<lambda>r. is_live s r \<and> tr_key r \<noteq> k) (resolve_row Superseded now) rows"
  let ?new = "\<lparr>tr_session = s, tr_key = k, tr_class = c, tr_reason = rsn, tr_attempts = 0,
                tr_first_failed = now, tr_wake = Some w, tr_resolved = None, tr_resolved_at = None,
                tr_instance = i\<rparr>"
  have ok1: "retries_ok ?r1"
    by (rule retries_ok_update [OF ok]) (simp_all add: row_id_def resolve_row_def)
  have alone: "r \<in> set ?r1 \<Longrightarrow> tr_session r = s \<Longrightarrow> tr_resolved r = None \<Longrightarrow> tr_key r = k" for r
    by (erule sql_updateE) (auto simp: is_live_def resolve_row_def split: if_splits)
  show ?thesis
  proof (cases "list_ex (is_retry s k) ?r1")
    case False
    then have fresh: "row_id r \<noteq> (s, k)" if "r \<in> set ?r1" for r
      using that by (auto simp: list_ex_iff is_retry_def row_id_def)
    have "retries_ok (?r1 @ [?new])"
    proof (rule retries_okI)
      show "distinct (map row_id (?r1 @ [?new]))"
        using retries_okD(1) [OF ok1] fresh by (auto simp: row_id_def)
      fix r q
      assume "r \<in> set (?r1 @ [?new])" "q \<in> set (?r1 @ [?new])" "tr_session r = tr_session q"
        "tr_resolved r = None" "tr_resolved q = None"
      then show "row_id r = row_id q"
        using alone [of r] alone [of q] fresh [of r] fresh [of q] retries_okD(3) [OF ok1, of r q]
        by (auto simp: row_id_def)
    qed
    then show ?thesis using False by (simp add: arm_retry_def Let_def)
  next
    case True
    have "retries_ok (sql_update (is_retry s k) (rearm_row c rsn w i now) ?r1)" (is "retries_ok ?r2")
    proof (rule retries_okI)
      show "distinct (map row_id ?r2)"
        using retries_okD(1) [OF ok1] by (simp add: map_sql_update row_id_def rearm_row_def)
      fix r' q'
      assume r': "r' \<in> set ?r2" and q': "q' \<in> set ?r2"
        and e: "tr_session r' = tr_session q'" and n: "tr_resolved r' = None" "tr_resolved q' = None"
      obtain r where r: "r \<in> set ?r1" "r' = (if is_retry s k r then rearm_row c rsn w i now r else r)"
        using r' by (rule sql_updateE)
      obtain q where q: "q \<in> set ?r1" "q' = (if is_retry s k q then rearm_row c rsn w i now q else q)"
        using q' by (rule sql_updateE)
      have id: "row_id r' = row_id r" "row_id q' = row_id q"
        using r(2) q(2) by (simp_all add: row_id_def rearm_row_def)
      then have e': "tr_session r = tr_session q" using e by (simp add: row_id_def)
      show "row_id r' = row_id q'"
      proof (cases "is_retry s k r \<or> is_retry s k q")
        case True
        then have "tr_session r = s" "tr_session q = s" using e' by (auto simp: is_retry_def)
        then have "tr_key r = k" "tr_key q = k"
          using True r q n alone [of r] alone [of q] by (auto simp: is_retry_def split: if_splits)
        then show ?thesis using id e' by (simp add: row_id_def)
      next
        case False
        then have "r = q" using retries_okD(3) [OF ok1 r(1) q(1)] r(2) q(2) n e' by simp
        then show ?thesis using id by simp
      qed
    qed
    then show ?thesis using True by (simp add: arm_retry_def Let_def)
  qed
qed

lemma retries_ok_rekey:
  assumes ok: "retries_ok rows"
  shows "retries_ok (retries_rekey old new now rows)"
proof -
  let ?rows = "if list_ex (is_live new) rows
     then sql_update (is_live old) (\<lambda>r. r\<lparr>tr_resolved := Some Superseded, tr_resolved_at := Some now\<rparr>) rows
     else rows"
  let ?clash = "\<lambda>r q. tr_session r = tr_session q \<and>
                  (tr_key r = tr_key q \<or> tr_resolved r = None \<and> tr_resolved q = None)"
  let ?hit = "\<lambda>r. tr_session r = old" and ?upd = "\<lambda>r. r\<lparr>tr_session := new\<rparr>"
  let ?kept = "filter (\<lambda>r. ?hit r \<or> \<not> list_ex (\<lambda>q. ?hit q \<and> ?clash (?upd q) r) ?rows) ?rows"
  have ok1: "retries_ok ?rows" using ok by (auto intro: retries_ok_update simp: row_id_def)
  have okk: "retries_ok ?kept"
    using retries_ok_delete [OF ok1, of "\<lambda>r. \<not> (?hit r \<or> \<not> list_ex (\<lambda>q. ?hit q \<and> ?clash (?upd q) r) ?rows)"]
    unfolding sql_delete_def not_not .
  have apart: "\<not> ?clash (?upd q) r" if "r \<in> set ?kept" "\<not> ?hit r" "q \<in> set ?kept" "?hit q" for q r
    using that by (auto simp: list_ex_iff)
  let ?g = "\<lambda>r. if ?hit r then ?upd r else r"
  have same: "r = q" if "r \<in> set ?kept" "q \<in> set ?kept" "tr_session (?g r) = tr_session (?g q)"
      "tr_key r = tr_key q \<or> tr_resolved r = None \<and> tr_resolved q = None" for r q
  proof -
    consider "?hit r" "?hit q" | "\<not> ?hit r" "\<not> ?hit q" | "?hit r" "\<not> ?hit q" | "\<not> ?hit r" "?hit q" by blast
    then show ?thesis
    proof cases
      case 1
      then show ?thesis
        using that retries_okD(3) [OF okk that(1,2)] inj_onD [OF retries_okD(2) [OF okk] _ that(1,2)]
        by (auto simp: row_id_def)
    next
      case 2
      then show ?thesis
        using that(3,4) retries_okD(3) [OF okk that(1,2)] inj_onD [OF retries_okD(2) [OF okk] _ that(1,2)]
        by (auto simp: row_id_def)
    next
      case 3
      then show ?thesis using apart [OF that(2) 3(2) that(1) 3(1)] that(3,4) 3 by auto
    next
      case 4
      then show ?thesis using apart [OF that(1) 4(1) that(2) 4(2)] that(3,4) 4 by auto
    qed
  qed
  have "retries_ok (map ?g ?kept)"
  proof (rule retries_okI)
    have "distinct ?kept" using retries_okD(1) [OF okk] by (simp add: distinct_map)
    moreover have "inj_on (row_id \<circ> ?g) (set ?kept)"
    proof (rule inj_onI)
      fix r q
      assume "r \<in> set ?kept" "q \<in> set ?kept" "(row_id \<circ> ?g) r = (row_id \<circ> ?g) q"
      then show "r = q" using same [of r q] by (auto simp: row_id_def split: if_splits)
    qed
    ultimately show "distinct (map row_id (map ?g ?kept))" by (simp add: distinct_map)
    fix r' q'
    assume r': "r' \<in> set (map ?g ?kept)" and q': "q' \<in> set (map ?g ?kept)"
      and e: "tr_session r' = tr_session q'" "tr_resolved r' = None" "tr_resolved q' = None"
    obtain r where r: "r' = ?g r" "r \<in> set ?kept" using r' unfolding set_map by (rule imageE)
    obtain q where q: "q' = ?g q" "q \<in> set ?kept" using q' unfolding set_map by (rule imageE)
    have "tr_resolved r = None" "tr_resolved q = None" using e(2,3) r(1) q(1) by (simp_all split: if_splits)
    then have "r = q" using same [OF r(2) q(2)] e(1) r(1) q(1) by blast
    then show "row_id r' = row_id q'" using r(1) q(1) by simp
  qed
  then show ?thesis unfolding retries_rekey_def sql_replace_def sql_update_def .
qed

lemma retries_ok_attempts:
  assumes "retries_ok rows" "r \<in> set rows"
  shows "attempts_of (tr_session r) (tr_key r) rows = tr_attempts r"
proof (cases "List.find (is_retry (tr_session r) (tr_key r)) rows")
  case None
  then show ?thesis using assms(2) by (auto simp: find_None_iff is_retry_def)
next
  case (Some q)
  then have "q \<in> set rows" "row_id q = row_id r" by (auto simp: find_Some_iff is_retry_def row_id_def)
  then have "q = r" using inj_onD [OF retries_okD(2) [OF assms(1)]] assms(2) by blast
  then show ?thesis using Some by (simp add: attempts_of_def)
qed

lemma retries_ok_step: "retries_ok rows \<Longrightarrow> retries_ok (retry_apply op rows)"
proof (cases op)
  case (OpFired s k)
  then show "retries_ok rows \<Longrightarrow> ?thesis"
    by (auto simp: fired_def Let_def row_id_def intro: retries_ok_update)
next
  case (OpResolve s how now)
  then show "retries_ok rows \<Longrightarrow> ?thesis"
    by (auto simp: resolve_def row_id_def resolve_row_def intro: retries_ok_update)
next
  case (OpPrune now)
  then show "retries_ok rows \<Longrightarrow> ?thesis"
    by (simp add: retry_prune_def Let_def retries_ok_delete)
qed (simp_all add: retries_ok_arm retries_ok_rekey)

text \<open>
  Whatever is done with the store, a session has at most one live retry: what \<open>live\<close> reports is
  the only row of the session that is not resolved, and a turn has one row.
\<close>

theorem one_live_retry:
  assumes "rows = fold retry_apply ops []"
    and "r \<in> set rows" "tr_session r = s" "tr_resolved r = None"
  shows "live s rows = Some \<lparr>lv_turn_key = tr_key r, lv_class = tr_class r, lv_reason = tr_reason r,
           lv_attempts = tr_attempts r, lv_wake = tr_wake r\<rparr>
     \<and> sql_count (is_live s) rows = 1 \<and> sql_count (is_retry s (tr_key r)) rows = 1"
proof -
  have "retries_ok (fold retry_apply ops rows0)" if "retries_ok rows0" for rows0
    using that by (induction ops arbitrary: rows0) (simp_all add: retries_ok_step)
  moreover have "retries_ok []" by (simp add: retries_ok_def)
  ultimately have ok: "retries_ok rows" using assms(1) by blast
  note d = retries_okD [OF ok]
  have dist: "distinct rows" using d(1) by (simp add: distinct_map)
  have only: "q = r" if "q \<in> set rows" "is_live s q" for q
    using d(3) [OF that(1) assms(2)] that assms(3,4) by (simp add: is_live_def)
  have key: "q = r" if "q \<in> set rows" "is_retry s (tr_key r) q" for q
  proof -
    have "row_id q = row_id r" using that(2) assms(3) by (simp add: is_retry_def row_id_def)
    then show ?thesis by (rule inj_onD [OF d(2) _ that(1) assms(2)])
  qed
  have one: "sql_count P rows = 1" if "P r" "\<And>q. q \<in> set rows \<Longrightarrow> P q \<Longrightarrow> q = r" for P
  proof -
    have "set (filter P rows) = {r}" using that(1) assms(2) by (auto dest: that(2))
    then have "length (filter P rows) = card {r}"
      using distinct_card [OF distinct_filter [OF dist, of P]] by simp
    then show ?thesis by (simp add: sql_count_def)
  qed
  have "List.find (is_live s) rows = Some r"
  proof (cases "List.find (is_live s) rows")
    case None
    then show ?thesis using assms(2-4) by (auto simp: find_None_iff is_live_def)
  next
    case (Some q)
    then have "q \<in> set rows" "is_live s q" by (auto simp: find_Some_iff)
    then show ?thesis using Some only by simp
  qed
  moreover have "sql_count (is_live s) rows = 1"
    using assms(3,4) by (intro one only) (simp_all add: is_live_def)
  moreover have "sql_count (is_retry s (tr_key r)) rows = 1"
    using assms(3) by (intro one key) (simp_all add: is_retry_def)
  ultimately show ?thesis by (simp add: live_def)
qed

theorem one_live_retry_witness:
  "let rows = fold retry_apply
       [OpArm ''s'' ''a'' ''overload'' ''busy'' 40000 ''i'' 10, OpFired ''s'' ''a'',
        OpArm ''s'' ''b'' ''overload'' ''busy'' 90000 ''i'' 20] [];
     r = rows ! 1
   in live ''s'' rows = Some \<lparr>lv_turn_key = tr_key r, lv_class = tr_class r, lv_reason = tr_reason r,
           lv_attempts = tr_attempts r, lv_wake = tr_wake r\<rparr>
     \<and> sql_count (is_live ''s'') rows = 1 \<and> sql_count (is_retry ''s'' (tr_key r)) rows = 1"
  unfolding Let_def by (rule one_live_retry [OF refl]) code_simp+

section \<open>Spent attempts\<close>

text \<open>Operations that may take attempts back: a cancel of the session, and those that erase rows.\<close>

fun keeps_attempts :: "string \<Rightarrow> retry_op \<Rightarrow> bool" where
  "keeps_attempts s (OpResolve s' how now) \<longleftrightarrow> \<not> (s' = s \<and> how = Cancelled)"
| "keeps_attempts s (OpPrune now) \<longleftrightarrow> False"
| "keeps_attempts s (OpRekey old new now) \<longleftrightarrow> old \<noteq> s \<and> new \<noteq> s"
| "keeps_attempts s op \<longleftrightarrow> True"

text \<open>The row of a turn that has spent \<open>n\<close> attempts and was not cancelled.\<close>

definition spent :: "string \<Rightarrow> string \<Rightarrow> nat \<Rightarrow> retry_row list \<Rightarrow> bool" where
  "spent s k n rows \<longleftrightarrow> (\<exists>r \<in> set rows. is_retry s k r) \<and>
     (\<forall>r \<in> set rows. is_retry s k r \<longrightarrow> n \<le> tr_attempts r \<and> tr_resolved r \<noteq> Some Cancelled)"

lemma spent_update:
  assumes "spent s k n rows"
    and "\<And>r. is_retry s k (upd r) = is_retry s k r"
    and "\<And>r. \<lbrakk>is_retry s k r; n \<le> tr_attempts r; tr_resolved r \<noteq> Some Cancelled; hit r\<rbrakk>
            \<Longrightarrow> n \<le> tr_attempts (upd r) \<and> tr_resolved (upd r) \<noteq> Some Cancelled"
  shows "spent s k n (sql_update hit upd rows)"
proof -
  have "\<exists>r' \<in> set (sql_update hit upd rows). is_retry s k r'"
  proof -
    obtain r where "r \<in> set rows" "is_retry s k r" using assms(1) by (auto simp: spent_def)
    then show ?thesis
      using assms(2) by (intro bexI [where x = "if hit r then upd r else r"]) (auto simp: in_sql_update)
  qed
  moreover have "n \<le> tr_attempts r' \<and> tr_resolved r' \<noteq> Some Cancelled"
    if r': "r' \<in> set (sql_update hit upd rows)" "is_retry s k r'" for r'
  proof -
    obtain r where r: "r \<in> set rows" "r' = (if hit r then upd r else r)" using r'(1) by (rule sql_updateE)
    then have "is_retry s k r" using r'(2) assms(2) by (simp split: if_splits)
    then show ?thesis using r assms(1,3) by (auto simp: spent_def)
  qed
  ultimately show ?thesis by (simp add: spent_def)
qed

lemma spent_arm:
  assumes "spent s k n rows"
  shows "spent s k n (snd (arm_retry s' k' c rsn w i now rows))"
proof -
  let ?r1 = "sql_update (\<lambda>r. is_live s' r \<and> tr_key r \<noteq> k') (resolve_row Superseded now) rows"
  have s1: "spent s k n ?r1"
    by (rule spent_update [OF assms]) (simp_all add: is_retry_def resolve_row_def)
  have "spent s k n (sql_update (is_retry s' k') (rearm_row c rsn w i now) ?r1)"
    by (rule spent_update [OF s1]) (simp_all add: is_retry_def rearm_row_def)
  moreover have "spent s k n (?r1 @ [q])" if "\<not> list_ex (is_retry s' k') ?r1" "tr_session q = s'" "tr_key q = k'" for q
  proof -
    have "\<not> is_retry s k q"
    proof
      assume "is_retry s k q"
      then have "s = s'" "k = k'" using that(2,3) by (simp_all add: is_retry_def)
      then show False using that(1) s1 by (auto simp: spent_def list_ex_iff)
    qed
    then show ?thesis using s1 by (auto simp: spent_def)
  qed
  ultimately show ?thesis by (simp add: arm_retry_def Let_def)
qed

lemma spent_rekey:
  assumes "spent s k n rows" "old \<noteq> s" "new \<noteq> s"
  shows "spent s k n (retries_rekey old new now rows)"
proof -
  have keep: "spent s k n rows" if "spent s k n rows1" "\<And>r. is_retry s k r \<Longrightarrow> r \<in> set rows \<longleftrightarrow> r \<in> set rows1" for rows rows1
    using that by (auto simp: spent_def)
  let ?r1 = "if list_ex (is_live new) rows
     then sql_update (is_live old) (\<lambda>r. r\<lparr>tr_resolved := Some Superseded, tr_resolved_at := Some now\<rparr>) rows
     else rows"
  have s1: "spent s k n ?r1"
    using assms by (auto intro!: spent_update simp: is_retry_def is_live_def)
  show ?thesis unfolding retries_rekey_def
  proof (rule keep [OF s1])
    fix r
    assume r: "is_retry s k r"
    then have sr: "tr_session r = s" by (simp add: is_retry_def)
    show "r \<in> set (sql_replace (\<lambda>r q. tr_session r = tr_session q \<and>
                        (tr_key r = tr_key q \<or> tr_resolved r = None \<and> tr_resolved q = None))
       (\<lambda>r. tr_session r = old) (\<lambda>r. r\<lparr>tr_session := new\<rparr>) ?r1) \<longleftrightarrow> r \<in> set ?r1"
    proof (rule in_sql_replace_other)
      fix q
      show "q\<lparr>tr_session := new\<rparr> \<noteq> r" using sr assms(3) by auto
    qed (use sr assms(2,3) in simp_all)
  qed
qed

lemma spent_step:
  assumes "spent s k n rows" "keeps_attempts s op"
  shows "spent s k n (retry_apply op rows)"
proof (cases op)
  case (OpFired s' k')
  have "spent s k n (sql_update (\<lambda>r. is_retry s' k' r \<and> tr_resolved r = None)
          (\<lambda>r. r\<lparr>tr_attempts := tr_attempts r + 1, tr_wake := None\<rparr>) rows)"
    by (rule spent_update [OF assms(1)]) (simp_all add: is_retry_def)
  then show ?thesis using OpFired by (simp add: fired_def Let_def)
next
  case (OpResolve s' how now)
  have "spent s k n (sql_update (is_live s') (resolve_row how now) rows)"
    using assms(2) OpResolve
    by (intro spent_update [OF assms(1)]) (auto simp: is_retry_def is_live_def resolve_row_def)
  then show ?thesis using OpResolve by (simp add: resolve_def)
next
  case (OpRekey old new now)
  then show ?thesis using assms spent_rekey by simp
qed (use assms in \<open>simp_all add: spent_arm\<close>)

lemma spent_attempts:
  assumes "spent s k n rows"
  shows "n \<le> attempts_of s k rows"
proof (cases "List.find (is_retry s k) rows")
  case None
  then show ?thesis using assms by (auto simp: spent_def find_None_iff)
next
  case (Some r)
  then have "r \<in> set rows" "is_retry s k r" by (auto simp: find_Some_iff)
  then show ?thesis using assms Some by (simp add: spent_def attempts_of_def)
qed

text \<open>
  A turn that has used up its automatic attempts is never armed again by the decision over the
  stored count, however often it is re-armed, superseded, resolved or fired in between and whatever
  happens to other sessions, unless the user cancels a retry of the session or its rows are erased.
\<close>

theorem spent_attempts_stay_spent:
  assumes "r \<in> set rows" "is_retry s k r" "\<And>q. q \<in> set rows \<Longrightarrow> is_retry s k q \<Longrightarrow> q = r"
    and "MAX_ATTEMPTS \<le> tr_attempts r" "tr_resolved r \<noteq> Some Cancelled"
    and "\<And>op. op \<in> set ops \<Longrightarrow> keeps_attempts s op"
  shows "decide c (attempts_of s k (fold retry_apply ops rows)) now settings seed \<in> {Exhausted, Never}"
proof -
  have "spent s k MAX_ATTEMPTS (fold retry_apply ops rows0)"
    if "spent s k MAX_ATTEMPTS rows0" "\<And>op. op \<in> set ops \<Longrightarrow> keeps_attempts s op" for rows0
    using that by (induction ops arbitrary: rows0) (simp_all add: spent_step)
  moreover have "spent s k MAX_ATTEMPTS rows"
  proof -
    have "MAX_ATTEMPTS \<le> tr_attempts q \<and> tr_resolved q \<noteq> Some Cancelled" if "q \<in> set rows" "is_retry s k q" for q
      using assms(3) [OF that] assms(4,5) by simp
    then show ?thesis using assms(1,2) by (auto simp: spent_def)
  qed
  ultimately have "spent s k MAX_ATTEMPTS (fold retry_apply ops rows)" using assms(6) by blast
  then show ?thesis using spent_attempts by (auto simp: decide_def)
qed

theorem spent_attempts_stay_spent_witness:
  "let f = [OpArm ''s'' ''a'' ''overload'' ''busy'' 40000 ''i'' 10, OpFired ''s'' ''a''];
       rows = fold retry_apply (f @ f @ f @ f) []
   in decide Overload (attempts_of ''s'' ''a'' (fold retry_apply
        [OpResolve ''s'' ResExhausted 50, OpArm ''s'' ''b'' ''overload'' ''busy'' 90000 ''i'' 60,
         OpArm ''s'' ''a'' ''overload'' ''busy'' 95000 ''i'' 70] rows)) 100 None 7 \<in> {Exhausted, Never}"
  unfolding Let_def
  by (rule spent_attempts_stay_spent
        [where r = "\<lparr>tr_session = ''s'', tr_key = ''a'', tr_class = ''overload'', tr_reason = ''busy'',
                      tr_attempts = 4, tr_first_failed = 10, tr_wake = None, tr_resolved = None,
                      tr_resolved_at = None, tr_instance = ''i''\<rparr>"])
     (auto simp: arm_retry_def fired_def sql_update_def is_retry_def is_live_def MAX_ATTEMPTS_def
           rearm_row_def Let_def)

end
