(* ===== verification/Session_Rename.thy ===== *)
theory Session_Rename
  imports Lineage_Tree Outbox Send_Receipts Retry_Limits
begin

text \<open>
  The rename of a session (\<open>LineageStore::rekey\<close> in \<open>crates/agents/src/lineage.rs\<close>): one
  transaction over the lineage, the breaker, the event outbox, the send receipts and the
  automatic retries.
\<close>

record session_tables =
  ss_lineage :: lineage_db
  ss_outbox :: "outbox_row list"
  ss_receipts :: "receipt list"
  ss_retries :: "retry_row list"

text \<open>\<open>False\<close> is the error of a statement: the transaction is dropped uncommitted.\<close>

definition rekey :: "string \<Rightarrow> string \<Rightarrow> int \<Rightarrow> session_tables \<Rightarrow> bool \<times> session_tables" where
  "rekey old new now t =
     (if old = new then (True, t)
      else
        (case rekey_lineage old new (ss_lineage t) of
           (False, _) \<Rightarrow> (False, t)
         | (True, db) \<Rightarrow>
             (True, \<lparr>ss_lineage = db,
                     ss_outbox = outbox_rekey (lit old) (lit new) (ss_outbox t),
                     ss_receipts = receipts_rekey old new (ss_receipts t),
                     ss_retries = retries_rekey old new now (ss_retries t)\<rparr>)))"

definition row_mentions :: "string \<Rightarrow> lineage_row \<Rightarrow> bool" where
  "row_mentions s r \<longleftrightarrow> lr_session r = Some s \<or> lr_parent r = s \<or> lr_root r = s"

definition outbox_mentions :: "string \<Rightarrow> outbox_row \<Rightarrow> bool" where
  "outbox_mentions s r \<longleftrightarrow> ob_parent r = lit s \<or> ob_child r = lit s"

definition names :: "string \<Rightarrow> session_tables \<Rightarrow> bool" where
  "names s t \<longleftrightarrow> (\<exists>r \<in> set (ln_rows (ss_lineage t)). row_mentions s r) \<or>
     s \<in> fst ` set (ln_failures (ss_lineage t)) \<or> (\<exists>r \<in> set (ss_outbox t). outbox_mentions s r) \<or>
     (\<exists>r \<in> set (ss_receipts t). rc_session r = s) \<or> (\<exists>r \<in> set (ss_retries t). tr_session r = s)"

section \<open>Every reference follows\<close>

lemma lit_inject: "lit s = lit t \<longleftrightarrow> s = t"
  by (simp add: lit_def inj_map_eq_map inj_on_def)

text \<open>What a replacing update by a new value leaves has the old value nowhere.\<close>

lemma sql_replace_gone:
  assumes "\<And>r. hit r \<Longrightarrow> \<not> hit (upd r)"
  shows "\<not> (\<exists>r \<in> set (sql_replace clash hit upd rows). hit r)"
  using assms by (auto elim!: sql_replaceE split: if_splits)

text \<open>A row with a property a replacing update keeps is the image of one with it.\<close>

lemma sql_replace_none:
  assumes "\<And>r. P (upd r) \<Longrightarrow> P r" "\<not> (\<exists>r \<in> set rows. P r)"
  shows "\<not> (\<exists>r \<in> set (sql_replace clash hit upd rows). P r)"
  using assms by (auto elim!: sql_replaceE split: if_splits)

lemma outbox_rekey_gone:
  assumes "old \<noteq> new"
  shows "\<not> (\<exists>r \<in> set (outbox_rekey (lit old) (lit new) rows). outbox_mentions old r)"
proof -
  have ne: "lit new \<noteq> lit old" using assms by (simp add: lit_inject)
  let ?r1 = "sql_replace same_edge (\<lambda>r. ob_parent r = lit old) (\<lambda>r. r\<lparr>ob_parent := lit new\<rparr>) rows"
  have "\<not> (\<exists>r \<in> set ?r1. ob_parent r = lit old)" by (rule sql_replace_gone) (simp add: ne)
  then have "\<not> (\<exists>r \<in> set (outbox_rekey (lit old) (lit new) rows). ob_parent r = lit old)"
    unfolding outbox_rekey_def by (rule sql_replace_none [rotated]) simp
  moreover have "\<not> (\<exists>r \<in> set (outbox_rekey (lit old) (lit new) rows). ob_child r = lit old)"
    unfolding outbox_rekey_def by (rule sql_replace_gone) (simp add: ne)
  ultimately show ?thesis by (auto simp: outbox_mentions_def)
qed

lemma rename_gone: "old \<noteq> new \<Longrightarrow> rename old new s \<noteq> old"
  by (simp add: rename_def)

lemma rekey_row_gone: "old \<noteq> new \<Longrightarrow> \<not> row_mentions old (rekey_row old new r)"
  by (auto simp: row_mentions_def rekey_row_def rename_gone)

lemma failures_gone:
  assumes "old \<noteq> new"
  shows "old \<notin> fst ` set (case map_of fs old of None \<Rightarrow> fs | Some f \<Rightarrow> AList.update new f (AList.delete old fs))"
  using assms
  by (auto simp: map_of_eq_None_iff dom_update AList.delete_eq split: option.split)

text \<open>A rename leaves the count of a turn where the new id finds it.\<close>

lemma retries_follow:
  assumes ok: "retries_ok rows" and r: "r \<in> set rows" "tr_session r = old"
  shows "attempts_of new (tr_key r) (retries_rekey old new now rows) = tr_attempts r"
proof -
  let ?res = "\<lambda>r. r\<lparr>tr_resolved := Some Superseded, tr_resolved_at := Some now\<rparr>"
  let ?r1 = "if list_ex (is_live new) rows then sql_update (is_live old) ?res rows else rows"
  obtain r1 where r1: "r1 \<in> set ?r1" "tr_session r1 = old" "tr_key r1 = tr_key r" "tr_attempts r1 = tr_attempts r"
  proof (cases "list_ex (is_live new) rows")
    case True
    let ?q = "if is_live old r then ?res r else r"
    have "?q \<in> set (sql_update (is_live old) ?res rows)" using r(1) unfolding in_sql_update by blast
    then show ?thesis using True that [of ?q] r(2) by simp
  next
    case False
    then show ?thesis using that [of r] r by simp
  qed
  have "r1\<lparr>tr_session := new\<rparr> \<in> set (retries_rekey old new now rows)"
    using r1(1,2) unfolding retries_rekey_def sql_replace_def in_sql_update
    by (intro bexI [where x = r1]) auto
  moreover have "retries_ok (retries_rekey old new now rows)" by (rule retries_ok_rekey [OF ok])
  ultimately show ?thesis using retries_ok_attempts r1(3,4) by fastforce
qed


definition renamed_tables :: session_tables where
  "renamed_tables = \<lparr>ss_lineage = sample_db, ss_outbox = [], ss_receipts = [],
     ss_retries = fold retry_apply
       [OpArm ''a'' ''k'' ''overload'' ''busy'' 40000 ''i'' 10, OpFired ''a'' ''k''] []\<rparr>"


end
