(* ===== verification/Outbox_Delivery.thy ===== *)
theory Outbox_Delivery
  imports Outbox
begin

text \<open>
  What the outbox promises: a row moves only along the states of its life, the sweep finds
  exactly the parents with rows due, and a key under which a line was written is never handed
  out again.
\<close>

section \<open>Keys\<close>

lemma length_le_bytes [simp]: "length (le_bytes k v) = k"
  by (induction k v rule: le_bytes.induct) auto

lemma le_bytes_inj: "\<lbrakk>le_bytes k v = le_bytes k w; v < 256 ^ k; w < 256 ^ k\<rbrakk> \<Longrightarrow> v = w"
proof (induction k arbitrary: v w)
  case (Suc k)
  have low: "v mod 256 = w mod 256"
  proof -
    have "unat (word_of_nat (v mod 256) :: 8 word) = unat (word_of_nat (w mod 256) :: 8 word)"
      using Suc.prems(1) by simp
    then show ?thesis by (simp add: unat_of_nat)
  qed
  have "v div 256 = w div 256"
    using Suc.prems by (intro Suc.IH) (auto simp: less_mult_imp_div_less mult.commute)
  with low show ?case by (metis div_mult_mod_eq)
qed simp

definition small_pairs :: "(nat \<times> nat) list \<Rightarrow> bool" where
  "small_pairs P \<longleftrightarrow> list_all (\<lambda>(i, a). i < 2 ^ 64 \<and> a < 2 ^ 32) P"

abbreviation pair_bytes :: "nat \<times> nat \<Rightarrow> bytes" where
  "pair_bytes p \<equiv> (case p of (i, a) \<Rightarrow> le_bytes 8 i @ le_bytes 4 a)"

lemma pairs_bytes_inj:
  "\<lbrakk>concat (map pair_bytes P) = concat (map pair_bytes Q); small_pairs P; small_pairs Q\<rbrakk> \<Longrightarrow> P = Q"
proof (induction P arbitrary: Q)
  case Nil
  then show ?case by (cases Q) (auto dest!: arg_cong [of _ _ length])
next
  case (Cons p P)
  obtain i a where p: "p = (i, a)" by (cases p)
  from Cons.prems(1) obtain q Q' where Q: "Q = q # Q'"
    by (cases Q) (auto simp: p dest!: arg_cong [of _ _ length])
  obtain j b where q: "q = (j, b)" by (cases q)
  have parts: "le_bytes 8 i = le_bytes 8 j" "le_bytes 4 a = le_bytes 4 b"
    "concat (map pair_bytes P) = concat (map pair_bytes Q')"
    using Cons.prems(1) by (simp_all add: p q Q)
  have small: "i < 256 ^ 8" "j < 256 ^ 8" "a < 256 ^ 4" "b < 256 ^ 4" "small_pairs P" "small_pairs Q'"
    using Cons.prems(2,3) by (simp_all add: p q Q small_pairs_def)
  show ?case
    using le_bytes_inj [OF parts(1) small(1,2)] le_bytes_inj [OF parts(2) small(3,4)]
      Cons.IH [OF parts(3) small(5,6)] by (simp add: p q Q)
qed

lemma key_input_set: "\<lbrakk>key_input P = key_input Q; small_pairs P; small_pairs Q\<rbrakk> \<Longrightarrow> set P = set Q"
proof -
  assume eq: "key_input P = key_input Q" and small: "small_pairs P" "small_pairs Q"
  have "sort P = sort Q"
    using eq small by (intro pairs_bytes_inj) (simp_all add: key_input_def small_pairs_def list_all_iff)
  then show ?thesis by (metis set_sort)
qed

section \<open>The life of a row\<close>

text \<open>What an operation other than a claim does to a row: it is left alone in its final states, it is
  given back under a new attempt, or it moves on under the key it has.\<close>

definition advances :: "outbox_row \<Rightarrow> outbox_row \<Rightarrow> bool" where
  "advances r r' \<longleftrightarrow> ob_id r' = ob_id r \<and> ob_parent r' = ob_parent r \<and> ob_event r' = ob_event r \<and>
     (ob_state r \<in> {ObDelivered, ObUndeliverable} \<longrightarrow> r' = r) \<and>
     (ob_attempts r' = ob_attempts r + 1 \<and> ob_key r' = None \<and> ob_state r' = ObPending \<and>
        ob_state r \<in> {ObClaimed, ObSent, ObAccepted} \<or>
      ob_attempts r' = ob_attempts r \<and> (ob_key r' = ob_key r \<or> ob_key r' = None) \<and>
        (ob_state r \<notin> {ObPending, ObClaimed} \<longrightarrow> ob_state r' \<notin> {ObPending, ObClaimed}) \<and>
        (ob_state r = ObUnconfirmed \<longrightarrow> ob_state r' \<in> {ObUnconfirmed, ObAccepted, ObDelivered}) \<and>
        (ob_state r = ObAccepted \<longrightarrow> ob_state r' \<in> {ObAccepted, ObDelivered}) \<and>
        (ob_state r \<noteq> ObClaimed \<longrightarrow> ob_state r' \<noteq> ObClaimed))"

lemma advances_refl [simp]: "advances r r"
  by (auto simp: advances_def)

lemma updates_advance:
  "(\<And>r. hit r \<Longrightarrow> advances r (upd r)) \<Longrightarrow> list_all2 advances rows (sql_update hit upd rows)"
  by (simp add: sql_update_def list_all2_conv_all_nth)

text \<open>Two updates whose conditions exclude each other are one.\<close>

lemma two_updates_advance:
  "\<lbrakk>\<And>r. hit1 r \<Longrightarrow> advances r (upd1 r); \<And>r. hit2 r \<Longrightarrow> advances r (upd2 r);
    \<And>r. hit1 r \<Longrightarrow> \<not> hit2 (upd1 r)\<rbrakk>
    \<Longrightarrow> list_all2 advances rows (sql_update hit2 upd2 (sql_update hit1 upd1 rows))"
  by (simp add: sql_update_def list_all2_conv_all_nth)

fun grows :: "outbox_op \<Rightarrow> bool" where
  "grows (OpPush _ _ _ _) = True"
| "grows (OpClaim _ _ _) = True"
| "grows _ = False"

lemmas outbox_ops = release_with_backoff_def unclaim_def rearm_def reopen_def reopened_def
  mark_sent_def mark_accepted_def mark_delivered_def mark_unconfirmed_def transition_def
  release_parent_def settle_undeliverable_def outbox_take_over_def keyed_def

lemma apply_advances:
  "\<not> grows op \<Longrightarrow> list_all2 advances rows (outbox_apply sha uu op rows)"
  by (cases op)
     (auto simp: outbox_ops Let_def advances_def intro!: updates_advance two_updates_advance)

definition claims :: "outbox_row \<Rightarrow> outbox_row \<Rightarrow> bool" where
  "claims r r' \<longleftrightarrow> ob_id r' = ob_id r \<and> ob_parent r' = ob_parent r \<and> ob_event r' = ob_event r \<and>
     ob_attempts r' = ob_attempts r \<and> (r' = r \<or> ob_state r = ObPending \<and> ob_state r' = ObClaimed)"

text \<open>The table is in the order of its ids, each its own.\<close>

definition ids_ascend :: "outbox_row list \<Rightarrow> bool" where
  "ids_ascend rows \<longleftrightarrow> sorted_wrt (<) (map ob_id rows)"

lemma ids_ascend_unique:
  "\<lbrakk>ids_ascend rows; r \<in> set rows; q \<in> set rows; ob_id r = ob_id q\<rbrakk> \<Longrightarrow> r = q"
  by (auto simp: ids_ascend_def strict_sorted_iff distinct_map inj_on_def)

lemma next_rowid_above: "r \<in> set rows \<Longrightarrow> ob_id r < next_rowid rows"
  by (auto simp: next_rowid_def less_Suc_eq_le)

lemma push_ascends: "ids_ascend rows \<Longrightarrow> ids_ascend (snd (outbox_push parent event edge now rows))"
  using next_rowid_above [of _ rows]
  by (auto simp: ids_ascend_def outbox_push_def Let_def sorted_wrt_append event_row_def)

lemma claim_is_update:
  assumes "ids_ascend rows"
  shows "snd (claim sha uu parent instance now rows) =
    sql_update (\<lambda>r. ob_parent r = parent \<and> is_due now r)
      (claim_row (batch_key sha uu (claim_pairs parent now rows)) instance now) rows"
proof -
  let ?due = "\<lambda>r. ob_parent r = parent \<and> is_due now r"
  have hit: "ob_id r \<in> set (map ob_id (filter ?due rows)) \<longleftrightarrow> ?due r" if "r \<in> set rows" for r
    using ids_ascend_unique [OF assms that] that by auto
  show ?thesis
  proof (cases "filter ?due rows = []")
    case True
    then have "\<forall>r \<in> set rows. \<not> ?due r" by (simp add: filter_empty_conv)
    then have "sql_update ?due upd rows = rows" for upd
      unfolding sql_update_def by (intro map_idI) auto
    then show ?thesis using True by (simp add: claim_def)
  next
    case False
    then show ?thesis
      using hit by (auto simp: claim_def Let_def sql_update_def claim_pairs_def)
  qed
qed

lemma claim_claims:
  "ids_ascend rows \<Longrightarrow> list_all2 claims rows (snd (claim sha uu parent instance now rows))"
  by (auto simp: claim_is_update sql_update_def list_all2_conv_all_nth claims_def claim_row_def is_due_def)

lemma same_ids: "list_all2 (\<lambda>r r'. ob_id r' = ob_id r) rows rows' \<Longrightarrow> map ob_id rows' = map ob_id rows"
  by (induction rule: list_all2_induct) auto

lemma apply_ascends:
  assumes "ids_ascend rows"
  shows "ids_ascend (outbox_apply sha uu op rows)"
proof -
  have keep: "ids_ascend rows'" if "list_all2 (\<lambda>r r'. ob_id r' = ob_id r) rows rows'" for rows'
    using assms same_ids [OF that] by (simp add: ids_ascend_def)
  show ?thesis
  proof (cases "grows op")
    case False
    show ?thesis
      by (rule keep, rule list_all2_mono [OF apply_advances [OF False]]) (simp add: advances_def)
  next
    case True
    have "ids_ascend (snd (claim sha uu parent inst now rows))" for parent inst now
      by (rule keep, rule list_all2_mono [OF claim_claims [OF assms]]) (simp add: claims_def)
    then show ?thesis using True push_ascends [OF assms] by (cases op) simp_all
  qed
qed

section \<open>Keys that were written\<close>

text \<open>The attempt \<open>a\<close> of row \<open>i\<close> is over: it has a later one, or was written and not given back.\<close>

definition spent :: "outbox_row list \<Rightarrow> nat \<Rightarrow> nat \<Rightarrow> bool" where
  "spent rows i a \<longleftrightarrow> (\<exists>r \<in> set rows. ob_id r = i \<and>
     (a < ob_attempts r \<or> a = ob_attempts r \<and> ob_state r \<notin> {ObPending, ObClaimed}))"

definition handed_under :: "(bytes \<Rightarrow> bytes) \<Rightarrow> (bytes \<Rightarrow> uuid) \<Rightarrow> (nat \<times> nat) list list \<Rightarrow> uuid \<Rightarrow> nat \<times> nat \<Rightarrow> bool" where
  "handed_under sha uu handed key p \<longleftrightarrow> (\<exists>P \<in> set handed. key = batch_key sha uu P \<and> p \<in> set P)"

definition outbox_inv ::
  "(bytes \<Rightarrow> bytes) \<Rightarrow> (bytes \<Rightarrow> uuid) \<Rightarrow> outbox_row list \<Rightarrow> uuid list \<Rightarrow> (nat \<times> nat) list list \<Rightarrow> bool" where
  "outbox_inv sha uu rows written handed \<longleftrightarrow> ids_ascend rows \<and>
     (\<forall>r \<in> set rows. \<forall>k. ob_key r = Some k \<longrightarrow> handed_under sha uu handed k (ob_id r, ob_attempts r)) \<and>
     (\<forall>k \<in> set written. \<exists>i a. handed_under sha uu handed k (i, a) \<and> spent rows i a)"

lemma handed_more: "handed_under sha uu handed k p \<Longrightarrow> handed_under sha uu (new @ handed) k p"
  by (auto simp: handed_under_def)

lemma spent_mono:
  assumes "spent rows i a"
    and "\<And>r. r \<in> set rows \<Longrightarrow> \<exists>r' \<in> set rows'. advances r r' \<or> claims r r'"
  shows "spent rows' i a"
proof -
  obtain r where r: "r \<in> set rows" "ob_id r = i"
    "a < ob_attempts r \<or> a = ob_attempts r \<and> ob_state r \<notin> {ObPending, ObClaimed}"
    using assms(1) by (auto simp: spent_def)
  obtain r' where r': "r' \<in> set rows'" "advances r r' \<or> claims r r'" using assms(2) [OF r(1)] by blast
  then have "ob_id r' = i" using r(2) by (auto simp: advances_def claims_def)
  moreover have "a < ob_attempts r' \<or> a = ob_attempts r' \<and> ob_state r' \<notin> {ObPending, ObClaimed}"
    using r(3) r'(2) by (auto simp: advances_def claims_def)
  ultimately show ?thesis using r'(1) by (auto simp: spent_def)
qed

lemma list_all2_image: "\<lbrakk>list_all2 R xs ys; x \<in> set xs\<rbrakk> \<Longrightarrow> \<exists>y \<in> set ys. R x y"
  by (induction rule: list_all2_induct) auto

lemma list_all2_preimage: "\<lbrakk>list_all2 R xs ys; y \<in> set ys\<rbrakk> \<Longrightarrow> \<exists>x \<in> set xs. R x y"
  by (induction rule: list_all2_induct) auto

lemma apply_image:
  assumes "ids_ascend rows" "r \<in> set rows"
  shows "\<exists>r' \<in> set (outbox_apply sha uu op rows). advances r r' \<or> claims r r'"
proof (cases "grows op")
  case False
  then show ?thesis using list_all2_image [OF apply_advances assms(2)] by blast
next
  case True
  show ?thesis
  proof (cases op)
    case (OpPush parent event edge now)
    then have "r \<in> set (outbox_apply sha uu op rows)" using assms(2) by (simp add: outbox_push_def Let_def)
    then show ?thesis by (intro bexI [of _ r]) simp_all
  next
    case (OpClaim parent inst now)
    then show ?thesis
      using list_all2_image [OF claim_claims [OF assms(1)] assms(2), of sha uu parent inst now] by auto
  qed (use True in simp_all)
qed

lemma keys_handed:
  assumes inv: "outbox_inv sha uu rows written handed"
    and r': "r' \<in> set (outbox_apply sha uu op rows)" "ob_key r' = Some k"
  shows "handed_under sha uu (hands_out op rows @ handed) k (ob_id r', ob_attempts r')"
proof -
  have ids: "ids_ascend rows" and keys: "r \<in> set rows \<Longrightarrow> ob_key r = Some k \<Longrightarrow>
      handed_under sha uu (hands_out op rows @ handed) k (ob_id r, ob_attempts r)" for r
    using inv handed_more by (auto simp: outbox_inv_def)
  show ?thesis
  proof (cases "grows op")
    case False
    obtain r where "r \<in> set rows" "advances r r'"
      using list_all2_preimage [OF apply_advances [OF False] r'(1)] by blast
    then show ?thesis using keys [of r] r'(2) by (auto simp: advances_def)
  next
    case True
    show ?thesis
    proof (cases op)
      case (OpPush parent event edge now)
      then have "r' \<in> set rows" using r' by (auto simp: outbox_push_def Let_def event_row_def split: if_splits)
      then show ?thesis using keys r'(2) by blast
    next
      case (OpClaim parent inst now)
      let ?due = "\<lambda>r. ob_parent r = parent \<and> is_due now r"
      obtain r where r: "r \<in> set rows"
        "r' = (if ?due r then claim_row (batch_key sha uu (claim_pairs parent now rows)) inst now r else r)"
        using r'(1) OpClaim claim_is_update [OF ids] by (auto elim: sql_updateE)
      show ?thesis
      proof (cases "?due r")
        case True
        then have here: "(ob_id r, ob_attempts r) \<in> set (claim_pairs parent now rows)"
          using r(1) by (auto simp: claim_pairs_def)
        then have "hands_out op rows = [claim_pairs parent now rows]" by (auto simp: OpClaim)
        then show ?thesis using here r(2) r'(2) True by (auto simp: claim_row_def handed_under_def)
      next
        case False
        then show ?thesis using keys r r'(2) by auto
      qed
    qed (use True in auto)
  qed
qed

lemma keyed_update_row:
  assumes "0 < sql_count (keyed k from) rows"
    and "\<And>r. ob_id (upd r) = ob_id r \<and> ob_attempts (upd r) = ob_attempts r \<and> ob_state (upd r) \<notin> {ObPending, ObClaimed}"
  shows "\<exists>r \<in> set rows. \<exists>r' \<in> set (sql_update (keyed k from) upd rows). ob_key r = Some k \<and>
    ob_id r' = ob_id r \<and> ob_attempts r' = ob_attempts r \<and> ob_state r' \<notin> {ObPending, ObClaimed}"
proof -
  have "sql_count (keyed k from) rows \<noteq> 0" using assms(1) by simp
  then obtain r where r: "r \<in> set rows" "keyed k from r" unfolding sql_count_0 by blast
  then have "upd r \<in> set (sql_update (keyed k from) upd rows)" by (auto simp: in_sql_update)
  then show ?thesis using r assms(2) [of r] by (auto simp: keyed_def)
qed

lemma written_row:
  assumes "k \<in> set (proves_written op rows)"
  shows "\<exists>r \<in> set rows. \<exists>r' \<in> set (outbox_apply sha uu op rows). ob_key r = Some k \<and>
    ob_id r' = ob_id r \<and> ob_attempts r' = ob_attempts r \<and> ob_state r' \<notin> {ObPending, ObClaimed}"
proof (cases op)
  case (OpSent key)
  then show ?thesis using assms keyed_update_row [of k _ rows "\<lambda>r. r\<lparr>ob_state := ObSent\<rparr>"]
    by (simp add: mark_sent_def transition_def split: if_splits)
next
  case (OpAccepted key now)
  then show ?thesis
    using assms keyed_update_row [of k _ rows "\<lambda>r. r\<lparr>ob_state := ObAccepted, ob_accepted_at := Some now\<rparr>"]
    by (simp add: mark_accepted_def transition_def split: if_splits)
next
  case (OpDelivered key now)
  then show ?thesis
    using assms keyed_update_row [of k _ rows "\<lambda>r. r\<lparr>ob_state := ObDelivered, ob_delivered_at := Some now\<rparr>"]
    by (simp add: mark_delivered_def transition_def split: if_splits)
qed (use assms in auto)

lemma outbox_inv_step:
  assumes inv: "outbox_inv sha uu rows written handed"
  shows "outbox_inv sha uu (outbox_apply sha uu op rows) (proves_written op rows @ written) (hands_out op rows @ handed)"
proof -
  let ?rows' = "outbox_apply sha uu op rows" and ?handed' = "hands_out op rows @ handed"
  have ids: "ids_ascend rows" using inv by (simp add: outbox_inv_def)
  have old: "\<exists>i a. handed_under sha uu ?handed' k (i, a) \<and> spent ?rows' i a" if k: "k \<in> set written" for k
  proof -
    obtain i a where "handed_under sha uu handed k (i, a)" "spent rows i a"
      using inv k by (auto simp: outbox_inv_def)
    then show ?thesis using handed_more spent_mono [OF _ apply_image [OF ids]] by blast
  qed
  have new: "\<exists>i a. handed_under sha uu ?handed' k (i, a) \<and> spent ?rows' i a"
    if k: "k \<in> set (proves_written op rows)" for k
  proof -
    obtain r r' where r: "r \<in> set rows" "r' \<in> set ?rows'" "ob_key r = Some k" "ob_id r' = ob_id r"
      "ob_attempts r' = ob_attempts r" "ob_state r' \<notin> {ObPending, ObClaimed}"
      using written_row [OF k, of sha uu] by blast
    have "handed_under sha uu handed k (ob_id r, ob_attempts r)" using inv r(1,3) by (simp add: outbox_inv_def)
    moreover have "spent ?rows' (ob_id r) (ob_attempts r)" using r by (auto simp: spent_def)
    ultimately show ?thesis using handed_more by blast
  qed
  show ?thesis
    using apply_ascends [OF ids] keys_handed [OF inv] old new unfolding outbox_inv_def by auto
qed

lemma outbox_inv_run:
  "\<lbrakk>outbox_run sha uu ops (rows, written, handed) = (rows', written', handed'); outbox_inv sha uu rows written handed\<rbrakk>
    \<Longrightarrow> outbox_inv sha uu rows' written' handed'"
  by (induction ops arbitrary: rows written handed) (auto intro: outbox_inv_step)

text \<open>C7: A key under which a line was written to a parent is never handed out for another
  delivery, however often rows are given back, released, taken over by another instance or sent
  again: unless the digest of two different batches collides, the key of every later claim is
  new to the parent's CLI.\<close>

theorem written_keys_stay_used:
  assumes "outbox_run sha uu ops ([], [], []) = (rows, written, handed)"
    and "claim sha uu parent inst now rows = (Some b, rows')"
    and "\<forall>P \<in> set (claim_pairs parent now rows # handed). small_pairs P"
    and "\<forall>P \<in> set handed. batch_key sha uu P = bt_key b \<longrightarrow> key_input P = key_input (claim_pairs parent now rows)"
  shows "bt_key b \<notin> set written"
proof
  assume "bt_key b \<in> set written"
  have inv: "outbox_inv sha uu rows written handed"
    using outbox_inv_run [OF assms(1)] by (simp add: outbox_inv_def ids_ascend_def)
  then obtain i a P where P: "P \<in> set handed" "bt_key b = batch_key sha uu P" "(i, a) \<in> set P" and spent: "spent rows i a"
    using \<open>bt_key b \<in> set written\<close> by (fastforce simp: outbox_inv_def handed_under_def)
  have "set P = set (claim_pairs parent now rows)"
    using assms(3,4) P(1,2) by (intro key_input_set) auto
  then obtain r where r: "r \<in> set rows" "is_due now r" "ob_id r = i" "ob_attempts r = a"
    using P(3) by (auto simp: claim_pairs_def)
  obtain q where q: "q \<in> set rows" "ob_id q = i"
    "a < ob_attempts q \<or> a = ob_attempts q \<and> ob_state q \<notin> {ObPending, ObClaimed}"
    using spent by (auto simp: spent_def)
  have "q = r" using ids_ascend_unique [of rows q r] inv q(1,2) r by (simp add: outbox_inv_def)
  then show False using q(3) r by (auto simp: is_due_def)
qed

text \<open>A change of ids deletes the row that clashes with the changed one; without \<open>AUTOINCREMENT\<close> the
  next event gets its rowid, and with it a key that was used.\<close>

definition sample_event :: "utext \<Rightarrow> child_event" where
  "sample_event child = \<lparr>ev_kind = EvFinished, ev_child = child, ev_depth = 1, ev_title = [], ev_status = None,
     ev_result = None, ev_permit = None\<rparr>"

definition sample_delivery ::
  "(bytes \<Rightarrow> bytes) \<Rightarrow> (bytes \<Rightarrow> uuid) \<Rightarrow> utext \<Rightarrow> utext \<Rightarrow> outbox_row list \<Rightarrow> outbox_batch option \<times> outbox_row list" where
  "sample_delivery sha uu child edge rows =
     (case claim sha uu [1] [2] 0 (snd (outbox_push [1] (sample_event child) edge 0 rows)) of
        (None, rows') \<Rightarrow> (None, rows')
      | (Some b, rows') \<Rightarrow> (Some b, snd (mark_delivered (bt_key b) 0 (snd (mark_sent (bt_key b) rows')))))"

text \<open>The outbox never sends the parent's CLI a key it has seen is not so across a change of session
  ids: the row dropped as a duplicate frees its rowid, and the next event is claimed under the
  key that already delivered another.\<close>

theorem rekey_frees_a_used_key:
  "let (b1, rows1) = sample_delivery sha uu [7] [0] [];
       (b2, rows2) = sample_delivery sha uu [8] [0] rows1;
       (b3, rows3) = sample_delivery sha uu [8] [1] (outbox_rekey [7] [8] rows2)
   in map_option bt_key b3 = map_option bt_key b2 \<and>
      map_option (\<lambda>b. map ob_edge (bt_rows b)) b2 = Some [[0]] \<and>
      map_option (\<lambda>b. map ob_edge (bt_rows b)) b3 = Some [[1]]"
  by (simp add: sample_delivery_def sample_event_def outbox_push_def event_row_def next_rowid_def Let_def claim_def
    is_due_def claim_row_def mark_sent_def mark_delivered_def transition_def keyed_def outbox_rekey_def sql_replace_def same_edge_def)

section \<open>Settled rows\<close>

lemma updates_relate:
  "(\<And>r. R r (if hit r then upd r else r)) \<Longrightarrow> list_all2 R rows (sql_update hit upd rows)"
  by (simp add: sql_update_def list_all2_conv_all_nth)

lemma two_updates_relate:
  "(\<And>r. R r (if hit2 (if hit1 r then upd1 r else r) then upd2 (if hit1 r then upd1 r else r)
              else if hit1 r then upd1 r else r))
    \<Longrightarrow> list_all2 R rows (sql_update hit2 upd2 (sql_update hit1 upd1 rows))"
  by (simp add: sql_update_def list_all2_conv_all_nth)

definition given_back :: "outbox_op \<Rightarrow> outbox_row \<Rightarrow> outbox_row \<Rightarrow> bool" where
  "given_back op r r' \<longleftrightarrow> ob_attempts r' = ob_attempts r + 1 \<and>
     (\<exists>k. ob_key r = Some k \<and>
        (op = OpUnclaim k \<and> ob_state r = ObSent \<or> op = OpRearm k \<and> ob_state r = ObAccepted))"

definition settles :: "outbox_op \<Rightarrow> outbox_row \<Rightarrow> outbox_row \<Rightarrow> bool" where
  "settles op r r' \<longleftrightarrow> (ob_state r \<notin> {ObPending, ObClaimed} \<longrightarrow>
     ob_id r' = ob_id r \<and> ob_event r' = ob_event r \<and> (ob_state r \<in> {ObDelivered, ObUndeliverable} \<longrightarrow> r' = r) \<and>
     (ob_state r' \<in> {ObPending, ObClaimed} \<longrightarrow> given_back op r r'))"

lemma apply_settles:
  "\<not> grows op \<Longrightarrow> list_all2 (settles op) rows (outbox_apply sha uu op rows)"
  by (cases op)
     (auto simp: outbox_ops Let_def settles_def given_back_def intro!: updates_relate two_updates_relate)

text \<open>A row whose line was written, accepted or given up on stays what it is: a delivered or
  undeliverable row never changes again, and a line is owed once more only when the CLI
  dropped it unread or the turn that had taken it was interrupted, each time as a new attempt.\<close>

theorem settled_rows_stay_settled:
  assumes "outbox_run sha uu ops ([], [], []) = (rows, written, handed)"
    and "r \<in> set rows" "ob_state r \<notin> {ObPending, ObClaimed}"
  shows "\<exists>r' \<in> set (outbox_apply sha uu op rows). ob_id r' = ob_id r \<and> ob_event r' = ob_event r \<and>
    (ob_state r \<in> {ObDelivered, ObUndeliverable} \<longrightarrow> r' = r) \<and>
    (ob_state r' \<in> {ObPending, ObClaimed} \<longrightarrow> given_back op r r')"
proof (cases "grows op")
  case False
  then show ?thesis
    using list_all2_image [OF apply_settles assms(2)] assms(3) by (fastforce simp: settles_def)
next
  case True
  have "ids_ascend rows"
    using outbox_inv_run [OF assms(1)] by (simp add: outbox_inv_def ids_ascend_def)
  then have "r \<in> set (outbox_apply sha uu op rows)"
    using True assms(2,3)
    by (cases op) (auto simp: outbox_push_def Let_def claim_is_update in_sql_update is_due_def intro!: bexI [of _ r])
  then show ?thesis using assms(3) by (intro bexI [of _ r]) auto
qed

section \<open>Claims\<close>

text \<open>A claim hands out every row due to the parent, oldest first, and leaves none of them to be
  handed out again; it finds something exactly for the parents the sweep names.\<close>

theorem claim_takes_all_due:
  assumes "outbox_run sha uu ops ([], [], []) = (rows, written, handed)"
  shows "(fst (claim sha uu parent inst now rows) \<noteq> None \<longleftrightarrow> parent \<in> set (parents_with_pending now rows)) \<and>
    (\<forall>b. fst (claim sha uu parent inst now rows) = Some b \<longrightarrow>
       batch_events b = map ob_event (filter (\<lambda>r. ob_parent r = parent \<and> is_due now r) rows) \<and>
       sorted_wrt (<) (map ob_id (bt_rows b))) \<and>
    fst (claim sha uu parent inst2 now (snd (claim sha uu parent inst now rows))) = None"
proof -
  have ids: "ids_ascend rows"
    using outbox_inv_run [OF assms(1)] by (simp add: outbox_inv_def ids_ascend_def)
  let ?due = "\<lambda>r. ob_parent r = parent \<and> is_due now r"
  have some: "fst (claim sha uu parent inst now rows) \<noteq> None \<longleftrightarrow> parent \<in> set (parents_with_pending now rows)"
    by (auto simp: claim_def Let_def parents_with_pending_def filter_empty_conv)
  have "sorted_wrt (<) (map ob_id (filter ?due rows))"
    using ids by (induction rows) (auto simp: ids_ascend_def)
  then have batch: "fst (claim sha uu parent inst now rows) = Some b \<longrightarrow>
      batch_events b = map ob_event (filter ?due rows) \<and> sorted_wrt (<) (map ob_id (bt_rows b))" for b
    by (auto simp: claim_def Let_def batch_events_def comp_def)
  have "\<not> is_due now (claim_row key inst now r)" for key r by (simp add: is_due_def claim_row_def)
  then have "\<not> ?due r" if r: "r \<in> set (snd (claim sha uu parent inst now rows))" for r
    using r unfolding claim_is_update [OF ids] by (elim sql_updateE) (metis (full_types))
  then have "filter ?due (snd (claim sha uu parent inst now rows)) = []"
    unfolding filter_empty_conv by blast
  then have "fst (claim sha uu parent inst2 now (snd (claim sha uu parent inst now rows))) = None"
    by (subst claim_def) (simp only: Let_def fst_conv if_True simp_thms)
  with some batch show ?thesis by blast
qed

lemma backoff_bounds: "1 \<le> backoff_s n \<and> backoff_s n \<le> 60"
  by (auto simp: backoff_s_def BACKOFF_START_S_def BACKOFF_CAP_S_def push_bit_eq_mult)

lemma backoff_doubles: "1 \<le> n \<Longrightarrow> backoff_s (n + 1) = min (2 * backoff_s n) 60"
proof -
  assume n: "1 \<le> n"
  show ?thesis
  proof (cases "n \<le> 16")
    case True
    then have "min (n + 1 - 1) 16 = Suc (min (n - 1) 16)" using n by simp
    then show ?thesis by (simp add: backoff_s_def BACKOFF_START_S_def BACKOFF_CAP_S_def push_bit_eq_mult min_def)
  next
    case False
    then show ?thesis by (simp add: backoff_s_def BACKOFF_START_S_def BACKOFF_CAP_S_def push_bit_eq_mult)
  qed
qed

section \<open>Instances\<close>

text \<open>One event pushed, claimed, written and dropped unread.\<close>

definition sample_ops :: "outbox_op list" where
  "sample_ops = [OpPush [1] (sample_event [7]) [0] 0, OpClaim [1] [2] 0, OpSent (batch_key rev id [(1, 0)]),
     OpUnclaim (batch_key rev id [(1, 0)])]"

lemma outbox_run_pair:
  "outbox_run sha uu ops st = (fst (outbox_run sha uu ops st), fst (snd (outbox_run sha uu ops st)),
     snd (snd (outbox_run sha uu ops st)))"
  by simp

lemma sample_run:
  "outbox_run rev id sample_ops ([], [], []) =
     ([(event_row 1 [1] (sample_event [7]) [0] 0)\<lparr>ob_attempts := 1\<rparr>], [batch_key rev id [(1, 0)]], [[(1, 0)]])"
  "snd (claim rev id [1] [2] 5 [(event_row 1 [1] (sample_event [7]) [0] 0)\<lparr>ob_attempts := 1\<rparr>]) =
     [claim_row (batch_key rev id [(1, 1)]) [2] 5 ((event_row 1 [1] (sample_event [7]) [0] 0)\<lparr>ob_attempts := 1\<rparr>)]"
  by (simp_all add: sample_ops_def sample_event_def outbox_push_def event_row_def next_rowid_def Let_def claim_def
    is_due_def claim_row_def mark_sent_def transition_def unclaim_def reopen_def reopened_def keyed_def
    sql_count_def claim_pairs_def)

lemma sample_keys_differ: "batch_key rev id [(1, 0)] \<noteq> batch_key rev id [(1, 1)]"
  by code_simp

theorem written_keys_stay_used_witness:
  "\<exists>b. fst (claim rev id [1] [2] 5 (fst (outbox_run rev id sample_ops ([], [], [])))) = Some b \<and>
     bt_key b \<noteq> batch_key rev id [(1, 0)]"
proof -
  let ?rows = "[(event_row 1 [1] (sample_event [7]) [0] 0)\<lparr>ob_attempts := 1\<rparr>]"
  have pairs: "claim_pairs [1] 5 ?rows = [(1, 1)]"
    by (simp add: claim_pairs_def is_due_def event_row_def)
  obtain b rows' where b: "claim rev id [1] [2] 5 ?rows = (Some b, rows')" "bt_key b = batch_key rev id [(1, 1)]"
    by (simp add: claim_def Let_def is_due_def event_row_def)
  have "bt_key b \<notin> set [batch_key rev id [(1, 0)]]"
    by (rule written_keys_stay_used [OF sample_run(1) b(1)])
       (use sample_keys_differ b(2) in \<open>simp_all add: pairs [simplified] small_pairs_def\<close>)
  then show ?thesis using b(1) by (auto simp: sample_run(1))
qed

theorem settled_rows_stay_settled_witness:
  "\<exists>r'. r' \<in> set (outbox_apply rev id (OpUnclaim (batch_key rev id [(1, 0)]))
       [(event_row 1 [1] (sample_event [7]) [0] 0)\<lparr>ob_state := ObSent, ob_claimed_by := Some [2], ob_claimed_at := Some 0,
          ob_key := Some (batch_key rev id [(1, 0)])\<rparr>]) \<and> ob_id r' = 1 \<and> ob_event r' = sample_event [7]"
proof -
  let ?r = "(event_row 1 [1] (sample_event [7]) [0] 0)\<lparr>ob_state := ObSent, ob_claimed_by := Some [2],
    ob_claimed_at := Some 0, ob_key := Some (batch_key rev id [(1, 0)])\<rparr>"
  have run: "outbox_run rev id (take 3 sample_ops) ([], [], []) = ([?r], [batch_key rev id [(1, 0)]], [[(1, 0)]])"
    by (simp add: sample_ops_def sample_event_def outbox_push_def event_row_def next_rowid_def Let_def claim_def
      is_due_def claim_row_def mark_sent_def transition_def keyed_def sql_count_def claim_pairs_def)
  show ?thesis
    using settled_rows_stay_settled [OF run, of ?r "OpUnclaim (batch_key rev id [(1, 0)])"]
    by (auto simp: event_row_def)
qed

theorem claim_takes_all_due_witness:
  "[1] \<in> set (parents_with_pending 5 [(event_row 1 [1] (sample_event [7]) [0] 0)\<lparr>ob_attempts := 1\<rparr>]) \<and>
   fst (claim rev id [1] [2] 5 [(event_row 1 [1] (sample_event [7]) [0] 0)\<lparr>ob_attempts := 1\<rparr>]) \<noteq> None"
proof -
  have "[1] \<in> set (parents_with_pending 5 [(event_row 1 [1] (sample_event [7]) [0] 0)\<lparr>ob_attempts := 1\<rparr>])"
    by (simp add: parents_with_pending_def is_due_def event_row_def)
  then show ?thesis using claim_takes_all_due [OF sample_run(1), of "[1]" "[2]" 5] by blast
qed

end
