(* ===== verification/Resume_Governor.thy ===== *)
theory Resume_Governor
  imports Send_Receipts "HOL-Library.Sublist"
begin

text \<open>
  Which recovery turns a restart may run together
  (\<open>crates/agents/src/resume_governor.rs\<close>): at most \<open>cap\<close> run, the rest wait in arrival order.
  The SHA-256 digest of a continuation id is a parameter.
\<close>

definition DEFAULT_MAX_RESUMES :: nat where "DEFAULT_MAX_RESUMES = 3"

definition continuation_id :: "(string \<Rightarrow> bytes) \<Rightarrow> (u64 \<Rightarrow> string) \<Rightarrow> string \<Rightarrow> u64 \<Rightarrow> string" where
  "continuation_id sha shown child restart_epoch =
     (let digest = sha (''resume'' @ [CHR 0x00] @ child @ [CHR 0x00] @ shown restart_epoch)
      in ''resume-'' @ hex_text (take 16 digest))"

datatype resume_grant = ResumeGranted | ResumeQueued nat | ResumeKnown

record resume_governor =
  rg_cap :: nat
  rg_running :: "string list"
  rg_waiting :: "string list"

definition governor_new :: "u32 \<Rightarrow> resume_governor" where
  "governor_new cap = \<lparr>rg_cap = unat (max cap 1), rg_running = [], rg_waiting = []\<rparr>"

definition resume_request :: "string \<Rightarrow> resume_governor \<Rightarrow> resume_grant \<times> resume_governor" where
  "resume_request child g =
     (if child \<in> set (rg_running g @ rg_waiting g) then (ResumeKnown, g)
      else if length (rg_running g) < rg_cap g
      then (ResumeGranted, g\<lparr>rg_running := rg_running g @ [child]\<rparr>)
      else (let w = rg_waiting g @ [child] in (ResumeQueued (length w - 1), g\<lparr>rg_waiting := w\<rparr>)))"

text \<open>The loop that fills the freed slots; it pops the line, so it ends.\<close>

fun fill_slots :: "nat \<Rightarrow> string list \<Rightarrow> string list \<Rightarrow> string list \<Rightarrow> string list \<times> string list \<times> string list" where
  "fill_slots cap running [] granted = (granted, running, [])"
| "fill_slots cap running (next # waiting) granted =
     (if length running < cap then fill_slots cap (running @ [next]) waiting (granted @ [next])
      else (granted, running, next # waiting))"

definition resume_release :: "string \<Rightarrow> resume_governor \<Rightarrow> string list \<times> resume_governor" where
  "resume_release child g =
     (let waiting = filter (\<lambda>c. c \<noteq> child) (rg_waiting g);
          running = filter (\<lambda>c. c \<noteq> child) (rg_running g)
      in if length running = length (rg_running g)
         then ([], g\<lparr>rg_running := running, rg_waiting := waiting\<rparr>)
         else (let (granted, running', waiting') = fill_slots (rg_cap g) running waiting []
               in (granted, g\<lparr>rg_running := running', rg_waiting := waiting'\<rparr>)))"

definition governor_position :: "string \<Rightarrow> resume_governor \<Rightarrow> nat option" where
  "governor_position child g =
     (let i = length (takeWhile (\<lambda>c. c \<noteq> child) (rg_waiting g))
      in if i < length (rg_waiting g) then Some i else None)"

definition governor_idle :: "resume_governor \<Rightarrow> bool" where
  "governor_idle g \<longleftrightarrow> rg_running g = [] \<and> rg_waiting g = []"

section \<open>The line\<close>

datatype resume_op = Request string | Release string

fun governor_apply :: "resume_op \<Rightarrow> resume_governor \<Rightarrow> string list \<times> resume_governor" where
  "governor_apply (Request c) g =
     (let (gr, g') = resume_request c g in (if gr = ResumeGranted then [c] else [], g'))"
| "governor_apply (Release c) g = resume_release c g"

text \<open>The children started by a run of operations, in order.\<close>

fun governor_run :: "resume_op list \<Rightarrow> resume_governor \<Rightarrow> string list \<times> resume_governor" where
  "governor_run [] g = ([], g)"
| "governor_run (op # ops) g =
     (let (s, g') = governor_apply op g; (s', g'') = governor_run ops g' in (s @ s', g''))"

definition governor_ok :: "resume_governor \<Rightarrow> bool" where
  "governor_ok g \<longleftrightarrow> length (rg_running g) \<le> rg_cap g \<and> distinct (rg_running g @ rg_waiting g) \<and>
     (length (rg_running g) = rg_cap g \<or> rg_waiting g = [])"

lemma fill_slots_spec:
  "length running \<le> cap \<Longrightarrow> fill_slots cap running waiting granted =
     (let n = cap - length running in
      (granted @ take n waiting, running @ take n waiting, drop n waiting))"
proof (induction cap running waiting granted rule: fill_slots.induct)
  case (2 cap running w waiting granted)
  show ?case
  proof (cases "length running < cap")
    case True
    then obtain k where "cap - length running = Suc k" using less_imp_Suc_add by (metis Suc_diff_Suc)
    moreover from this have "cap - Suc (length running) = k" by simp
    ultimately show ?thesis using 2 True by (simp add: Let_def)
  next
    case False
    then show ?thesis using 2(2) by (simp add: Let_def)
  qed
qed simp

lemma governor_ok_new: "governor_ok (governor_new cap)"
  by (simp add: governor_ok_def governor_new_def)

lemma governor_ok_request: "governor_ok g \<Longrightarrow> governor_ok (snd (resume_request c g))"
  by (auto simp: governor_ok_def resume_request_def Let_def)

lemma filter_line: "filter (\<lambda>c. c \<noteq> x) xs = xs \<longleftrightarrow> x \<notin> set xs"
  by (simp add: filter_id_conv) blast

lemma length_without: "\<lbrakk>distinct xs; x \<in> set xs\<rbrakk> \<Longrightarrow> length (filter (\<lambda>y. y \<noteq> x) xs) = length xs - 1"
proof (induction xs)
  case (Cons y ys)
  have "filter (\<lambda>z. z \<noteq> x) ys = ys" if "y = x" using Cons.prems(1) that by (simp add: filter_line)
  moreover have "0 < length ys" if "y \<noteq> x" using Cons.prems(2) that by (cases ys) auto
  ultimately show ?case using Cons by auto
qed simp

text \<open>What a release of a running child leaves: the line moves up into the freed slots.\<close>

lemma release_running:
  assumes "governor_ok g" "c \<in> set (rg_running g)"
  shows "resume_release c g =
    (take 1 (rg_waiting g), g\<lparr>rg_running := filter (\<lambda>x. x \<noteq> c) (rg_running g) @ take 1 (rg_waiting g),
                              rg_waiting := drop 1 (rg_waiting g)\<rparr>)"
proof -
  have ok: "length (rg_running g) \<le> rg_cap g" "distinct (rg_running g @ rg_waiting g)"
    "length (rg_running g) = rg_cap g \<or> rg_waiting g = []"
    using assms(1) by (auto simp: governor_ok_def)
  obtain k where k: "length (rg_running g) = Suc k" using assms(2) by (cases "rg_running g") auto
  have one: "length (filter (\<lambda>x. x \<noteq> c) (rg_running g)) = k"
    using ok(2) assms(2) k by (simp add: length_without)
  have w: "filter (\<lambda>x. x \<noteq> c) (rg_waiting g) = rg_waiting g"
    using ok(2) assms(2) by (auto simp: filter_line)
  have n: "take (rg_cap g - k) (rg_waiting g) = take 1 (rg_waiting g)"
    "drop (rg_cap g - k) (rg_waiting g) = drop 1 (rg_waiting g)"
  proof -
    have "rg_waiting g = [] \<or> rg_cap g - k = 1" using ok(3) k by linarith
    then show "take (rg_cap g - k) (rg_waiting g) = take 1 (rg_waiting g)"
      "drop (rg_cap g - k) (rg_waiting g) = drop 1 (rg_waiting g)" by (elim disjE, simp_all)+
  qed
  show ?thesis using one k ok(1) n unfolding resume_release_def Let_def w
    by (simp add: fill_slots_spec Let_def)
qed

lemma release_other:
  assumes "c \<notin> set (rg_running g)"
  shows "resume_release c g = ([], g\<lparr>rg_waiting := filter (\<lambda>x. x \<noteq> c) (rg_waiting g)\<rparr>)"
  using assms filter_line [of c "rg_running g"] by (simp add: resume_release_def Let_def)

lemma governor_ok_release: "governor_ok g \<Longrightarrow> governor_ok (snd (resume_release c g))"
proof (cases "c \<in> set (rg_running g)")
  case True
  assume ok: "governor_ok g"
  have "length (filter (\<lambda>x. x \<noteq> c) (rg_running g)) = length (rg_running g) - 1"
    using ok True by (simp add: governor_ok_def length_without)
  moreover obtain k where "length (rg_running g) = Suc k" using True by (cases "rg_running g") auto
  ultimately show ?thesis using ok True
    by (cases "rg_waiting g") (auto simp: release_running governor_ok_def)
next
  case False
  assume "governor_ok g"
  then show ?thesis using False by (auto simp: release_other governor_ok_def)
qed

section \<open>Order\<close>

text \<open>The children the operations put in the line or started at once, in order of arrival.\<close>

fun accepted :: "resume_op list \<Rightarrow> resume_governor \<Rightarrow> string list" where
  "accepted [] g = []"
| "accepted (Request c # ops) g =
     (if fst (resume_request c g) = ResumeKnown then [] else [c]) @ accepted ops (snd (resume_request c g))"
| "accepted (Release c # ops) g = accepted ops (snd (resume_release c g))"

lemma governor_run_step:
  "governor_run (op # ops) g =
     (fst (governor_apply op g) @ fst (governor_run ops (snd (governor_apply op g))),
      snd (governor_run ops (snd (governor_apply op g))))"
  by (simp split: prod.splits)

lemma apply_request:
  "governor_apply (Request c) g =
     (if fst (resume_request c g) = ResumeGranted then [c] else [], snd (resume_request c g))"
  by (simp split: prod.splits)

lemma run_in_order:
  "governor_ok g \<Longrightarrow> governor_ok (snd (governor_run ops g)) \<and> rg_cap (snd (governor_run ops g)) = rg_cap g \<and>
     subseq (fst (governor_run ops g) @ rg_waiting (snd (governor_run ops g))) (rg_waiting g @ accepted ops g)"
proof (induction ops arbitrary: g)
  case (Cons op ops)
  obtain s1 g1 where one: "governor_apply op g = (s1, g1)" by force
  obtain acc where acc: "accepted (op # ops) g = acc @ accepted ops g1"
    and moved: "subseq (s1 @ rg_waiting g1) (rg_waiting g @ acc)"
    and ok: "governor_ok g1" and cap: "rg_cap g1 = rg_cap g"
  proof (cases op)
    case (Request c)
    let ?a = "if fst (resume_request c g) = ResumeKnown then [] else [c]"
    have g1: "g1 = snd (resume_request c g)" "s1 = (if fst (resume_request c g) = ResumeGranted then [c] else [])"
      using one unfolding Request apply_request by simp_all
    have "subseq (s1 @ rg_waiting g1) (rg_waiting g @ ?a)"
      using Cons.prems by (auto simp: g1 resume_request_def Let_def governor_ok_def)
    moreover have "rg_cap g1 = rg_cap g" by (simp add: g1 resume_request_def Let_def)
    ultimately show ?thesis
      using that [of ?a] governor_ok_request [OF Cons.prems, of c] by (simp add: Request g1)
  next
    case (Release c)
    have g1: "resume_release c g = (s1, g1)" using one by (simp add: Release)
    have "subseq (s1 @ rg_waiting g1) (rg_waiting g @ []) \<and> rg_cap g1 = rg_cap g"
    proof (cases "c \<in> set (rg_running g)")
      case True
      have "s1 @ rg_waiting g1 = rg_waiting g" "rg_cap g1 = rg_cap g"
        using g1 by (auto simp: release_running [OF Cons.prems True])
      then show ?thesis by simp
    next
      case False
      then show ?thesis using g1 by (auto simp: release_other)
    qed
    then show ?thesis
      using that [of "[]"] governor_ok_release [OF Cons.prems, of c] by (simp add: Release g1)
  qed
  have "subseq (s1 @ (fst (governor_run ops g1) @ rg_waiting (snd (governor_run ops g1))))
          (s1 @ (rg_waiting g1 @ accepted ops g1))"
    by (rule list_emb_append_mono [OF subseq_order.refl]) (use Cons.IH [OF ok] in blast)
  moreover have "subseq ((s1 @ rg_waiting g1) @ accepted ops g1) ((rg_waiting g @ acc) @ accepted ops g1)"
    using moved by (rule list_emb_append_mono) simp
  ultimately have "subseq (s1 @ fst (governor_run ops g1) @ rg_waiting (snd (governor_run ops g1)))
      (rg_waiting g @ acc @ accepted ops g1)"
    unfolding append_assoc by (rule subseq_order.trans)
  then show ?case using Cons.IH [OF ok] cap unfolding governor_run_step one fst_conv snd_conv acc append_assoc by simp
qed simp

text \<open>
  C37: However recovery turns are asked for and end, never more than the cap run together (one, when
  the cap is zero), no child is started or waiting twice, nobody waits while a slot is free, and
  children start in the order they arrived.
\<close>

theorem recovery_turns_queue:
  "let (started, g) = governor_run ops (governor_new cap) in
     length (rg_running g) \<le> unat (max cap 1) \<and> distinct (rg_running g @ rg_waiting g) \<and>
     (length (rg_running g) = unat (max cap 1) \<or> rg_waiting g = []) \<and>
     subseq (started @ rg_waiting g) (accepted ops (governor_new cap))"
proof -
  obtain started g where r: "governor_run ops (governor_new cap) = (started, g)" by force
  have "governor_ok g" "rg_cap g = unat (max cap 1)"
    "subseq (started @ rg_waiting g) (rg_waiting (governor_new cap) @ accepted ops (governor_new cap))"
    using run_in_order [OF governor_ok_new, of ops cap] unfolding r by (simp_all add: governor_new_def)
  moreover have "rg_waiting (governor_new cap) = []" by (simp add: governor_new_def)
  ultimately show ?thesis unfolding r by (auto simp: governor_ok_def)
qed

end
