(* ===== verification/Rust_Text.thy ===== *)
theory Rust_Text
  imports Prelude
begin

text \<open>
  The operations of \<open>str\<close> that several parts of the program use on their texts, which are lists of
  code points: trimming of white space, splitting into lines, prefixes, joining and the length of
  the UTF-8 form.
\<close>

definition is_whitespace :: "nat \<Rightarrow> bool" where
  "is_whitespace c \<longleftrightarrow> 9 \<le> c \<and> c \<le> 13 \<or> c = 32 \<or> c = 0x85 \<or> c = 0xA0 \<or> c = 0x1680 \<or>
     0x2000 \<le> c \<and> c \<le> 0x200A \<or> c \<in> {0x2028, 0x2029, 0x202F, 0x205F, 0x3000}"

definition trim_start :: "utext \<Rightarrow> utext" where
  "trim_start t = dropWhile is_whitespace t"

definition trim_end :: "utext \<Rightarrow> utext" where
  "trim_end t = rev (dropWhile is_whitespace (rev t))"

definition trim_text :: "utext \<Rightarrow> utext" where
  "trim_text t = trim_end (trim_start t)"

text \<open>\<open>str::lines\<close>: a final newline ends the last line, a line loses one carriage return.\<close>

definition chomp_cr :: "utext \<Rightarrow> utext" where
  "chomp_cr l = (if l \<noteq> [] \<and> last l = 13 then butlast l else l)"

definition text_lines :: "utext \<Rightarrow> utext list" where
  "text_lines t =
     (let ls = split_on 10 t in map chomp_cr (butlast ls) @ (if last ls = [] then [] else [last ls]))"

text \<open>\<open>String::len\<close>: the bytes of its UTF-8 form.\<close>

definition utf8_len :: "utext \<Rightarrow> nat" where
  "utf8_len t = sum_list (map (\<lambda>c. if c < 0x80 then 1 else if c < 0x800 then 2 else if c < 0x10000 then 3 else 4) t)"

definition join_text :: "utext \<Rightarrow> utext list \<Rightarrow> utext" where
  "join_text sep ts = (case ts of [] \<Rightarrow> [] | t # rest \<Rightarrow> t @ concat (map (\<lambda>u. sep @ u) rest))"

definition strip_prefix :: "utext \<Rightarrow> utext \<Rightarrow> utext option" where
  "strip_prefix p t = (if take (length p) t = p then Some (drop (length p) t) else None)"

definition begins_with :: "utext \<Rightarrow> utext \<Rightarrow> bool" where
  "begins_with p t \<longleftrightarrow> take (length p) t = p"

end
