(* ===== verification/Chat_Types.thy ===== *)
theory Chat_Types
  imports Rust_Text Turn_Retry Send_Gate "HOL-Library.AList"
begin

text \<open>
  The data of a conversation (\<open>crates/agent-core/src/thread\<close>): JSON values, questions and their
  answers (\<open>question.rs\<close>), tool calls (\<open>tool_call.rs\<close>), background tasks (\<open>background_task.rs\<close>),
  transcript entries (\<open>entry.rs\<close>) and the events of a provider (\<open>event.rs\<close>).  A JSON object is
  the list of its members, without repeated keys, whose order carries no meaning; a JSON number is kept as its text; a
  floating-point number is its 64 bits.
\<close>

section \<open>JSON\<close>

datatype json =
    JNull
  | JBool bool
  | JNumber utext
  | JString utext
  | JArray "json list"
  | JObject "(utext \<times> json) list"

fun json_get :: "json \<Rightarrow> string \<Rightarrow> json option" where
  "json_get (JObject m) key = map_of m (lit key)"
| "json_get _ key = None"

fun as_str :: "json \<Rightarrow> utext option" where
  "as_str (JString s) = Some s"
| "as_str _ = None"

fun as_array :: "json \<Rightarrow> json list option" where
  "as_array (JArray a) = Some a"
| "as_array _ = None"

fun as_bool :: "json \<Rightarrow> bool option" where
  "as_bool (JBool b) = Some b"
| "as_bool _ = None"

text \<open>\<open>v.get(key).and_then(Value::as_str).unwrap_or_default()\<close>\<close>

definition str_field :: "json \<Rightarrow> string \<Rightarrow> utext" where
  "str_field v key = (case Option.bind (json_get v key) as_str of None \<Rightarrow> [] | Some s \<Rightarrow> s)"

section \<open>Questions\<close>

record question_option =
  qo_label :: utext
  qo_description :: utext

datatype question_kind = SingleSelect | MultiSelect

record ask_question =
  aq_id :: utext
  aq_header :: utext
  aq_question :: utext
  aq_options :: "question_option list"
  aq_kind :: question_kind
  aq_other_allowed :: bool
  aq_is_secret :: bool

definition multi_select :: "ask_question \<Rightarrow> bool" where
  "multi_select q \<longleftrightarrow> aq_kind q = MultiSelect"

definition question_to_wire :: "ask_question \<Rightarrow> json" where
  "question_to_wire q = JObject
     [(lit ''question'', JString (aq_question q)), (lit ''header'', JString (aq_header q)),
      (lit ''options'', JArray (map (\<lambda>o'. JObject [(lit ''label'', JString (qo_label o')),
                                                  (lit ''description'', JString (qo_description o'))])
                                 (aq_options q))),
      (lit ''multiSelect'', JBool (multi_select q))]"

record question_request =
  qr_request_id :: utext
  qr_questions :: "ask_question list"

record question_answer =
  qa_selected :: "utext list"
  qa_custom :: "utext option"

definition resolved_answer :: "question_answer \<Rightarrow> utext option" where
  "resolved_answer a =
     (case qa_custom a of
        Some c \<Rightarrow>
          if trim_text c \<noteq> [] then Some (trim_text c)
          else (let labels = filter (\<lambda>s. s \<noteq> []) (map trim_text (qa_selected a))
                in if labels \<noteq> [] then Some (join_text (lit '', '') labels) else None)
      | None \<Rightarrow>
          (let labels = filter (\<lambda>s. s \<noteq> []) (map trim_text (qa_selected a))
           in if labels \<noteq> [] then Some (join_text (lit '', '') labels) else None))"

text \<open>The draft answers by question id.\<close>

record question_answers =
  qs_by_question :: "(utext \<times> question_answer) list"
  qs_response :: "utext option"

definition answer_to :: "question_answers \<Rightarrow> ask_question \<Rightarrow> utext option" where
  "answer_to ans q = Option.bind (map_of (qs_by_question ans) (aq_id q)) resolved_answer"

definition overall_response :: "question_answers \<Rightarrow> utext option" where
  "overall_response ans =
     (case qs_response ans of
        Some r \<Rightarrow> if trim_text r \<noteq> [] then Some (trim_text r) else None
      | None \<Rightarrow> None)"

definition all_answered :: "ask_question list \<Rightarrow> question_answers \<Rightarrow> bool" where
  "all_answered questions ans \<longleftrightarrow> list_all (\<lambda>q. answer_to ans q \<noteq> None) questions"

definition answers_summary :: "ask_question list \<Rightarrow> question_answers \<Rightarrow> utext" where
  "answers_summary questions ans =
     (case overall_response ans of
        Some r \<Rightarrow> lit ''Responded: '' @ r
      | None \<Rightarrow> join_text [32, 0xB7, 32]
          (List.map_filter (\<lambda>q. map_option (\<lambda>a. aq_header q @ lit '': '' @ a) (answer_to ans q)) questions))"

definition parse_option :: "json \<Rightarrow> question_option" where
  "parse_option v = \<lparr>qo_label = str_field v ''label'', qo_description = str_field v ''description''\<rparr>"

definition parse_question :: "nat \<Rightarrow> json \<Rightarrow> ask_question" where
  "parse_question idx q =
     \<lparr>aq_id = lit ''q-'' @ dec_text idx, aq_header = str_field q ''header'',
      aq_question = str_field q ''question'',
      aq_options = (case Option.bind (json_get q ''options'') as_array of
                      None \<Rightarrow> [] | Some opts \<Rightarrow> map parse_option opts),
      aq_kind = (if Option.bind (json_get q ''multiSelect'') as_bool = Some True then MultiSelect else SingleSelect),
      aq_other_allowed = True, aq_is_secret = False\<rparr>"

definition parse_questions :: "json \<Rightarrow> ask_question list" where
  "parse_questions v =
     (case Option.bind (json_get v ''questions'') as_array of
        None \<Rightarrow> []
      | Some arr \<Rightarrow> map (\<lambda>(i, q). parse_question i q) (enumerate 0 arr))"

text \<open>Inserting into an object keeps the place of a key it already has.\<close>

definition answer_members :: "ask_question list \<Rightarrow> question_answers \<Rightarrow> (utext \<times> json) list" where
  "answer_members questions ans =
     fold (\<lambda>q m. case answer_to ans q of None \<Rightarrow> m | Some a \<Rightarrow> AList.update (aq_question q) (JString a) m)
       questions []"

definition updated_input_json :: "ask_question list \<Rightarrow> question_answers \<Rightarrow> json" where
  "updated_input_json questions ans =
     JObject ([(lit ''questions'', JArray (map question_to_wire questions)),
               (lit ''answers'', JObject (answer_members questions ans))] @
              (case overall_response ans of None \<Rightarrow> [] | Some r \<Rightarrow> [(lit ''response'', JString r)]))"

section \<open>Entries\<close>

record checkpoint_state =
  cp_sha :: utext
  cp_show :: bool

record assistant_message =
  am_text :: utext
  am_thinking :: utext

definition message_empty :: "assistant_message \<Rightarrow> bool" where
  "message_empty m \<longleftrightarrow> am_text m = [] \<and> am_thinking m = []"

record turn_file_change =
  fc_path :: utext
  fc_added :: nat
  fc_removed :: nat

section \<open>Tool calls\<close>

datatype permission_kind = PkTool | PkPlan | PkMode | PkMcp | PkScreen | PkOther

record permission_suggestion =
  sg_kind :: utext
  sg_label :: utext
  sg_raw :: json

record permission_request =
  pr_request_id :: utext
  pr_kind :: permission_kind
  pr_description :: utext
  pr_suggestions :: "permission_suggestion list"

datatype tool_call_status =
    TsPending
  | WaitingForConfirmation permission_request
  | AwaitingAnswer question_request
  | TsInProgress
  | TsCompleted
  | TsFailed utext
  | TsRejected
  | TsCanceled

record tool_call =
  tc_id :: utext
  tc_name :: utext
  tc_input :: json
  tc_status :: tool_call_status
  tc_result :: "utext option"
  tc_structured :: "json option"
  tc_images :: "chat_image list"
  tc_terminal_id :: "utext option"
  tc_kind :: "utext option"
  tc_approved_input :: "json option"
  tc_redact_result :: bool
  tc_partial_input :: utext
  tc_subagent_log :: "utext list"

definition MAX_SUBAGENT_LOG :: nat where "MAX_SUBAGENT_LOG = 100"
definition MAX_PARTIAL_INPUT_BYTES :: nat where "MAX_PARTIAL_INPUT_BYTES = 64 * 1024"

definition tool_call_new :: "utext \<Rightarrow> utext \<Rightarrow> json \<Rightarrow> tool_call" where
  "tool_call_new i name input =
     \<lparr>tc_id = i, tc_name = name, tc_input = input, tc_status = TsInProgress, tc_result = None,
      tc_structured = None, tc_images = [], tc_terminal_id = None, tc_kind = None, tc_approved_input = None,
      tc_redact_result = False, tc_partial_input = [], tc_subagent_log = []\<rparr>"

definition push_subagent_action :: "utext \<Rightarrow> tool_call \<Rightarrow> tool_call" where
  "push_subagent_action line tc =
     (if line = [] then tc
      else (let log = (if length (tc_subagent_log tc) \<ge> MAX_SUBAGENT_LOG
                       then tl (tc_subagent_log tc) else tc_subagent_log tc)
            in tc\<lparr>tc_subagent_log := log @ [line]\<rparr>))"

text \<open>The repair of a cut JSON text: in a string or not, after a backslash or not, the closers owed.\<close>

record scan_state =
  sc_in_string :: bool
  sc_escaped :: bool
  sc_stack :: "nat list"

definition scan_char :: "scan_state \<Rightarrow> nat \<Rightarrow> scan_state" where
  "scan_char s c =
     (if sc_in_string s then
        (if sc_escaped s then s\<lparr>sc_escaped := False\<rparr>
         else if c = 92 then s\<lparr>sc_escaped := True\<rparr>
         else if c = 34 then s\<lparr>sc_in_string := False\<rparr> else s)
      else if c = 34 then s\<lparr>sc_in_string := True\<rparr>
      else if c = 123 then s\<lparr>sc_stack := 125 # sc_stack s\<rparr>
      else if c = 91 then s\<lparr>sc_stack := 93 # sc_stack s\<rparr>
      else if c = 125 \<or> c = 93 then s\<lparr>sc_stack := tl (sc_stack s)\<rparr> else s)"

function strip_dangling :: "utext \<Rightarrow> utext" where
  "strip_dangling t = (if t \<noteq> [] \<and> last t \<in> {58, 44} then strip_dangling (trim_end (butlast t)) else t)"
  by pat_completeness auto

lemma trim_end_le: "length (trim_end t) \<le> length t"
  by (simp add: trim_end_def length_dropWhile_le [of is_whitespace "rev t", simplified])

termination strip_dangling
  by (relation "measure length") (auto intro: le_less_trans [OF trim_end_le])

definition repair_json :: "utext \<Rightarrow> utext" where
  "repair_json trimmed =
     (let s = foldl scan_char \<lparr>sc_in_string = False, sc_escaped = False, sc_stack = []\<rparr> trimmed;
          t1 = (if sc_in_string s \<and> sc_escaped s then butlast trimmed else trimmed);
          t2 = (if sc_in_string s then t1 @ [34] else t1)
      in strip_dangling (trim_end t2) @ sc_stack s)"

text \<open>\<open>from_str\<close> is the JSON parser of \<open>serde_json\<close>.\<close>

definition parse_partial_json :: "(utext \<Rightarrow> json option) \<Rightarrow> utext \<Rightarrow> json option" where
  "parse_partial_json from_str fragment =
     (let trimmed = trim_text fragment in
      if trimmed = [] then None
      else (case from_str trimmed of Some v \<Rightarrow> Some v | None \<Rightarrow> from_str (repair_json trimmed)))"

definition preview_input :: "(utext \<Rightarrow> json option) \<Rightarrow> tool_call \<Rightarrow> json option" where
  "preview_input from_str tc =
     (if tc_partial_input tc = [] then None else parse_partial_json from_str (tc_partial_input tc))"

section \<open>Results of tools\<close>

definition block_type :: "json \<Rightarrow> utext option" where
  "block_type b = Option.bind (json_get b ''type'') as_str"

text \<open>The texts, the number of images and the tool names of the blocks.\<close>

fun flatten_blocks :: "json list \<Rightarrow> utext list \<times> nat \<times> utext list" where
  "flatten_blocks [] = ([], 0, [])"
| "flatten_blocks (b # bs) =
     (let (parts, images, refs) = flatten_blocks bs in
      if block_type b = Some (lit ''image'') then (parts, images + 1, refs)
      else if block_type b = Some (lit ''tool_reference'')
      then (case Option.bind (json_get b ''tool_name'') as_str of
              Some n \<Rightarrow> (parts, images, n # refs) | None \<Rightarrow> (parts, images, refs))
      else (case Option.bind (json_get b ''text'') as_str of
              Some t \<Rightarrow> (t # parts, images, refs) | None \<Rightarrow> (parts, images, refs)))"

definition flatten_tool_result_content :: "json option \<Rightarrow> utext" where
  "flatten_tool_result_content c =
     (case c of
        Some (JString s) \<Rightarrow> s
      | Some (JArray arr) \<Rightarrow>
          (let (parts, images, refs) = flatten_blocks arr in
           join_text [10]
             (parts @
              (if images = 0 then []
               else if images = 1 then [lit ''[image]'']
               else [lit ''['' @ dec_text images @ lit '' images]'']) @
              (if refs = [] then [] else [lit ''Tools: '' @ join_text (lit '', '') refs])))
      | _ \<Rightarrow> [])"

definition image_of_block :: "json \<Rightarrow> chat_image option" where
  "image_of_block b =
     (if block_type b \<noteq> Some (lit ''image'') then None
      else (case json_get b ''source'' of
              None \<Rightarrow> None
            | Some src \<Rightarrow>
                if block_type src \<noteq> Some (lit ''base64'') then None
                else (case (Option.bind (json_get src ''media_type'') as_str,
                            Option.bind (json_get src ''data'') as_str) of
                        (Some mt, Some d) \<Rightarrow> Some \<lparr>ci_media_type = mt, ci_data = d\<rparr>
                      | _ \<Rightarrow> None)))"

definition extract_tool_result_images :: "json option \<Rightarrow> chat_image list" where
  "extract_tool_result_images c =
     (case c of Some (JArray arr) \<Rightarrow> List.map_filter image_of_block arr | _ \<Rightarrow> [])"

section \<open>Background tasks\<close>

datatype background_task_kind = Subagent utext | BackgroundBash

definition task_kind_from_wire :: "utext \<Rightarrow> utext option \<Rightarrow> background_task_kind" where
  "task_kind_from_wire task_type subagent_type =
     (if task_type = lit ''local_bash'' then BackgroundBash
      else Subagent (case subagent_type of
             Some s \<Rightarrow> if s \<noteq> [] then s else lit ''agent'' | None \<Rightarrow> lit ''agent''))"

datatype task_status = TaskRunning | TaskCompleted | TaskFailed

record background_task =
  bt_task_id :: utext
  bt_tool_use_id :: utext
  bt_kind :: background_task_kind
  bt_description :: utext
  bt_status :: task_status
  bt_tool_uses :: u32
  bt_last_tool :: "utext option"
  bt_ended_at_ms :: "u64 option"
  bt_summary :: "utext option"
  bt_output_file :: "utext option"

definition task_started :: "utext \<Rightarrow> utext \<Rightarrow> background_task_kind \<Rightarrow> utext \<Rightarrow> background_task" where
  "task_started task_id tool_use_id kind description =
     \<lparr>bt_task_id = task_id, bt_tool_use_id = tool_use_id, bt_kind = kind, bt_description = description,
      bt_status = TaskRunning, bt_tool_uses = 0, bt_last_tool = None, bt_ended_at_ms = None,
      bt_summary = None, bt_output_file = None\<rparr>"

definition task_is_running :: "background_task \<Rightarrow> bool" where
  "task_is_running t \<longleftrightarrow> bt_status t = TaskRunning"

definition task_kind_label :: "background_task \<Rightarrow> utext" where
  "task_kind_label t = (case bt_kind t of Subagent s \<Rightarrow> s | BackgroundBash \<Rightarrow> lit ''bash'')"

definition has_transcript :: "background_task \<Rightarrow> bool" where
  "has_transcript t \<longleftrightarrow> (case bt_output_file t of None \<Rightarrow> False | Some f \<Rightarrow> f \<noteq> [])"

section \<open>Events\<close>

datatype thread_entry =
    EntryUser utext "chat_image list" "checkpoint_state option"
  | EntryAssistant assistant_message
  | EntryTool tool_call
  | EntryCompaction utext
  | EntryTurnDiff "turn_file_change list" "utext option"

record turn_usage =
  tu_input_tokens :: u64
  tu_output_tokens :: u64
  tu_cache_read_tokens :: u64
  tu_cache_creation_tokens :: u64
  tu_context_window :: "u64 option"
  tu_cost_usd :: "f64 option"
  tu_total_tokens :: "u64 option"

definition context_used :: "turn_usage \<Rightarrow> u64" where
  "context_used u =
     (case tu_total_tokens u of
        Some t \<Rightarrow> t
      | None \<Rightarrow> tu_input_tokens u + tu_cache_read_tokens u + tu_cache_creation_tokens u + tu_output_tokens u)"

datatype auth_method_kind =
    AuthAgent
  | AuthEnvVar "utext list" "utext option"
  | AuthTerminalKind "utext list" "(utext \<times> utext) list"
  | AuthBrowserOauth

record auth_method_info =
  ami_id :: utext
  ami_name :: utext
  ami_description :: "utext option"
  ami_kind :: auth_method_kind

record plan_entry_lite =
  pe_content :: utext
  pe_status :: utext
  pe_priority :: utext

record mcp_server_status =
  ms_name :: utext
  ms_status :: utext

record session_meta =
  sm_cwd :: "utext option"
  sm_tools :: "utext list"
  sm_mcp_servers :: "mcp_server_status list"
  sm_agents :: "utext list"

definition default_meta :: session_meta where
  "default_meta = \<lparr>sm_cwd = None, sm_tools = [], sm_mcp_servers = [], sm_agents = []\<rparr>"

datatype thread_event =
    EvSessionInit utext utext utext "utext list" session_meta
  | EvUserMessage utext "chat_image list"
  | EvAssistantTextDelta utext
  | EvThinkingDelta utext
  | EvAssistantText utext
  | EvAssistantThinking utext
  | EvToolCallStarted utext utext json
  | EvToolInputDelta utext utext
  | EvToolResult utext utext bool "json option"
  | EvToolResultImages utext "chat_image list"
  | EvToolOutputDelta utext utext
  | EvToolTerminal utext utext
  | EvToolKind utext utext
  | EvPermissionRequested utext "utext option" utext json utext "permission_suggestion list" permission_kind
  | EvQuestionAsked utext "utext option" "ask_question list"
  | EvPermissionEdited utext "utext option" json
  | EvTurnSummary utext utext
  | EvCompactionStarted
  | EvCompactBoundary utext
  | EvTurnEnded "utext option" "turn_usage option" bool "utext option"
  | EvBackgroundTaskStarted utext utext background_task_kind utext
  | EvBackgroundTaskProgress utext "utext option"
  | EvBackgroundTaskFinished utext bool "u64 option" "utext option" "utext option"
  | EvPlanUpdated "plan_entry_lite list"
  | EvSlashCommandsUpdated "utext list" "utext list" "utext list"
  | EvAuthRequired "auth_method_info list" "utext option"
  | EvAuthTerminal utext
  | EvAuthUrl utext
  | EvAuthOutcome bool "utext option"
  | EvModeChanged utext
  | EvControlsUpdated
  | EvTitleUpdated utext
  | EvLiveUsage turn_usage
  | EvDiagnostic utext
  | EvSessionResumeStale utext
  | EvSubagentAction utext utext
  | EvNotice utext
  | EvError utext
  | EvRewound nat
  | EvRateLimitUpdated rate_limit_info
  | EvTurnFailed "u16 option" "utext option"
  | EvUserMessageAccepted utext
  | EvUserMessagesDelivered "utext list"
  | EvUserMessageDropped utext
  | EvProviderTurnStarted
  | EvContinuationEnded

definition is_receipt_event :: "thread_event \<Rightarrow> bool" where
  "is_receipt_event ev =
     (case ev of EvUserMessageAccepted _ \<Rightarrow> True | EvUserMessagesDelivered _ \<Rightarrow> True
      | EvUserMessageDropped _ \<Rightarrow> True | _ \<Rightarrow> False)"

definition is_turn_bracket :: "thread_event \<Rightarrow> bool" where
  "is_turn_bracket ev = (case ev of EvProviderTurnStarted \<Rightarrow> True | EvContinuationEnded \<Rightarrow> True | _ \<Rightarrow> False)"

definition is_delta_event :: "thread_event \<Rightarrow> bool" where
  "is_delta_event ev =
     (case ev of EvAssistantTextDelta _ \<Rightarrow> True | EvThinkingDelta _ \<Rightarrow> True | EvToolInputDelta _ _ \<Rightarrow> True
      | EvToolOutputDelta _ _ \<Rightarrow> True | EvLiveUsage _ \<Rightarrow> True | _ \<Rightarrow> False)"

end
