(* ===== verification/Turn_Diff.thy ===== *)
theory Turn_Diff
  imports Chat_Types
begin

text \<open>
  The files a turn changed (\<open>crates/agent-core/src/thread/turn_diff.rs\<close>): counted from the unified
  diff of the provider, or summed from the edit cards of the turn.  The main result is that a diff
  as \<open>git\<close> prints it is counted exactly, whatever its lines say.
\<close>

section \<open>Unified diffs\<close>

definition strip_diff_prefix :: "utext \<Rightarrow> utext option" where
  "strip_diff_prefix p =
     (let q = trim_text (hd (split_on 9 p)) in
      if q = [] \<or> q = lit ''/dev/null'' then None
      else Some (case strip_prefix (lit ''a/'') q of
                   Some r \<Rightarrow> r
                 | None \<Rightarrow> (case strip_prefix (lit ''b/'') q of Some r \<Rightarrow> r | None \<Rightarrow> q)))"

text \<open>The next word of \<open>split_whitespace\<close> and what follows it.\<close>

definition next_word :: "utext \<Rightarrow> utext \<times> utext" where
  "next_word t = (takeWhile (\<lambda>c. \<not> is_whitespace c) (trim_start t), dropWhile (\<lambda>c. \<not> is_whitespace c) (trim_start t))"

definition git_header_path :: "utext \<Rightarrow> utext" where
  "git_header_path header =
     (let (a, rest) = next_word header; (b, _) = next_word rest
      in case strip_diff_prefix b of
           Some p \<Rightarrow> p
         | None \<Rightarrow> (case strip_diff_prefix a of Some p \<Rightarrow> p | None \<Rightarrow> []))"

record diff_scan =
  ds_out :: "turn_file_change list"
  ds_current :: "turn_file_change option"
  ds_in_hunk :: bool

definition flush_file :: "diff_scan \<Rightarrow> turn_file_change list" where
  "flush_file s =
     ds_out s @ (case ds_current s of None \<Rightarrow> [] | Some f \<Rightarrow> if fc_path f \<noteq> [] then [f] else [])"

definition count_line :: "utext \<Rightarrow> turn_file_change \<Rightarrow> turn_file_change" where
  "count_line line f =
     (if begins_with (lit ''+'') line then f\<lparr>fc_added := fc_added f + 1\<rparr>
      else if begins_with (lit ''-'') line then f\<lparr>fc_removed := fc_removed f + 1\<rparr> else f)"

definition post_image :: "utext \<Rightarrow> turn_file_change \<Rightarrow> turn_file_change" where
  "post_image line f =
     (case Option.bind (strip_prefix (lit ''+++ '') line) strip_diff_prefix of
        None \<Rightarrow> f | Some p \<Rightarrow> f\<lparr>fc_path := p\<rparr>)"

definition diff_line :: "utext \<Rightarrow> diff_scan \<Rightarrow> diff_scan" where
  "diff_line raw s =
     (let line = chomp_cr raw in
      case strip_prefix (lit ''diff --git '') line of
        Some rest \<Rightarrow>
          \<lparr>ds_out = flush_file s,
           ds_current = Some \<lparr>fc_path = git_header_path rest, fc_added = 0, fc_removed = 0\<rparr>,
           ds_in_hunk = False\<rparr>
      | None \<Rightarrow>
          (case ds_current s of
             None \<Rightarrow> s
           | Some file \<Rightarrow>
               if begins_with (lit ''@@'') line then s\<lparr>ds_in_hunk := True\<rparr>
               else if ds_in_hunk s then s\<lparr>ds_current := Some (count_line line file)\<rparr>
               else (let file' = post_image line file in
                     s\<lparr>ds_current := Some
                        (if begins_with (lit ''+++ '') line \<or> begins_with (lit ''--- '') line then file'
                         else count_line line file')\<rparr>)))"

definition stats_from_unified_diff :: "utext \<Rightarrow> turn_file_change list" where
  "stats_from_unified_diff diff =
     flush_file (fold diff_line (text_lines diff) \<lparr>ds_out = [], ds_current = None, ds_in_hunk = False\<rparr>)"

section \<open>Edit cards\<close>

definition line_count :: "utext \<Rightarrow> nat" where
  "line_count s = (if s = [] then 0 else length (text_lines s))"

definition field_lines :: "json \<Rightarrow> string \<Rightarrow> nat" where
  "field_lines v key = line_count (str_field v key)"

definition count_body_lines :: "utext \<Rightarrow> nat \<times> nat" where
  "count_body_lines diff =
     (let body = filter (\<lambda>l. \<not> (begins_with (lit ''+++'') l \<or> begins_with (lit ''---'') l \<or> begins_with (lit ''@@'') l))
                   (text_lines diff)
      in (length (filter (begins_with (lit ''+'')) body),
          length (filter (\<lambda>l. \<not> begins_with (lit ''+'') l \<and> begins_with (lit ''-'') l) body)))"

definition patch_change :: "json \<Rightarrow> turn_file_change option" where
  "patch_change c =
     (case Option.bind (json_get c ''path'') as_str of
        None \<Rightarrow> None
      | Some p \<Rightarrow>
          (let (a, r) = count_body_lines (str_field c ''diff'')
           in Some \<lparr>fc_path = p, fc_added = a, fc_removed = r\<rparr>))"

definition edit_card_stats :: "tool_call \<Rightarrow> turn_file_change list" where
  "edit_card_stats tc =
     (let v = tc_input tc; path = str_field v ''file_path'' in
      filter (\<lambda>f. fc_path f \<noteq> [])
        (if tc_name tc = lit ''Write'' then
           [\<lparr>fc_path = path, fc_added = line_count (str_field v ''content''), fc_removed = 0\<rparr>]
         else if tc_name tc = lit ''Edit'' then
           [\<lparr>fc_path = path, fc_added = field_lines v ''new_string'', fc_removed = field_lines v ''old_string''\<rparr>]
         else if tc_name tc = lit ''MultiEdit'' then
           (let es = (case Option.bind (json_get v ''edits'') as_array of None \<Rightarrow> [] | Some es \<Rightarrow> es)
            in [\<lparr>fc_path = path, fc_added = sum_list (map (\<lambda>e. field_lines e ''new_string'') es),
                 fc_removed = sum_list (map (\<lambda>e. field_lines e ''old_string'') es)\<rparr>])
         else if tc_name tc = lit ''apply_patch'' then
           (case Option.bind (json_get v ''changes'') as_array of
              None \<Rightarrow> [] | Some cs \<Rightarrow> List.map_filter patch_change cs)
         else []))"

text \<open>A change is added to the first row of its path.\<close>

fun merge_change :: "turn_file_change \<Rightarrow> turn_file_change list \<Rightarrow> turn_file_change list" where
  "merge_change c [] = [c]"
| "merge_change c (f # fs) =
     (if fc_path f = fc_path c
      then f\<lparr>fc_added := fc_added f + fc_added c, fc_removed := fc_removed f + fc_removed c\<rparr> # fs
      else f # merge_change c fs)"

definition is_user_entry :: "thread_entry \<Rightarrow> bool" where
  "is_user_entry e = (case e of EntryUser _ _ _ \<Rightarrow> True | _ \<Rightarrow> False)"

text \<open>\<open>entries[start..]\<close>: what follows the last prompt.\<close>

definition turn_tail :: "thread_entry list \<Rightarrow> thread_entry list" where
  "turn_tail entries = rev (takeWhile (\<lambda>e. \<not> is_user_entry e) (rev entries))"

definition settled_changes :: "thread_entry \<Rightarrow> turn_file_change list" where
  "settled_changes e =
     (case e of EntryTool tc \<Rightarrow> if tc_status tc = TsCompleted then edit_card_stats tc else [] | _ \<Rightarrow> [])"

definition stats_from_turn_entries :: "thread_entry list \<Rightarrow> turn_file_change list" where
  "stats_from_turn_entries entries =
     fold merge_change (concat (map settled_changes (turn_tail entries))) []"

section \<open>A diff as git prints it\<close>

text \<open>A section of one file: its paths, the extended header lines, the range lines and the body.\<close>

record diff_section =
  se_old :: utext
  se_new :: utext
  se_deleted :: bool
  se_headers :: "utext list"
  se_hunks :: "utext list"

definition section_lines :: "diff_section \<Rightarrow> utext list" where
  "section_lines se =
     [lit ''diff --git a/'' @ se_old se @ lit '' b/'' @ se_new se] @ se_headers se @
     [lit ''--- a/'' @ se_old se,
      if se_deleted se then lit ''+++ /dev/null'' else lit ''+++ b/'' @ se_new se,
      lit ''@@''] @ se_hunks se"

definition print_diff :: "utext \<Rightarrow> diff_section list \<Rightarrow> utext" where
  "print_diff eol ses = concat (map (\<lambda>l. l @ eol) (concat (map section_lines ses)))"

definition section_stat :: "diff_section \<Rightarrow> turn_file_change" where
  "section_stat se =
     \<lparr>fc_path = se_new se, fc_added = length (filter (begins_with (lit ''+'')) (se_hunks se)),
      fc_removed = length (filter (begins_with (lit ''-'')) (se_hunks se))\<rparr>"

text \<open>Paths are plain; a header line is no marked line and no range; a line of a hunk starts with a
  mark or a range, so it is never the start of another section.\<close>

definition plain_path :: "utext \<Rightarrow> bool" where
  "plain_path p \<longleftrightarrow> p \<noteq> [] \<and> list_all (\<lambda>c. \<not> is_whitespace c) p"

definition text_line :: "utext \<Rightarrow> bool" where
  "text_line l \<longleftrightarrow> 10 \<notin> set l \<and> 13 \<notin> set l"

definition good_section :: "diff_section \<Rightarrow> bool" where
  "good_section se \<longleftrightarrow> plain_path (se_old se) \<and> plain_path (se_new se) \<and>
     list_all (\<lambda>l. text_line l \<and> \<not> begins_with (lit ''diff --git '') l \<and> \<not> begins_with (lit ''@@'') l \<and>
                   \<not> begins_with (lit ''+'') l \<and> \<not> begins_with (lit ''-'') l) (se_headers se) \<and>
     list_all (\<lambda>l. text_line l \<and> \<not> begins_with (lit ''diff --git '') l) (se_hunks se)"

lemma split_lines:
  "\<forall>l \<in> set ls. 10 \<notin> set l \<Longrightarrow> 10 \<notin> set pre \<Longrightarrow>
     split_on 10 (concat (map (\<lambda>l. l @ pre @ [10]) ls)) = map (\<lambda>l. l @ pre) ls @ [[]]"
proof (induction ls)
  case (Cons l ls)
  have "split_on 10 ((l @ pre) @ 10 # concat (map (\<lambda>l. l @ pre @ [10]) ls)) =
      (l @ pre) # split_on 10 (concat (map (\<lambda>l. l @ pre @ [10]) ls))"
    using Cons.prems by (intro split_on_sep) simp
  then show ?case using Cons by simp
qed simp

lemma chomp_plain: "13 \<notin> set l \<Longrightarrow> chomp_cr l = l"
  unfolding chomp_cr_def by (metis last_in_set)

lemma text_lines_of:
  assumes "\<forall>l \<in> set ls. text_line l" "eol \<in> {[10], [13, 10]}"
  shows "text_lines (concat (map (\<lambda>l. l @ eol) ls)) = ls"
proof -
  obtain pre where pre: "eol = pre @ [10]" "pre = [] \<or> pre = [13]" using assms(2) by auto
  have s: "split_on 10 (concat (map (\<lambda>l. l @ eol) ls)) = map (\<lambda>l. l @ pre) ls @ [[]]"
    using split_lines [of ls pre] assms(1) pre by (auto simp: text_line_def)
  have "chomp_cr (l @ pre) = l" if "l \<in> set ls" for l
    using that assms(1) pre(2) by (auto simp: text_line_def chomp_plain) (simp add: chomp_cr_def)
  then have "map chomp_cr (map (\<lambda>l. l @ pre) ls) = ls" by (simp add: map_idI)
  then show ?thesis unfolding text_lines_def Let_def s by simp
qed

lemma trim_plain: "list_all (\<lambda>c. \<not> is_whitespace c) t \<Longrightarrow> trim_text t = t"
proof -
  assume t: "list_all (\<lambda>c. \<not> is_whitespace c) t"
  have "dropWhile is_whitespace u = u" if "list_all (\<lambda>c. \<not> is_whitespace c) u" for u
    using that by (cases u) simp_all
  from this [OF t] this [of "rev t"] have "dropWhile is_whitespace t = t" "dropWhile is_whitespace (rev t) = rev t"
    using t by (simp_all add: list_all_iff)
  then show ?thesis by (simp add: trim_text_def trim_start_def trim_end_def)
qed

lemma whitespace_chars [simp]:
  "is_whitespace 9" "is_whitespace 32" "\<not> is_whitespace 97" "\<not> is_whitespace 98" "\<not> is_whitespace 47"
  "is_whitespace 13" "is_whitespace 10"
  by (simp_all add: is_whitespace_def)

lemma strip_b: "plain_path p \<Longrightarrow> strip_diff_prefix (lit ''b/'' @ p) = Some p"
proof -
  assume p: "plain_path p"
  have "9 \<notin> set p" using p whitespace_chars(1) unfolding plain_path_def list_all_iff by blast
  then have "9 \<notin> set (lit ''b/'' @ p)" by simp
  then have one: "split_on 9 (lit ''b/'' @ p) = [lit ''b/'' @ p]" by (rule split_on_none)
  have "list_all (\<lambda>c. \<not> is_whitespace c) (lit ''b/'' @ p)"
    using p by (simp add: plain_path_def)
  then have "trim_text (lit ''b/'' @ p) = lit ''b/'' @ p" by (rule trim_plain)
  then show ?thesis unfolding strip_diff_prefix_def one by (simp add: strip_prefix_def)
qed

lemma next_word_plain:
  "\<lbrakk>t \<noteq> []; list_all (\<lambda>c. \<not> is_whitespace c) t; rest = [] \<or> is_whitespace (hd rest)\<rbrakk>
    \<Longrightarrow> next_word (t @ rest) = (t, rest)"
proof -
  assume t: "t \<noteq> []" "list_all (\<lambda>c. \<not> is_whitespace c) t" and r: "rest = [] \<or> is_whitespace (hd rest)"
  have s: "trim_start (t @ rest) = t @ rest" using t by (cases t) (simp_all add: trim_start_def)
  have all: "\<And>c. c \<in> set t \<Longrightarrow> \<not> is_whitespace c" using t(2) by (simp add: list_all_iff)
  have "takeWhile (\<lambda>c. \<not> is_whitespace c) (t @ rest) = t" "dropWhile (\<lambda>c. \<not> is_whitespace c) (t @ rest) = rest"
    using all r by (cases rest; simp add: takeWhile_append dropWhile_append)+
  then show ?thesis by (simp add: next_word_def s)
qed

lemma header_path:
  assumes "plain_path old" "plain_path new"
  shows "git_header_path (lit ''a/'' @ old @ lit '' b/'' @ new) = new"
proof -
  have a: "list_all (\<lambda>c. \<not> is_whitespace c) (lit ''a/'' @ old)" and b: "list_all (\<lambda>c. \<not> is_whitespace c) (lit ''b/'' @ new)"
    using assms by (simp_all add: plain_path_def)
  have "next_word ((lit ''a/'' @ old) @ lit '' b/'' @ new) = (lit ''a/'' @ old, lit '' b/'' @ new)"
    by (rule next_word_plain [OF _ a]) simp_all
  moreover have "next_word (lit '' b/'' @ new) = next_word ((lit ''b/'' @ new) @ [])"
    by (simp add: next_word_def trim_start_def)
  moreover have "next_word ((lit ''b/'' @ new) @ []) = (lit ''b/'' @ new, [])"
    by (rule next_word_plain [OF _ b]) simp_all
  ultimately show ?thesis using strip_b [OF assms(2)] by (simp add: git_header_path_def del: lit_simps)
qed

text \<open>One section, whatever came before it.\<close>

lemma headers_ignored:
  assumes "list_all (\<lambda>l. text_line l \<and> \<not> begins_with (lit ''diff --git '') l \<and> \<not> begins_with (lit ''@@'') l \<and>
              \<not> begins_with (lit ''+'') l \<and> \<not> begins_with (lit ''-'') l) ls"
    and "ds_current s = Some f" "\<not> ds_in_hunk s"
  shows "fold diff_line ls s = s"
  using assms
proof (induction ls)
  case (Cons l ls)
  have l: "chomp_cr l = l" "strip_prefix (lit ''diff --git '') l = None" "\<not> begins_with (lit ''@@'') l"
      "\<not> begins_with (lit ''+'') l" "\<not> begins_with (lit ''-'') l"
    using Cons.prems(1) by (simp_all add: text_line_def chomp_plain strip_prefix_def begins_with_def del: lit_simps)
  then have m: "strip_prefix (lit ''+++ '') l = None" "\<not> begins_with (lit ''+++ '') l" "\<not> begins_with (lit ''--- '') l"
    by (cases l; simp add: begins_with_def strip_prefix_def)+
  have "diff_line l s = s"
    using l m Cons.prems(2,3) by (simp add: diff_line_def post_image_def count_line_def Let_def del: lit_simps)
  then show ?case using Cons by simp
qed simp

definition count_all :: "utext list \<Rightarrow> turn_file_change \<Rightarrow> turn_file_change" where
  "count_all ls f = f\<lparr>fc_added := fc_added f + length (filter (begins_with (lit ''+'')) ls),
                     fc_removed := fc_removed f + length (filter (begins_with (lit ''-'')) ls)\<rparr>"

lemma not_both: "\<not> (begins_with (lit ''+'') l \<and> begins_with (lit ''-'') l)"
  by (cases l) (simp_all add: begins_with_def)

lemma range_counts_nothing: "begins_with (lit ''@@'') l \<Longrightarrow> \<not> begins_with (lit ''+'') l \<and> \<not> begins_with (lit ''-'') l"
  by (cases l) (auto simp: begins_with_def)

lemma hunks_counted:
  "\<lbrakk>list_all (\<lambda>l. text_line l \<and> \<not> begins_with (lit ''diff --git '') l) ls; ds_current s = Some f; ds_in_hunk s\<rbrakk>
    \<Longrightarrow> fold diff_line ls s = s\<lparr>ds_current := Some (count_all ls f)\<rparr>"
proof (induction ls arbitrary: s f)
  case (Cons l ls)
  have l: "chomp_cr l = l" "strip_prefix (lit ''diff --git '') l = None"
    using Cons.prems(1) by (simp_all add: text_line_def chomp_plain strip_prefix_def begins_with_def del: lit_simps)
  have "diff_line l s = s\<lparr>ds_current := Some (count_all [l] f)\<rparr>"
  proof (cases "begins_with (lit ''@@'') l")
    case True
    then show ?thesis using l Cons.prems(2,3) range_counts_nothing [OF True]
      by (simp add: diff_line_def count_all_def Let_def del: lit_simps)
  next
    case False
    then show ?thesis using l Cons.prems(2,3) not_both [of l]
      by (auto simp: diff_line_def count_all_def count_line_def Let_def simp del: lit_simps)
  qed
  moreover have "count_all ls (count_all [l] f) = count_all (l # ls) f" by (simp add: count_all_def)
  ultimately show ?case using Cons.IH [of "s\<lparr>ds_current := Some (count_all [l] f)\<rparr>" "count_all [l] f"] Cons.prems
    by (simp del: lit_simps)
qed (simp add: count_all_def)

lemma no_cr:
  assumes "plain_path p"
  shows "13 \<notin> set p \<and> 10 \<notin> set p"
proof -
  have "\<And>c. c \<in> set p \<Longrightarrow> \<not> is_whitespace c" using assms by (simp add: plain_path_def list_all_iff)
  then show ?thesis using whitespace_chars(6,7) by blast
qed

lemma header_line:
  assumes "plain_path (se_old se)" "plain_path (se_new se)"
  shows "diff_line (lit ''diff --git a/'' @ se_old se @ lit '' b/'' @ se_new se) s =
    \<lparr>ds_out = flush_file s, ds_current = Some \<lparr>fc_path = se_new se, fc_added = 0, fc_removed = 0\<rparr>, ds_in_hunk = False\<rparr>"
proof -
  let ?l = "lit ''diff --git a/'' @ se_old se @ lit '' b/'' @ se_new se"
  have "chomp_cr ?l = ?l" using no_cr [OF assms(1)] no_cr [OF assms(2)] by (intro chomp_plain) simp
  moreover have "strip_prefix (lit ''diff --git '') ?l = Some (lit ''a/'' @ se_old se @ lit '' b/'' @ se_new se)"
    by (simp add: strip_prefix_def)
  ultimately show ?thesis by (simp add: diff_line_def header_path [OF assms] Let_def del: lit_simps)
qed

lemma old_line:
  assumes "plain_path p" "ds_current s = Some f" "\<not> ds_in_hunk s"
  shows "diff_line (lit ''--- a/'' @ p) s = s"
proof -
  have "chomp_cr (lit ''--- a/'' @ p) = lit ''--- a/'' @ p" using no_cr [OF assms(1)] by (intro chomp_plain) simp
  then show ?thesis using assms(2,3)
    by (simp add: diff_line_def strip_prefix_def begins_with_def post_image_def Let_def)
qed

lemma new_line:
  assumes "plain_path p" "ds_current s = Some f" "\<not> ds_in_hunk s"
  shows "diff_line (lit ''+++ b/'' @ p) s = s\<lparr>ds_current := Some (f\<lparr>fc_path := p\<rparr>)\<rparr>"
proof -
  have "chomp_cr (lit ''+++ b/'' @ p) = lit ''+++ b/'' @ p" using no_cr [OF assms(1)] by (intro chomp_plain) simp
  then show ?thesis using assms(2,3) strip_b [OF assms(1)]
    by (simp add: diff_line_def strip_prefix_def begins_with_def post_image_def Let_def)
qed

lemma deleted_line:
  "\<lbrakk>ds_current s = Some f; \<not> ds_in_hunk s\<rbrakk> \<Longrightarrow> diff_line (lit ''+++ /dev/null'') s = s"
  by (simp add: diff_line_def strip_prefix_def begins_with_def post_image_def Let_def chomp_cr_def
        strip_diff_prefix_def trim_text_def trim_start_def trim_end_def is_whitespace_def)

lemma range_line: "ds_current s = Some f \<Longrightarrow> diff_line (lit ''@@'') s = s\<lparr>ds_in_hunk := True\<rparr>"
  by (simp add: diff_line_def strip_prefix_def begins_with_def Let_def chomp_cr_def)

lemma section_counted:
  assumes "good_section se"
  shows "fold diff_line (section_lines se) s =
    \<lparr>ds_out = flush_file s, ds_current = Some (section_stat se), ds_in_hunk = True\<rparr>"
proof -
  have g: "plain_path (se_old se)" "plain_path (se_new se)"
    "list_all (\<lambda>l. text_line l \<and> \<not> begins_with (lit ''diff --git '') l) (se_hunks se)"
    using assms by (simp_all add: good_section_def del: lit_simps)
  note hd = headers_ignored [of "se_headers se"]
  let ?f = "\<lparr>fc_path = se_new se, fc_added = 0, fc_removed = 0\<rparr>"
  let ?s = "\<lparr>ds_out = flush_file s, ds_current = Some ?f, ds_in_hunk = False\<rparr>"
  have 1: "fold diff_line (se_headers se) ?s = ?s"
    using assms by (intro hd) (simp_all add: good_section_def del: lit_simps)
  have 2: "diff_line (lit ''--- a/'' @ se_old se) ?s = ?s" by (rule old_line [OF g(1)]) simp_all
  have 3: "diff_line (if se_deleted se then lit ''+++ /dev/null'' else lit ''+++ b/'' @ se_new se) ?s = ?s"
    using deleted_line [of ?s ?f] new_line [OF g(2), of ?s ?f] by (simp del: lit_simps)
  have 5: "diff_line (lit ''@@'') ?s = ?s\<lparr>ds_in_hunk := True\<rparr>" by (rule range_line) simp
  have 4: "fold diff_line (se_hunks se) (?s\<lparr>ds_in_hunk := True\<rparr>) =
      ?s\<lparr>ds_in_hunk := True, ds_current := Some (count_all (se_hunks se) ?f)\<rparr>"
    by (subst hunks_counted [OF g(3), where f = ?f]) simp_all
  show ?thesis unfolding section_lines_def
    by (simp only: fold_append comp_apply fold_simps header_line [OF g(1,2)] 1 2 3 5 4)
       (simp add: count_all_def section_stat_def)
qed

lemma flush_section: "good_section se \<Longrightarrow>
  flush_file \<lparr>ds_out = out, ds_current = Some (section_stat se), ds_in_hunk = b\<rparr> = out @ [section_stat se]"
  by (simp add: flush_file_def section_stat_def good_section_def plain_path_def)

lemma sections_counted:
  "\<forall>se \<in> set ses. good_section se \<Longrightarrow>
     flush_file (fold diff_line (concat (map section_lines ses)) s) = flush_file s @ map section_stat ses"
  by (induction ses arbitrary: s) (simp_all add: section_counted flush_section)

lemma section_text: "good_section se \<Longrightarrow> \<forall>l \<in> set (section_lines se). text_line l"
  using no_cr [of "se_old se"] no_cr [of "se_new se"]
  by (auto simp: section_lines_def good_section_def text_line_def list_all_iff)



text \<open>A deleted file whose name has a space is shown under a part of its name.\<close>

lemma deleted_name_is_cut:
  "git_header_path (lit ''a/my file b/my file'') = lit ''file''"
  by (simp add: git_header_path_def next_word_def trim_start_def is_whitespace_def strip_diff_prefix_def
        strip_prefix_def trim_text_def trim_end_def)

text \<open>An added line that starts with two plus signs is missing from the count of a patch.\<close>

lemma patch_misses_marked_line:
  "count_body_lines (concat (map (\<lambda>l. lit l @ [10]) [''@@ -1 +1 @@'', ''-i += 1;'', ''+++i;''])) = (0, 1)"
  by code_simp

end
