(* ===== verification/Chat_Thread.thy ===== *)
theory Chat_Thread
  imports Turn_Diff
begin

text \<open>
  The fold of a conversation (\<open>crates/agent-core/src/thread/state.rs\<close>): the state of a
  \<open>ChatThread\<close> and every operation on it.  \<open>None\<close> as the result of an operation is a panic.
  The addition of floating-point numbers is a parameter.
\<close>

definition SECRET_PLACEHOLDER :: utext where "SECRET_PLACEHOLDER = lit ''[secret]''"

record chat_thread =
  ct_entries :: "thread_entry list"
  ct_session_id :: "utext option"
  ct_model :: "utext option"
  ct_permission_mode :: "utext option"
  ct_slash_commands :: "utext list"
  ct_session_meta :: session_meta
  ct_descriptions :: "(utext \<times> utext) list"
  ct_hints :: "(utext \<times> utext) list"
  ct_plan :: "plan_entry_lite list option"
  ct_title :: "utext option"
  ct_last_summary :: "utext option"
  ct_last_error :: "utext option"
  ct_last_turn_failure :: "(u16 option \<times> utext option) option"
  ct_last_rate_limit :: "rate_limit_info option"
  ct_turn_active :: bool
  ct_continuations_open :: u32
  ct_compacting :: bool
  ct_usage :: "turn_usage option"
  ct_live_usage :: "turn_usage option"
  ct_last_known_window :: "u64 option"
  ct_session_cost :: f64
  ct_background_tasks :: "background_task list"
  ct_current_assistant :: "nat option"
  ct_text_streaming :: bool
  ct_thinking_streaming :: bool
  ct_pending_diagnostic :: "utext option"
  ct_streaming_tool_id :: "utext option"
  ct_revision :: u64

definition chat_new :: chat_thread where
  "chat_new = \<lparr>ct_entries = [], ct_session_id = None, ct_model = None, ct_permission_mode = None,
     ct_slash_commands = [], ct_session_meta = default_meta, ct_descriptions = [], ct_hints = [],
     ct_plan = None, ct_title = None, ct_last_summary = None, ct_last_error = None,
     ct_last_turn_failure = None, ct_last_rate_limit = None, ct_turn_active = False,
     ct_continuations_open = 0, ct_compacting = False, ct_usage = None, ct_live_usage = None,
     ct_last_known_window = None, ct_session_cost = 0, ct_background_tasks = [],
     ct_current_assistant = None, ct_text_streaming = False, ct_thinking_streaming = False,
     ct_pending_diagnostic = None, ct_streaming_tool_id = None, ct_revision = 0\<rparr>"

definition touch :: "chat_thread \<Rightarrow> chat_thread" where
  "touch th = th\<lparr>ct_revision := ct_revision th + 1\<rparr>"

section \<open>Cards\<close>

text \<open>Change the last tool call with a property; \<open>None\<close> when there is none.\<close>

fun update_tool :: "(tool_call \<Rightarrow> bool) \<Rightarrow> (tool_call \<Rightarrow> tool_call) \<Rightarrow> thread_entry list \<Rightarrow> thread_entry list option" where
  "update_tool P f [] = None"
| "update_tool P f (e # es) =
     (case update_tool P f es of
        Some es' \<Rightarrow> Some (e # es')
      | None \<Rightarrow>
          (case e of
             EntryTool tc \<Rightarrow> if P tc then Some (EntryTool (f tc) # es) else None
           | _ \<Rightarrow> None))"

definition tool_call_mut :: "utext \<Rightarrow> (tool_call \<Rightarrow> tool_call) \<Rightarrow> chat_thread \<Rightarrow> chat_thread option" where
  "tool_call_mut i f th =
     map_option (\<lambda>es. th\<lparr>ct_entries := es\<rparr>) (update_tool (\<lambda>tc. tc_id tc = i) f (ct_entries th))"

definition tool_call_awaiting_mut :: "utext \<Rightarrow> (tool_call \<Rightarrow> tool_call) \<Rightarrow> chat_thread \<Rightarrow> chat_thread option" where
  "tool_call_awaiting_mut request_id f th =
     map_option (\<lambda>es. th\<lparr>ct_entries := es\<rparr>)
       (update_tool (\<lambda>tc. case tc_status tc of WaitingForConfirmation r \<Rightarrow> pr_request_id r = request_id | _ \<Rightarrow> False)
          f (ct_entries th))"

text \<open>\<open>if let Some(tc) = ...\<close>: nothing happens without the card.\<close>

definition on_card :: "utext \<Rightarrow> (tool_call \<Rightarrow> tool_call) \<Rightarrow> chat_thread \<Rightarrow> chat_thread" where
  "on_card i f th = (case tool_call_mut i f th of Some th' \<Rightarrow> th' | None \<Rightarrow> th)"

definition push_entry :: "thread_entry \<Rightarrow> chat_thread \<Rightarrow> chat_thread" where
  "push_entry e th = th\<lparr>ct_entries := ct_entries th @ [e]\<rparr>"

definition end_assistant_window :: "chat_thread \<Rightarrow> chat_thread" where
  "end_assistant_window th =
     th\<lparr>ct_current_assistant := None, ct_text_streaming := False, ct_thinking_streaming := False\<rparr>"

definition empty_message :: assistant_message where
  "empty_message = \<lparr>am_text = [], am_thinking = []\<rparr>"

text \<open>The two panics are the index and the \<open>unreachable!\<close>.\<close>

definition assistant_mut :: "(assistant_message \<Rightarrow> assistant_message) \<Rightarrow> chat_thread \<Rightarrow> chat_thread option" where
  "assistant_mut f th =
     (let th1 = (if ct_current_assistant th = None
                 then (push_entry (EntryAssistant empty_message) th)
                        \<lparr>ct_current_assistant := Some (length (ct_entries th))\<rparr>
                 else th)
      in case ct_current_assistant th1 of
           None \<Rightarrow> None
         | Some idx \<Rightarrow>
             if idx < length (ct_entries th1)
             then (case ct_entries th1 ! idx of
                     EntryAssistant m \<Rightarrow> Some (th1\<lparr>ct_entries := (ct_entries th1)[idx := EntryAssistant (f m)]\<rparr>)
                   | _ \<Rightarrow> None)
             else None)"

definition is_empty_input :: "json \<Rightarrow> bool" where
  "is_empty_input v = (case v of JNull \<Rightarrow> True | JObject m \<Rightarrow> m = [] | _ \<Rightarrow> False)"

definition awaits_user :: "tool_call_status \<Rightarrow> bool" where
  "awaits_user s = (case s of WaitingForConfirmation _ \<Rightarrow> True | AwaitingAnswer _ \<Rightarrow> True | _ \<Rightarrow> False)"

section \<open>Starting over\<close>

definition reject_pending :: "thread_entry \<Rightarrow> thread_entry" where
  "reject_pending e =
     (case e of EntryTool tc \<Rightarrow> if awaits_user (tc_status tc) then EntryTool (tc\<lparr>tc_status := TsRejected\<rparr>) else e
      | _ \<Rightarrow> e)"

definition rehydrated :: "utext option \<Rightarrow> utext option \<Rightarrow> thread_entry list \<Rightarrow> utext list \<Rightarrow> chat_thread" where
  "rehydrated session_id model entries slash_commands =
     chat_new\<lparr>ct_entries := map reject_pending entries, ct_session_id := session_id, ct_model := model,
              ct_slash_commands := slash_commands\<rparr>"

definition chat_clear :: "chat_thread \<Rightarrow> chat_thread" where
  "chat_clear th =
     chat_new\<lparr>ct_model := ct_model th, ct_permission_mode := ct_permission_mode th,
              ct_slash_commands := ct_slash_commands th, ct_descriptions := ct_descriptions th,
              ct_hints := ct_hints th, ct_revision := ct_revision th + 1\<rparr>"

section \<open>The user's side\<close>

definition push_user_message_with_images :: "utext \<Rightarrow> chat_image list \<Rightarrow> chat_thread \<Rightarrow> chat_thread" where
  "push_user_message_with_images text images th =
     (end_assistant_window (push_entry (EntryUser text images None) (touch th)))
       \<lparr>ct_usage := None, ct_live_usage := None, ct_last_summary := None, ct_last_error := None,
        ct_last_turn_failure := None, ct_turn_active := True\<rparr>"

definition push_user_message :: "utext \<Rightarrow> chat_thread \<Rightarrow> chat_thread" where
  "push_user_message text th = push_user_message_with_images text [] th"

definition append_imported :: "thread_entry list \<Rightarrow> chat_thread \<Rightarrow> chat_thread" where
  "append_imported tail th =
     (if tail = [] then th else touch (th\<lparr>ct_entries := ct_entries th @ tail\<rparr>))"

definition stop_card :: "thread_entry \<Rightarrow> thread_entry" where
  "stop_card e =
     (case e of
        EntryTool tc \<Rightarrow>
          EntryTool ((if awaits_user (tc_status tc) then tc\<lparr>tc_status := TsRejected\<rparr> else tc)\<lparr>tc_partial_input := []\<rparr>)
      | _ \<Rightarrow> e)"

definition interrupt :: "chat_thread \<Rightarrow> chat_thread" where
  "interrupt th =
     (touch th)\<lparr>ct_turn_active := False, ct_continuations_open := 0, ct_streaming_tool_id := None,
                ct_entries := map stop_card (ct_entries th)\<rparr>"

fun nth_user :: "nat \<Rightarrow> nat \<Rightarrow> thread_entry list \<Rightarrow> nat option" where
  "nth_user i n [] = None"
| "nth_user i n (e # es) =
     (if is_user_entry e then (case n of 0 \<Rightarrow> Some i | Suc m \<Rightarrow> nth_user (i + 1) m es)
      else nth_user (i + 1) n es)"

definition user_entry_index :: "nat \<Rightarrow> chat_thread \<Rightarrow> nat option" where
  "user_entry_index ordinal th = nth_user 0 ordinal (ct_entries th)"

definition update_entry :: "nat \<Rightarrow> (thread_entry \<Rightarrow> thread_entry) \<Rightarrow> thread_entry list \<Rightarrow> thread_entry list" where
  "update_entry i f es = (if i < length es then es[i := f (es ! i)] else es)"

definition attach_checkpoint :: "nat \<Rightarrow> utext \<Rightarrow> chat_thread \<Rightarrow> chat_thread" where
  "attach_checkpoint expected_index sha th =
     (touch th)\<lparr>ct_entries := update_entry expected_index
       (\<lambda>e. case e of EntryUser t im cp \<Rightarrow> EntryUser t im (Some \<lparr>cp_sha = sha, cp_show = False\<rparr>) | _ \<Rightarrow> e)
       (ct_entries th)\<rparr>"

definition set_checkpoint_show :: "nat \<Rightarrow> bool \<Rightarrow> chat_thread \<Rightarrow> chat_thread" where
  "set_checkpoint_show index shown th =
     (touch th)\<lparr>ct_entries := update_entry index
       (\<lambda>e. case e of EntryUser t im (Some cp) \<Rightarrow> EntryUser t im (Some (cp\<lparr>cp_show := shown\<rparr>)) | _ \<Rightarrow> e)
       (ct_entries th)\<rparr>"

text \<open>The removed prompt, if the ordinal resolves.\<close>

definition truncate_to_user ::
  "nat \<Rightarrow> chat_thread \<Rightarrow> ((utext \<times> chat_image list) option \<times> chat_thread) option" where
  "truncate_to_user ordinal th0 =
     (let th = touch th0 in
      case user_entry_index ordinal th of
        None \<Rightarrow> Some (None, th)
      | Some idx \<Rightarrow>
          (let removed = drop idx (ct_entries th);
               th' = (end_assistant_window (th\<lparr>ct_entries := take idx (ct_entries th)\<rparr>))
                       \<lparr>ct_turn_active := False, ct_usage := None, ct_last_summary := None\<rparr>
           in case removed of
                EntryUser text images _ # _ \<Rightarrow> Some (Some (text, images), th')
              | _ \<Rightarrow> None))"

definition set_tool_status :: "utext \<Rightarrow> tool_call_status \<Rightarrow> chat_thread \<Rightarrow> chat_thread" where
  "set_tool_status i status th = on_card i (\<lambda>tc. tc\<lparr>tc_status := status\<rparr>) (touch th)"

definition set_tool_refusal :: "utext \<Rightarrow> utext \<Rightarrow> chat_thread \<Rightarrow> chat_thread" where
  "set_tool_refusal i reason th =
     on_card i (\<lambda>tc. if tc_result tc = None then tc\<lparr>tc_result := Some reason\<rparr> else tc) (touch th)"

definition mark_secret_answer :: "utext \<Rightarrow> chat_thread \<Rightarrow> chat_thread" where
  "mark_secret_answer i th = on_card i (\<lambda>tc. tc\<lparr>tc_redact_result := True\<rparr>) (touch th)"

section \<open>Questions about a thread\<close>

fun pending_in :: "(tool_call_status \<Rightarrow> 'a option) \<Rightarrow> thread_entry list \<Rightarrow> (utext \<times> 'a) option" where
  "pending_in sel [] = None"
| "pending_in sel (e # es) =
     (case e of
        EntryTool tc \<Rightarrow> (case sel (tc_status tc) of Some r \<Rightarrow> Some (tc_id tc, r) | None \<Rightarrow> pending_in sel es)
      | _ \<Rightarrow> pending_in sel es)"

definition pending_permission :: "chat_thread \<Rightarrow> (utext \<times> permission_request) option" where
  "pending_permission th =
     pending_in (\<lambda>s. case s of WaitingForConfirmation r \<Rightarrow> Some r | _ \<Rightarrow> None) (ct_entries th)"

definition pending_question :: "chat_thread \<Rightarrow> (utext \<times> question_request) option" where
  "pending_question th =
     pending_in (\<lambda>s. case s of AwaitingAnswer r \<Rightarrow> Some r | _ \<Rightarrow> None) (ct_entries th)"

definition running_task_count :: "chat_thread \<Rightarrow> nat" where
  "running_task_count th = length (filter task_is_running (ct_background_tasks th))"

end
