(* ===== verification/Chat_Fold.thy ===== *)
theory Chat_Fold
  imports Chat_Thread
begin

text \<open>
  \<open>ChatThread::apply\<close> of \<open>crates/agent-core/src/thread/state.rs\<close>: one function per event with
  something to do, in the order of the source, and the dispatch on the event.
\<close>

section \<open>Session\<close>

definition on_session_init :: "utext \<Rightarrow> utext \<Rightarrow> utext \<Rightarrow> utext list \<Rightarrow> session_meta \<Rightarrow> chat_thread \<Rightarrow> chat_thread" where
  "on_session_init session_id model permission_mode slash_commands meta th =
     th\<lparr>ct_session_id := Some session_id, ct_model := Some model, ct_permission_mode := Some permission_mode,
        ct_slash_commands := (if slash_commands \<noteq> [] then slash_commands else ct_slash_commands th),
        ct_session_meta := (if meta \<noteq> default_meta then meta else ct_session_meta th)\<rparr>"

definition on_commands_updated :: "utext list \<Rightarrow> utext list \<Rightarrow> utext list \<Rightarrow> chat_thread \<Rightarrow> chat_thread" where
  "on_commands_updated commands descriptions hints th =
     (let described = (\<lambda>ds. fold (\<lambda>(c, d). AList.update c d) (filter (\<lambda>(_, d). d \<noteq> []) (zip commands ds)) [])
      in th\<lparr>ct_slash_commands := commands, ct_descriptions := described descriptions, ct_hints := described hints\<rparr>)"

definition on_resume_stale :: "utext \<Rightarrow> chat_thread \<Rightarrow> chat_thread" where
  "on_resume_stale attempted_id th =
     push_entry (EntryCompaction (lit ''Session no longer resumable '' @ [0x2014] @ lit '' starting fresh''))
       (end_assistant_window
          (if ct_session_id th = Some attempted_id then th\<lparr>ct_session_id := None\<rparr> else th))"

section \<open>Text\<close>

definition append_line :: "utext \<Rightarrow> utext \<Rightarrow> utext" where
  "append_line old t = (if old \<noteq> [] then old @ [10] @ t else t)"

definition on_text_delta :: "utext \<Rightarrow> chat_thread \<Rightarrow> chat_thread option" where
  "on_text_delta t th =
     map_option (\<lambda>th'. th'\<lparr>ct_text_streaming := True\<rparr>)
       (assistant_mut (\<lambda>m. m\<lparr>am_text := am_text m @ t\<rparr>) th)"

definition on_thinking_delta :: "utext \<Rightarrow> chat_thread \<Rightarrow> chat_thread option" where
  "on_thinking_delta t th =
     map_option (\<lambda>th'. th'\<lparr>ct_thinking_streaming := True\<rparr>)
       (assistant_mut (\<lambda>m. m\<lparr>am_thinking := am_thinking m @ t\<rparr>) th)"

definition on_text :: "utext \<Rightarrow> chat_thread \<Rightarrow> chat_thread option" where
  "on_text t th =
     (if ct_text_streaming th
      then map_option (\<lambda>th'. th'\<lparr>ct_text_streaming := False\<rparr>) (assistant_mut (\<lambda>m. m\<lparr>am_text := t\<rparr>) th)
      else assistant_mut (\<lambda>m. m\<lparr>am_text := append_line (am_text m) t\<rparr>) th)"

definition on_thinking :: "utext \<Rightarrow> chat_thread \<Rightarrow> chat_thread option" where
  "on_thinking t th =
     (if ct_thinking_streaming th
      then map_option (\<lambda>th'. th'\<lparr>ct_thinking_streaming := False\<rparr>) (assistant_mut (\<lambda>m. m\<lparr>am_thinking := t\<rparr>) th)
      else assistant_mut (\<lambda>m. m\<lparr>am_thinking := append_line (am_thinking m) t\<rparr>) th)"

section \<open>Tool calls\<close>

definition on_tool_started :: "utext \<Rightarrow> utext \<Rightarrow> json \<Rightarrow> chat_thread \<Rightarrow> chat_thread" where
  "on_tool_started i name input th =
     end_assistant_window
       (case tool_call_mut i (\<lambda>tc. let tc' = tc\<lparr>tc_name := name\<rparr> in
               if \<not> is_empty_input input then tc'\<lparr>tc_input := input, tc_partial_input := []\<rparr> else tc') th of
          Some th' \<Rightarrow>
            if \<not> is_empty_input input \<and> ct_streaming_tool_id th' = Some i
            then th'\<lparr>ct_streaming_tool_id := None\<rparr> else th'
        | None \<Rightarrow>
            (let th' = push_entry (EntryTool (tool_call_new i name input)) th
             in if is_empty_input input then th'\<lparr>ct_streaming_tool_id := Some i\<rparr> else th'))"

definition on_tool_input_delta :: "utext \<Rightarrow> utext \<Rightarrow> chat_thread \<Rightarrow> chat_thread" where
  "on_tool_input_delta tool_call_id partial_json th =
     (case (if tool_call_id = [] then ct_streaming_tool_id th else Some tool_call_id) of
        None \<Rightarrow> th
      | Some i \<Rightarrow>
          on_card i (\<lambda>tc. if utf8_len (tc_partial_input tc) < MAX_PARTIAL_INPUT_BYTES
                          then tc\<lparr>tc_partial_input := tc_partial_input tc @ partial_json\<rparr> else tc) th)"

definition settle_card :: "utext \<Rightarrow> bool \<Rightarrow> json option \<Rightarrow> tool_call \<Rightarrow> tool_call" where
  "settle_card content0 is_error structured0 tc =
     (let (content, structured) =
        (if tc_redact_result tc then (SECRET_PLACEHOLDER, None) else (content0, structured0))
      in tc\<lparr>tc_result := (if content \<noteq> [] \<or> tc_result tc = None then Some content else tc_result tc),
            tc_structured := (if structured \<noteq> None then structured else tc_structured tc),
            tc_status := (if is_error then TsFailed content else TsCompleted)\<rparr>)"

definition stream_output :: "utext \<Rightarrow> tool_call \<Rightarrow> tool_call" where
  "stream_output chunk tc =
     (if tc_redact_result tc then tc
      else tc\<lparr>tc_result := Some (case tc_result tc of Some existing \<Rightarrow> existing @ chunk | None \<Rightarrow> chunk)\<rparr>)"

text \<open>A card found by the id the request named, or a new one.\<close>

definition ask_on_card :: "utext option \<Rightarrow> utext \<Rightarrow> utext \<Rightarrow> json \<Rightarrow> tool_call_status \<Rightarrow> chat_thread \<Rightarrow> chat_thread" where
  "ask_on_card tool_use_id request_id name input status th =
     (case Option.bind tool_use_id (\<lambda>i. tool_call_mut i (\<lambda>tc. tc\<lparr>tc_status := status\<rparr>) th) of
        Some th' \<Rightarrow> th'
      | None \<Rightarrow>
          push_entry (EntryTool ((tool_call_new (case tool_use_id of Some i \<Rightarrow> i | None \<Rightarrow> request_id) name input)
                                   \<lparr>tc_status := status\<rparr>)) th)"

definition on_permission_requested ::
  "utext \<Rightarrow> utext option \<Rightarrow> utext \<Rightarrow> json \<Rightarrow> utext \<Rightarrow> permission_suggestion list \<Rightarrow> permission_kind \<Rightarrow>
   chat_thread \<Rightarrow> chat_thread" where
  "on_permission_requested request_id tool_use_id tool_name input description suggestions kind th =
     ask_on_card tool_use_id request_id tool_name input
       (WaitingForConfirmation \<lparr>pr_request_id = request_id, pr_kind = kind, pr_description = description,
                                pr_suggestions = suggestions\<rparr>) th"

definition on_question_asked :: "utext \<Rightarrow> utext option \<Rightarrow> ask_question list \<Rightarrow> chat_thread \<Rightarrow> chat_thread" where
  "on_question_asked request_id tool_use_id questions th =
     (if questions = [] then th
      else ask_on_card tool_use_id request_id (lit ''AskUserQuestion'') JNull
             (AwaitingAnswer \<lparr>qr_request_id = request_id, qr_questions = questions\<rparr>) th)"

definition on_permission_edited :: "utext \<Rightarrow> utext option \<Rightarrow> json \<Rightarrow> chat_thread \<Rightarrow> chat_thread" where
  "on_permission_edited request_id tool_use_id approved_input th =
     (let f = (\<lambda>tc. tc\<lparr>tc_approved_input := Some approved_input\<rparr>) in
      case Option.bind tool_use_id (\<lambda>i. tool_call_mut i f th) of
        Some th' \<Rightarrow> th'
      | None \<Rightarrow> (case tool_call_awaiting_mut request_id f th of Some th' \<Rightarrow> th' | None \<Rightarrow> th))"

section \<open>Turns\<close>

definition close_turn_with_diff :: "utext option \<Rightarrow> chat_thread \<Rightarrow> chat_thread" where
  "close_turn_with_diff wire_diff th =
     (let files = (case wire_diff of
                     Some d \<Rightarrow> stats_from_unified_diff d
                   | None \<Rightarrow> stats_from_turn_entries (ct_entries th))
      in if files = [] then th else push_entry (EntryTurnDiff files wire_diff) th)"

definition settle_usage :: "(f64 \<Rightarrow> f64 \<Rightarrow> f64) \<Rightarrow> turn_usage option \<Rightarrow> chat_thread \<Rightarrow> chat_thread" where
  "settle_usage fadd usage th =
     (case usage of
        None \<Rightarrow> th
      | Some u \<Rightarrow>
          th\<lparr>ct_session_cost := (case tu_cost_usd u of Some cost \<Rightarrow> fadd (ct_session_cost th) cost
                                 | None \<Rightarrow> ct_session_cost th),
             ct_last_known_window := (case tu_context_window u of Some w \<Rightarrow> Some w
                                      | None \<Rightarrow> ct_last_known_window th),
             ct_usage := Some u\<rparr>)"

text \<open>A last message that is only the error becomes a notice.\<close>

definition fold_refusal :: "utext option \<Rightarrow> thread_entry list \<Rightarrow> thread_entry list" where
  "fold_refusal result es =
     (case result of
        None \<Rightarrow> es
      | Some text \<Rightarrow>
          if es = [] then es
          else (case last es of
                  EntryAssistant m \<Rightarrow>
                    if am_thinking m = [] \<and> am_text m = text then butlast es @ [EntryCompaction text] else es
                | _ \<Rightarrow> es))"

definition error_text :: "utext option \<Rightarrow> utext option \<Rightarrow> utext" where
  "error_text result diagnostic =
     (case result of Some t \<Rightarrow> t | None \<Rightarrow> lit ''turn ended with error'') @
     (case diagnostic of Some d \<Rightarrow> if d \<noteq> [] then [10, 10] @ d else [] | None \<Rightarrow> [])"

definition continuation_over :: "chat_thread \<Rightarrow> chat_thread" where
  "continuation_over th =
     th\<lparr>ct_continuations_open := (if ct_continuations_open th = 0 then 0 else ct_continuations_open th - 1)\<rparr>"

definition on_turn_ended ::
  "(f64 \<Rightarrow> f64 \<Rightarrow> f64) \<Rightarrow> utext option \<Rightarrow> turn_usage option \<Rightarrow> bool \<Rightarrow> utext option \<Rightarrow> chat_thread \<Rightarrow> chat_thread" where
  "on_turn_ended fadd result usage is_error turn_diff th =
     (let th1 = (if \<not> ct_turn_active th then continuation_over th else th);
          th2 = settle_usage fadd usage
                  (end_assistant_window (th1\<lparr>ct_turn_active := False, ct_compacting := False\<rparr>));
          diagnostic = ct_pending_diagnostic th2;
          th3 = th2\<lparr>ct_pending_diagnostic := None\<rparr>;
          th4 = (if is_error
                 then th3\<lparr>ct_entries := fold_refusal result (ct_entries th3),
                          ct_last_error := Some (error_text result diagnostic)\<rparr>
                 else th3)
      in close_turn_with_diff turn_diff th4)"

definition on_live_usage :: "turn_usage \<Rightarrow> chat_thread \<Rightarrow> chat_thread" where
  "on_live_usage u th =
     th\<lparr>ct_last_known_window := (case tu_context_window u of Some w \<Rightarrow> Some w | None \<Rightarrow> ct_last_known_window th),
        ct_live_usage := Some u\<rparr>"

definition on_notice :: "utext \<Rightarrow> chat_thread \<Rightarrow> chat_thread" where
  "on_notice text th =
     (if ct_entries th \<noteq> [] \<and> last (ct_entries th) = EntryCompaction text then th
      else push_entry (EntryCompaction text) (end_assistant_window th))"

section \<open>Background tasks\<close>

text \<open>\<open>background_task_mut\<close>: the first task with the id.\<close>

fun background_task_mut ::
  "utext \<Rightarrow> (background_task \<Rightarrow> background_task) \<Rightarrow> background_task list \<Rightarrow> background_task list option" where
  "background_task_mut i f [] = None"
| "background_task_mut i f (t # ts) =
     (if bt_task_id t = i then Some (f t # ts) else map_option ((#) t) (background_task_mut i f ts))"

definition on_task :: "utext \<Rightarrow> (background_task \<Rightarrow> background_task) \<Rightarrow> chat_thread \<Rightarrow> chat_thread" where
  "on_task i f th =
     (case background_task_mut i f (ct_background_tasks th) of
        Some ts \<Rightarrow> th\<lparr>ct_background_tasks := ts\<rparr> | None \<Rightarrow> th)"

definition on_task_started :: "utext \<Rightarrow> utext \<Rightarrow> background_task_kind \<Rightarrow> utext \<Rightarrow> chat_thread \<Rightarrow> chat_thread" where
  "on_task_started task_id tool_use_id kind description th =
     (case background_task_mut task_id
             (\<lambda>t. t\<lparr>bt_tool_use_id := tool_use_id, bt_kind := kind, bt_description := description\<rparr>)
             (ct_background_tasks th) of
        Some ts \<Rightarrow> th\<lparr>ct_background_tasks := ts\<rparr>
      | None \<Rightarrow> th\<lparr>ct_background_tasks := ct_background_tasks th @ [task_started task_id tool_use_id kind description]\<rparr>)"

definition later :: "'a option \<Rightarrow> 'a option \<Rightarrow> 'a option" where
  "later new old = (if new \<noteq> None then new else old)"

definition task_progress :: "utext option \<Rightarrow> background_task \<Rightarrow> background_task" where
  "task_progress last_tool t =
     t\<lparr>bt_tool_uses := (if bt_tool_uses t = - 1 then - 1 else bt_tool_uses t + 1),
       bt_last_tool := later last_tool (bt_last_tool t)\<rparr>"

definition task_finished ::
  "bool \<Rightarrow> u64 option \<Rightarrow> utext option \<Rightarrow> utext option \<Rightarrow> background_task \<Rightarrow> background_task" where
  "task_finished failed ended_at_ms summary output_file t =
     t\<lparr>bt_status := (if failed then TaskFailed else TaskCompleted),
       bt_ended_at_ms := later ended_at_ms (bt_ended_at_ms t), bt_summary := later summary (bt_summary t),
       bt_output_file := later output_file (bt_output_file t)\<rparr>"

section \<open>The fold\<close>

fun fold_event :: "(f64 \<Rightarrow> f64 \<Rightarrow> f64) \<Rightarrow> thread_event \<Rightarrow> chat_thread \<Rightarrow> chat_thread option" where
  "fold_event fadd (EvSessionInit s m p cs meta) th = Some (on_session_init s m p cs meta th)"
| "fold_event fadd (EvUserMessage text images) th = Some (push_user_message_with_images text images th)"
| "fold_event fadd (EvAssistantTextDelta t) th = on_text_delta t th"
| "fold_event fadd (EvThinkingDelta t) th = on_thinking_delta t th"
| "fold_event fadd (EvAssistantText t) th = on_text t th"
| "fold_event fadd (EvAssistantThinking t) th = on_thinking t th"
| "fold_event fadd (EvToolCallStarted i name input) th = Some (on_tool_started i name input th)"
| "fold_event fadd (EvToolInputDelta i partial_json) th = Some (on_tool_input_delta i partial_json th)"
| "fold_event fadd (EvToolResult i content is_error structured) th =
     Some (on_card i (settle_card content is_error structured) th)"
| "fold_event fadd (EvToolResultImages i images) th =
     Some (if images = [] then th else on_card i (\<lambda>tc. tc\<lparr>tc_images := images\<rparr>) th)"
| "fold_event fadd (EvToolOutputDelta i chunk) th = Some (on_card i (stream_output chunk) th)"
| "fold_event fadd (EvToolTerminal i terminal_id) th =
     Some (on_card i (\<lambda>tc. tc\<lparr>tc_terminal_id := Some terminal_id\<rparr>) th)"
| "fold_event fadd (EvToolKind i kind) th = Some (on_card i (\<lambda>tc. tc\<lparr>tc_kind := Some kind\<rparr>) th)"
| "fold_event fadd (EvPermissionRequested r i name input d sgs k) th =
     Some (on_permission_requested r i name input d sgs k th)"
| "fold_event fadd (EvQuestionAsked r i qs) th = Some (on_question_asked r i qs th)"
| "fold_event fadd (EvPermissionEdited r i approved) th = Some (on_permission_edited r i approved th)"
| "fold_event fadd (EvTurnSummary detail category) th =
     Some (end_assistant_window (th\<lparr>ct_last_summary := Some detail\<rparr>))"
| "fold_event fadd EvCompactionStarted th = Some (th\<lparr>ct_compacting := True\<rparr>)"
| "fold_event fadd (EvCompactBoundary summary) th =
     Some (push_entry (EntryCompaction summary) (end_assistant_window (th\<lparr>ct_compacting := False\<rparr>)))"
| "fold_event fadd (EvTurnFailed status reason) th = Some (th\<lparr>ct_last_turn_failure := Some (status, reason)\<rparr>)"
| "fold_event fadd (EvRateLimitUpdated info) th = Some (th\<lparr>ct_last_rate_limit := Some info\<rparr>)"
| "fold_event fadd EvProviderTurnStarted th =
     Some (if \<not> ct_turn_active th then th\<lparr>ct_continuations_open := ct_continuations_open th + 1\<rparr> else th)"
| "fold_event fadd EvContinuationEnded th = Some (continuation_over th)"
| "fold_event fadd (EvUserMessageAccepted _) th = Some th"
| "fold_event fadd (EvUserMessagesDelivered _) th = Some th"
| "fold_event fadd (EvUserMessageDropped _) th = Some th"
| "fold_event fadd (EvTurnEnded result usage is_error turn_diff) th =
     Some (on_turn_ended fadd result usage is_error turn_diff th)"
| "fold_event fadd (EvBackgroundTaskStarted t i k d) th = Some (on_task_started t i k d th)"
| "fold_event fadd (EvBackgroundTaskProgress t last_tool) th = Some (on_task t (task_progress last_tool) th)"
| "fold_event fadd (EvBackgroundTaskFinished t failed at summary file) th =
     Some (on_task t (task_finished failed at summary file) th)"
| "fold_event fadd (EvPlanUpdated entries) th = Some (th\<lparr>ct_plan := (if entries \<noteq> [] then Some entries else None)\<rparr>)"
| "fold_event fadd (EvSlashCommandsUpdated commands descriptions hints) th =
     Some (on_commands_updated commands descriptions hints th)"
| "fold_event fadd (EvModeChanged mode_id) th = Some (th\<lparr>ct_permission_mode := Some mode_id\<rparr>)"
| "fold_event fadd (EvTitleUpdated title) th = Some (th\<lparr>ct_title := Some title\<rparr>)"
| "fold_event fadd (EvLiveUsage u) th = Some (on_live_usage u th)"
| "fold_event fadd (EvDiagnostic text) th = Some (th\<lparr>ct_pending_diagnostic := Some text\<rparr>)"
| "fold_event fadd (EvNotice text) th = Some (on_notice text th)"
| "fold_event fadd (EvSessionResumeStale attempted_id) th = Some (on_resume_stale attempted_id th)"
| "fold_event fadd EvControlsUpdated th = Some th"
| "fold_event fadd (EvAuthRequired _ _) th = Some th"
| "fold_event fadd (EvAuthTerminal _) th = Some th"
| "fold_event fadd (EvAuthUrl _) th = Some th"
| "fold_event fadd (EvAuthOutcome _ _) th = Some th"
| "fold_event fadd (EvSubagentAction i line) th = Some (on_card i (push_subagent_action line) th)"
| "fold_event fadd (EvError msg) th =
     Some (th\<lparr>ct_last_error := Some msg, ct_turn_active := False, ct_compacting := False\<rparr>)"
| "fold_event fadd (EvRewound ordinal) th = map_option snd (truncate_to_user ordinal th)"

definition apply_event :: "(f64 \<Rightarrow> f64 \<Rightarrow> f64) \<Rightarrow> thread_event \<Rightarrow> chat_thread \<Rightarrow> chat_thread option" where
  "apply_event fadd ev th = fold_event fadd ev (touch th)"

section \<open>Runs\<close>

datatype chat_op =
    ChatApply thread_event
  | ChatSend utext "chat_image list"
  | ChatImport "thread_entry list"
  | ChatClear
  | ChatInterrupt
  | ChatCheckpoint nat utext
  | ChatCheckpointShow nat bool
  | ChatTruncate nat
  | ChatToolStatus utext tool_call_status
  | ChatToolRefusal utext utext
  | ChatMarkSecret utext

fun chat_step :: "(f64 \<Rightarrow> f64 \<Rightarrow> f64) \<Rightarrow> chat_op \<Rightarrow> chat_thread \<Rightarrow> chat_thread option" where
  "chat_step fadd (ChatApply ev) th = apply_event fadd ev th"
| "chat_step fadd (ChatSend text images) th = Some (push_user_message_with_images text images th)"
| "chat_step fadd (ChatImport tail) th = Some (append_imported tail th)"
| "chat_step fadd ChatClear th = Some (chat_clear th)"
| "chat_step fadd ChatInterrupt th = Some (interrupt th)"
| "chat_step fadd (ChatCheckpoint i sha) th = Some (attach_checkpoint i sha th)"
| "chat_step fadd (ChatCheckpointShow i shown) th = Some (set_checkpoint_show i shown th)"
| "chat_step fadd (ChatTruncate n) th = map_option snd (truncate_to_user n th)"
| "chat_step fadd (ChatToolStatus i s) th = Some (set_tool_status i s th)"
| "chat_step fadd (ChatToolRefusal i reason) th = Some (set_tool_refusal i reason th)"
| "chat_step fadd (ChatMarkSecret i) th = Some (mark_secret_answer i th)"

fun chat_run :: "(f64 \<Rightarrow> f64 \<Rightarrow> f64) \<Rightarrow> chat_op list \<Rightarrow> chat_thread \<Rightarrow> chat_thread option" where
  "chat_run fadd [] th = Some th"
| "chat_run fadd (op # ops) th = Option.bind (chat_step fadd op th) (chat_run fadd ops)"

end
