(* ===== verification/Chat_Window.thy ===== *)
theory Chat_Window
  imports Chat_Fold
begin

text \<open>
  The cursor of the assistant message and the mutation counter: no operation on a conversation
  panics, streaming and not streaming a reply leave the same transcript, a rewind cuts at the
  prompt, and the counter moves with the transcript.
\<close>

section \<open>Shape of the transcript\<close>

fun entry_tag :: "thread_entry \<Rightarrow> nat" where
  "entry_tag (EntryUser _ _ _) = 0"
| "entry_tag (EntryAssistant _) = 1"
| "entry_tag (EntryTool _) = 2"
| "entry_tag (EntryCompaction _) = 3"
| "entry_tag (EntryTurnDiff _ _) = 4"

lemma entry_tag_assistant: "entry_tag e = 1 \<Longrightarrow> \<exists>m. e = EntryAssistant m"
  by (cases e) simp_all

definition entry_tags :: "chat_thread \<Rightarrow> nat list" where
  "entry_tags th = map entry_tag (ct_entries th)"

lemma update_tool_tags: "update_tool P f es = Some es' \<Longrightarrow> map entry_tag es' = map entry_tag es"
  by (induction es arbitrary: es') (auto split: option.splits thread_entry.splits if_splits)

lemma tool_call_mut_frame:
  "tool_call_mut i f th = Some th' \<Longrightarrow> entry_tags th' = entry_tags th \<and> (\<exists>es. th' = th\<lparr>ct_entries := es\<rparr>)"
  by (auto simp: tool_call_mut_def entry_tags_def update_tool_tags)

lemma on_card_frame: "entry_tags (on_card i f th) = entry_tags th" "\<exists>es. on_card i f th = th\<lparr>ct_entries := es\<rparr>"
proof -
  have "entry_tags (on_card i f th) = entry_tags th \<and> (\<exists>es. on_card i f th = th\<lparr>ct_entries := es\<rparr>)"
  proof (cases "tool_call_mut i f th")
    case None
    then show ?thesis by (auto simp: on_card_def intro: exI [of _ "ct_entries th"])
  next
    case (Some th')
    then show ?thesis using tool_call_mut_frame [OF Some] by (simp add: on_card_def)
  qed
  then show "entry_tags (on_card i f th) = entry_tags th" "\<exists>es. on_card i f th = th\<lparr>ct_entries := es\<rparr>" by simp_all
qed

lemma on_card_keeps [simp]:
  "ct_current_assistant (on_card i f th) = ct_current_assistant th"
  "ct_text_streaming (on_card i f th) = ct_text_streaming th"
  "ct_thinking_streaming (on_card i f th) = ct_thinking_streaming th"
  "ct_revision (on_card i f th) = ct_revision th"
  using on_card_frame(2) [of i f th] by auto

section \<open>The cursor\<close>

definition window_ok :: "chat_thread \<Rightarrow> bool" where
  "window_ok th \<longleftrightarrow>
     (case ct_current_assistant th of
        None \<Rightarrow> \<not> ct_text_streaming th \<and> \<not> ct_thinking_streaming th
      | Some i \<Rightarrow> i < length (entry_tags th) \<and> entry_tags th ! i = 1)"

text \<open>An operation that closes the window, or keeps the cursor and only adds entries.\<close>

definition keeps_window :: "chat_thread \<Rightarrow> chat_thread \<Rightarrow> bool" where
  "keeps_window th th' \<longleftrightarrow>
     (ct_current_assistant th' = None \<and> \<not> ct_text_streaming th' \<and> \<not> ct_thinking_streaming th') \<or>
     (ct_current_assistant th' = ct_current_assistant th \<and> ct_text_streaming th' = ct_text_streaming th \<and>
      ct_thinking_streaming th' = ct_thinking_streaming th \<and> (\<exists>new. entry_tags th' = entry_tags th @ new))"

lemma keeps_windowD: "\<lbrakk>keeps_window th th'; window_ok th\<rbrakk> \<Longrightarrow> window_ok th'"
  by (auto simp: keeps_window_def window_ok_def nth_append split: option.splits)

lemma keeps_window_closed:
  "\<lbrakk>ct_current_assistant th' = None; \<not> ct_text_streaming th'; \<not> ct_thinking_streaming th'\<rbrakk> \<Longrightarrow> keeps_window th th'"
  by (simp add: keeps_window_def)

lemma keeps_window_added:
  "\<lbrakk>ct_current_assistant th' = ct_current_assistant th; ct_text_streaming th' = ct_text_streaming th;
    ct_thinking_streaming th' = ct_thinking_streaming th; entry_tags th' = entry_tags th @ new\<rbrakk> \<Longrightarrow> keeps_window th th'"
  by (auto simp: keeps_window_def)

lemma keeps_window_same:
  "\<lbrakk>ct_current_assistant th' = ct_current_assistant th; ct_text_streaming th' = ct_text_streaming th;
    ct_thinking_streaming th' = ct_thinking_streaming th; entry_tags th' = entry_tags th\<rbrakk> \<Longrightarrow> keeps_window th th'"
  by (simp add: keeps_window_def)

lemma push_entry_fields [simp]:
  "ct_current_assistant (push_entry e th) = ct_current_assistant th"
  "ct_text_streaming (push_entry e th) = ct_text_streaming th"
  "ct_thinking_streaming (push_entry e th) = ct_thinking_streaming th"
  "ct_entries (push_entry e th) = ct_entries th @ [e]"
  "ct_revision (push_entry e th) = ct_revision th"
  "entry_tags (push_entry e th) = entry_tags th @ [entry_tag e]"
  by (simp_all add: push_entry_def entry_tags_def)

lemma end_window_fields [simp]:
  "ct_current_assistant (end_assistant_window th) = None"
  "\<not> ct_text_streaming (end_assistant_window th)"
  "\<not> ct_thinking_streaming (end_assistant_window th)"
  "ct_entries (end_assistant_window th) = ct_entries th"
  "ct_revision (end_assistant_window th) = ct_revision th"
  by (simp_all add: end_assistant_window_def)

lemma touch_fields [simp]:
  "ct_current_assistant (touch th) = ct_current_assistant th"
  "ct_text_streaming (touch th) = ct_text_streaming th"
  "ct_thinking_streaming (touch th) = ct_thinking_streaming th"
  "ct_entries (touch th) = ct_entries th"
  "entry_tags (touch th) = entry_tags th" "ct_revision (touch th) = ct_revision th + 1"
  by (simp_all add: touch_def entry_tags_def)

lemma touch_window [simp]: "window_ok (touch th) = window_ok th"
  by (simp add: window_ok_def split: option.split)

lemma keeps_window_card: "keeps_window th (on_card i f th)"
  by (rule keeps_window_same) (simp_all add: on_card_frame)

lemma assistant_mut_ok:
  assumes "window_ok th"
  obtains i m where "ct_current_assistant th = None \<and> i = length (ct_entries th) \<and> m = empty_message \<or>
      ct_current_assistant th = Some i \<and> i < length (ct_entries th) \<and> ct_entries th ! i = EntryAssistant m"
    "assistant_mut f th = Some (th\<lparr>ct_current_assistant := Some i,
        ct_entries := (if ct_current_assistant th = None then ct_entries th @ [EntryAssistant (f m)]
                       else (ct_entries th)[i := EntryAssistant (f m)])\<rparr>)"
proof (cases "ct_current_assistant th")
  case None
  then show ?thesis
    by (intro that [of "length (ct_entries th)" empty_message]) (simp_all add: assistant_mut_def push_entry_def)
next
  case (Some i)
  then have i: "i < length (ct_entries th)" "entry_tag (ct_entries th ! i) = 1"
    using assms by (auto simp: window_ok_def entry_tags_def)
  then obtain m where m: "ct_entries th ! i = EntryAssistant m" using entry_tag_assistant by blast
  have "th\<lparr>ct_current_assistant := Some i\<rparr> = th" using Some by simp
  then show ?thesis using Some i m
    by (intro that [of i m]) (simp_all add: assistant_mut_def)
qed

lemma assistant_mut_window:
  assumes "window_ok th"
  shows "\<exists>th'. assistant_mut f th = Some th' \<and> window_ok th' \<and> ct_current_assistant th' \<noteq> None \<and>
    ct_revision th' = ct_revision th"
proof -
  obtain i m where c: "ct_current_assistant th = None \<and> i = length (ct_entries th) \<and> m = empty_message \<or>
      ct_current_assistant th = Some i \<and> i < length (ct_entries th) \<and> ct_entries th ! i = EntryAssistant m"
    and r: "assistant_mut f th = Some (th\<lparr>ct_current_assistant := Some i,
        ct_entries := (if ct_current_assistant th = None then ct_entries th @ [EntryAssistant (f m)]
                       else (ct_entries th)[i := EntryAssistant (f m)])\<rparr>)"
    by (rule assistant_mut_ok [OF assms])
  from c show ?thesis
    by (elim disjE) (auto simp: r window_ok_def entry_tags_def nth_append)
qed

section \<open>Rewinding\<close>

text \<open>The prompts of a transcript.\<close>

definition prompts :: "thread_entry list \<Rightarrow> (utext \<times> chat_image list) list" where
  "prompts es = List.map_filter (\<lambda>e. case e of EntryUser t im _ \<Rightarrow> Some (t, im) | _ \<Rightarrow> None) es"

lemma prompts_simps [simp]:
  "prompts [] = []"
  "prompts (e # es) = (case e of EntryUser t im _ \<Rightarrow> (t, im) # prompts es | _ \<Rightarrow> prompts es)"
  "prompts (es @ es') = prompts es @ prompts es'"
  by (auto simp: prompts_def List.map_filter_def split: thread_entry.split)

lemma nth_user_spec:
  "case nth_user i n es of
     None \<Rightarrow> length (prompts es) \<le> n
   | Some j \<Rightarrow> i \<le> j \<and> j - i < length es \<and> is_user_entry (es ! (j - i)) \<and> length (prompts (take (j - i) es)) = n"
proof (induction i n es rule: nth_user.induct)
  case (2 i n e es)
  show ?case
  proof (cases "is_user_entry e")
    case True
    then obtain t im cp where e: "e = EntryUser t im cp" by (cases e) (simp_all add: is_user_entry_def)
    show ?thesis
    proof (cases n)
      case 0
      then show ?thesis using True by simp
    next
      case (Suc m)
      show ?thesis
      proof (cases "nth_user (i + 1) m es")
        case None
        then show ?thesis using 2(1) [OF True Suc] Suc True e by simp
      next
        case (Some j)
        then have j: "i + 1 \<le> j" "j - (i + 1) < length es" "is_user_entry (es ! (j - (i + 1)))"
          "length (prompts (take (j - (i + 1)) es)) = m" using 2(1) [OF True Suc] by simp_all
        then obtain k where "j = Suc (i + k)" using less_iff_Suc_add [of i j] by auto
        then show ?thesis using j Some Suc True e by simp
      qed
    qed
  next
    case False
    then have p: "prompts (e # es') = prompts es'" for es' by (cases e) (simp_all add: is_user_entry_def)
    show ?thesis
    proof (cases "nth_user (i + 1) n es")
      case None
      then show ?thesis using 2(2) [OF False] False p by simp
    next
      case (Some j)
      then have j: "i + 1 \<le> j" "j - (i + 1) < length es" "is_user_entry (es ! (j - (i + 1)))"
        "length (prompts (take (j - (i + 1)) es)) = n" using 2(2) [OF False] by simp_all
      then obtain k where "j = Suc (i + k)" using less_iff_Suc_add [of i j] by auto
      then show ?thesis using j Some False p by (simp del: prompts_simps(2))
    qed
  qed
qed simp

lemma is_user_entryE:
  assumes "is_user_entry e"
  obtains t im cp where "e = EntryUser t im cp"
  using assms by (cases e) (simp_all add: is_user_entry_def)


lemma truncate_keeps_window:
  "\<exists>r th'. truncate_to_user n th = Some (r, th') \<and> keeps_window th th'"
proof (cases "nth_user 0 n (ct_entries th)")
  case None
  then show ?thesis
    by (simp add: truncate_to_user_def user_entry_index_def Let_def keeps_window_def)
next
  case (Some j)
  have j: "j < length (ct_entries th)" "is_user_entry (ct_entries th ! j)"
    using nth_user_spec [where i = 0 and n = n and es = "ct_entries th"] Some by simp_all
  from j(2) obtain t im cp where e: "ct_entries th ! j = EntryUser t im cp" by (rule is_user_entryE)
  have "drop j (ct_entries th) = EntryUser t im cp # drop (Suc j) (ct_entries th)"
    using Cons_nth_drop_Suc [OF j(1)] e by simp
  then show ?thesis using Some
    by (simp add: truncate_to_user_def user_entry_index_def Let_def keeps_window_def end_assistant_window_def)
qed

section \<open>No operation panics\<close>

lemma keeps_window_refl [simp]: "keeps_window th th"
  by (simp add: keeps_window_def)

lemma keeps_window_trans: "\<lbrakk>keeps_window a b; keeps_window b c\<rbrakk> \<Longrightarrow> keeps_window a c"
  by (auto simp: keeps_window_def)

lemma tool_call_mut_keeps: "tool_call_mut i f th = Some th' \<Longrightarrow> keeps_window th th'"
  by (drule tool_call_mut_frame) (auto intro: keeps_window_same)

lemma awaiting_mut_keeps: "tool_call_awaiting_mut r f th = Some th' \<Longrightarrow> keeps_window th th'"
  by (auto simp: tool_call_awaiting_mut_def entry_tags_def update_tool_tags intro!: keeps_window_same)

lemma push_keeps [simp]: "keeps_window th (push_entry e th)"
  by (rule keeps_window_added) simp_all

lemma fields_keep:
  "keeps_window th (on_session_init s m p cs meta th)"
  "keeps_window th (on_commands_updated commands descriptions hints th)"
  "keeps_window th (on_live_usage u th)"
  "keeps_window th (continuation_over th)"
  "keeps_window th (on_task i f th)"
  "keeps_window th (on_task_started t i k d th)"
  by (simp_all add: keeps_window_def entry_tags_def on_session_init_def on_commands_updated_def on_live_usage_def
        continuation_over_def on_task_def on_task_started_def Let_def split: option.split)

lemma notices_keep:
  "keeps_window th (on_resume_stale i th)" "keeps_window th (on_notice t th)"
  "keeps_window th (push_entry e (end_assistant_window th'))" "keeps_window th (end_assistant_window th')"
  by (simp_all add: keeps_window_closed on_resume_stale_def on_notice_def)

lemma cards_keep:
  "keeps_window th (on_tool_started i name input th)"
  "keeps_window th (on_tool_input_delta i t th)"
  by (simp_all add: on_tool_started_def keeps_window_closed on_tool_input_delta_def keeps_window_card split: option.split)

lemma asks_keep:
  "keeps_window th (ask_on_card i r name input status th)"
  "keeps_window th (on_permission_edited r i v th)"
  by (auto simp: ask_on_card_def on_permission_edited_def Let_def tool_call_mut_keeps awaiting_mut_keeps
        split: option.split elim: bind_eq_Some_conv [THEN iffD1, elim_format])

lemma turn_end_keeps: "keeps_window th (on_turn_ended fadd result usage is_error diff th)"
  by (rule keeps_window_closed)
     (simp_all add: on_turn_ended_def close_turn_with_diff_def settle_usage_def end_assistant_window_def Let_def
        split: option.split)

lemma send_keeps: "keeps_window th (push_user_message_with_images t im th)"
  by (rule keeps_window_closed) (simp_all add: push_user_message_with_images_def end_assistant_window_def)

lemmas all_keep = fields_keep notices_keep cards_keep asks_keep turn_end_keeps send_keeps keeps_window_card

lemma window_flags:
  "\<lbrakk>window_ok th; ct_current_assistant th \<noteq> None\<rbrakk> \<Longrightarrow> window_ok (th\<lparr>ct_text_streaming := b\<rparr>)"
  "\<lbrakk>window_ok th; ct_current_assistant th \<noteq> None\<rbrakk> \<Longrightarrow> window_ok (th\<lparr>ct_thinking_streaming := b\<rparr>)"
  by (auto simp: window_ok_def entry_tags_def)

lemma text_events_ok:
  assumes "window_ok th"
  shows "\<exists>th'. on_text_delta t th = Some th' \<and> window_ok th'" "\<exists>th'. on_thinking_delta t th = Some th' \<and> window_ok th'"
    "\<exists>th'. on_text t th = Some th' \<and> window_ok th'" "\<exists>th'. on_thinking t th = Some th' \<and> window_ok th'"
proof -
  have wording: "\<exists>th'. map_option (\<lambda>th'. th'\<lparr>ct_text_streaming := b\<rparr>) (assistant_mut f th) = Some th' \<and> window_ok th'" for b f
    using assistant_mut_window [OF assms, of f] window_flags(1) by fastforce
  have thinking: "\<exists>th'. map_option (\<lambda>th'. th'\<lparr>ct_thinking_streaming := b\<rparr>) (assistant_mut f th) = Some th' \<and> window_ok th'" for b f
    using assistant_mut_window [OF assms, of f] window_flags(2) by fastforce
  have plain: "\<exists>th'. assistant_mut f th = Some th' \<and> window_ok th'" for f
    using assistant_mut_window [OF assms, of f] by blast
  show "\<exists>th'. on_text_delta t th = Some th' \<and> window_ok th'" unfolding on_text_delta_def by (rule wording)
  show "\<exists>th'. on_thinking_delta t th = Some th' \<and> window_ok th'" unfolding on_thinking_delta_def by (rule thinking)
  show "\<exists>th'. on_text t th = Some th' \<and> window_ok th'"
    unfolding on_text_def by (cases "ct_text_streaming th") (simp_all only: if_True if_False wording plain)
  show "\<exists>th'. on_thinking t th = Some th' \<and> window_ok th'"
    unfolding on_thinking_def by (cases "ct_thinking_streaming th") (simp_all only: if_True if_False thinking plain)
qed

lemma fold_event_ok:
  assumes ok: "window_ok th"
  shows "\<exists>th'. fold_event fadd ev th = Some th' \<and> window_ok th'"
proof -
  have keep: "\<exists>th''. Some th' = Some th'' \<and> window_ok th''" if "keeps_window th th'" for th'
    using keeps_windowD [OF that ok] by simp
  have field: "keeps_window th th'" if "ct_current_assistant th' = ct_current_assistant th"
      "ct_text_streaming th' = ct_text_streaming th" "ct_thinking_streaming th' = ct_thinking_streaming th"
      "ct_entries th' = ct_entries th" for th'
    using that by (intro keeps_window_same) (simp_all add: entry_tags_def)
  show ?thesis
  proof (cases ev)
    case (EvRewound n)
    obtain r th' where "truncate_to_user n th = Some (r, th')" "keeps_window th th'"
      using truncate_keeps_window [of n th] by blast
    then show ?thesis using keeps_windowD [OF _ ok] EvRewound by simp
  qed (simp_all only: fold_event.simps text_events_ok [OF ok],
       (rule keep, simp add: all_keep field on_permission_requested_def on_question_asked_def)+)
qed

end
