(* ===== verification/Chat_Reply.thy ===== *)
theory Chat_Reply
  imports Chat_Window
begin

text \<open>
  What every run of a conversation has: it never panics, a streamed reply ends up as the finalized
  one, stopping leaves nothing pending, and the mutation counter moves whenever the transcript does.
\<close>

section \<open>Runs\<close>

lemma update_entry_tags:
  "(\<And>e. entry_tag (f e) = entry_tag e) \<Longrightarrow> map entry_tag (update_entry i f es) = map entry_tag es"
  by (simp add: update_entry_def map_update) (metis list_update_id nth_map)

lemma checkpoint_tags:
  "entry_tag (case e of EntryUser t im cp \<Rightarrow> EntryUser t im (g cp) | _ \<Rightarrow> e) = entry_tag e"
  "entry_tag (case e of EntryUser t im (Some cp) \<Rightarrow> EntryUser t im (h cp) | _ \<Rightarrow> e) = entry_tag e"
  by (cases e; simp split: option.split)+

lemma stop_card_tag: "entry_tag (stop_card e) = entry_tag e"
  by (cases e) (simp_all add: stop_card_def)

lemma steps_keep:
  "keeps_window th (append_imported tail th)"
  "keeps_window th (chat_clear th)"
  "keeps_window th (interrupt th)"
  "keeps_window th (attach_checkpoint i sha th)"
  "keeps_window th (set_checkpoint_show i shown th)"
  subgoal by (auto simp: append_imported_def entry_tags_def touch_def intro: keeps_window_added [where new = "map entry_tag tail"])
  subgoal by (rule keeps_window_closed) (simp_all add: chat_clear_def chat_new_def)
  subgoal by (rule keeps_window_same) (simp_all add: interrupt_def entry_tags_def stop_card_tag touch_def)
  subgoal by (rule keeps_window_same) (simp_all add: attach_checkpoint_def entry_tags_def update_entry_tags checkpoint_tags(1) touch_def)
  subgoal by (rule keeps_window_same) (simp_all add: set_checkpoint_show_def entry_tags_def update_entry_tags checkpoint_tags(2) touch_def)
  done

lemma chat_step_ok:
  assumes ok: "window_ok th"
  shows "\<exists>th'. chat_step fadd op th = Some th' \<and> window_ok th'"
proof (cases op)
  case (ChatApply ev)
  then show ?thesis using fold_event_ok [of "touch th"] ok by (simp add: apply_event_def)
next
  case (ChatTruncate n)
  obtain r th' where "truncate_to_user n th = Some (r, th')" "keeps_window th th'"
    using truncate_keeps_window [of n th] by blast
  then show ?thesis using keeps_windowD [OF _ ok] ChatTruncate by simp
next
  case (ChatToolStatus i s)
  then show ?thesis using keeps_windowD [OF keeps_window_card, of "touch th"] ok by (simp add: set_tool_status_def)
next
  case (ChatToolRefusal i s)
  then show ?thesis using keeps_windowD [OF keeps_window_card, of "touch th"] ok by (simp add: set_tool_refusal_def)
next
  case (ChatMarkSecret i)
  then show ?thesis using keeps_windowD [OF keeps_window_card, of "touch th"] ok by (simp add: mark_secret_answer_def)
qed (use keeps_windowD [OF steps_keep(1) ok] keeps_windowD [OF steps_keep(2) ok] keeps_windowD [OF steps_keep(3) ok]
       keeps_windowD [OF steps_keep(4) ok] keeps_windowD [OF steps_keep(5) ok] keeps_windowD [OF send_keeps ok]
     in simp_all)

lemma chat_run_ok: "window_ok th \<Longrightarrow> \<exists>th'. chat_run fadd ops th = Some th' \<and> window_ok th'"
proof (induction ops arbitrary: th)
  case (Cons op ops)
  obtain th1 where "chat_step fadd op th = Some th1" "window_ok th1" using chat_step_ok [OF Cons.prems] by blast
  then show ?case using Cons.IH [of th1] by simp
qed simp

lemma rehydrated_window: "window_ok (rehydrated s m es cs)"
  by (simp add: window_ok_def rehydrated_def chat_new_def)

text \<open>
  C2: No conversation panics: from any restored transcript (an empty one is a new chat) and through
  any sequence of provider events, sends, imports, stops, rewinds, checkpoints and decisions, every
  operation returns, and the message being streamed into, if there is one, is an assistant message
  of the transcript.
\<close>

theorem chat_never_panics:
  "\<exists>th. chat_run fadd ops (rehydrated session model entries commands) = Some th \<and>
     (case ct_current_assistant th of
        None \<Rightarrow> \<not> ct_text_streaming th \<and> \<not> ct_thinking_streaming th
      | Some i \<Rightarrow> i < length (ct_entries th) \<and> (case ct_entries th ! i of EntryAssistant _ \<Rightarrow> True | _ \<Rightarrow> False))"
proof -
  obtain th where r: "chat_run fadd ops (rehydrated session model entries commands) = Some th" and ok: "window_ok th"
    using chat_run_ok [OF rehydrated_window] by blast
  show ?thesis
  proof (cases "ct_current_assistant th")
    case None
    then show ?thesis using r ok by (simp add: window_ok_def)
  next
    case (Some i)
    then have i: "i < length (ct_entries th)" "map entry_tag (ct_entries th) ! i = 1"
      using ok by (simp_all add: window_ok_def entry_tags_def)
    then have "entry_tag (ct_entries th ! i) = 1" by simp
    from entry_tag_assistant [OF this] obtain m where "ct_entries th ! i = EntryAssistant m" by blast
    then show ?thesis using r i Some by simp
  qed
qed

section \<open>A streamed reply\<close>

fun is_text_delta :: "thread_event \<Rightarrow> bool" where
  "is_text_delta (EvAssistantTextDelta _) = True"
| "is_text_delta (EvThinkingDelta _) = True"
| "is_text_delta _ = False"

text \<open>Where a reply stands that began with the window closed on the entries \<open>es\<close>.\<close>

definition replying :: "thread_entry list \<Rightarrow> chat_thread \<Rightarrow> assistant_message \<Rightarrow> bool" where
  "replying es th m \<longleftrightarrow>
     (ct_current_assistant th = None \<and> ct_entries th = es \<and> m = empty_message \<or>
      ct_current_assistant th = Some (length es) \<and> ct_entries th = es @ [EntryAssistant m]) \<and>
     (\<not> ct_text_streaming th \<longrightarrow> am_text m = []) \<and> (\<not> ct_thinking_streaming th \<longrightarrow> am_thinking m = [])"

lemma replying_mut:
  assumes "replying es th m"
  shows "assistant_mut f th = Some (th\<lparr>ct_current_assistant := Some (length es), ct_entries := es @ [EntryAssistant (f m)]\<rparr>)"
proof (cases "ct_current_assistant th")
  case None
  then have "ct_entries th = es" "m = empty_message" using assms by (simp_all add: replying_def)
  then show ?thesis using None by (simp add: assistant_mut_def push_entry_def)
next
  case (Some i)
  then have "i = length es" "ct_entries th = es @ [EntryAssistant m]" using assms by (simp_all add: replying_def)
  moreover from this have "th\<lparr>ct_current_assistant := Some (length es)\<rparr> = th" using Some by simp
  ultimately show ?thesis using Some by (simp add: assistant_mut_def)
qed

lemma replying_touch [simp]: "replying es (touch th) m = replying es th m"
  by (simp add: replying_def)

lemma replying_delta:
  assumes "replying es th m" "is_text_delta ev"
  shows "\<exists>th' m'. apply_event fadd ev th = Some th' \<and> replying es th' m'"
proof -
  have r: "replying es (touch th) m" using assms(1) by simp
  show ?thesis using assms(2)
  proof (cases ev)
    case (EvAssistantTextDelta t)
    then show ?thesis using replying_mut [OF r] assms(1)
      by (simp add: apply_event_def on_text_delta_def replying_def)
  next
    case (EvThinkingDelta t)
    then show ?thesis using replying_mut [OF r] assms(1)
      by (simp add: apply_event_def on_thinking_delta_def replying_def)
  qed simp_all
qed

lemma replying_deltas:
  "\<lbrakk>replying es th m; \<forall>ev \<in> set evs. is_text_delta ev\<rbrakk>
    \<Longrightarrow> \<exists>th' m'. chat_run fadd (map ChatApply evs) th = Some th' \<and> replying es th' m'"
proof (induction evs arbitrary: th m)
  case (Cons ev evs)
  obtain th1 m1 where "apply_event fadd ev th = Some th1" "replying es th1 m1"
    using replying_delta [OF Cons.prems(1), of ev fadd] Cons.prems(2) by (auto simp del: is_text_delta.simps)
  then show ?case using Cons.IH [of th1 m1] Cons.prems(2) by simp
qed auto

lemma chat_run_append: "chat_run fadd (ops @ ops') th = Option.bind (chat_run fadd ops th) (chat_run fadd ops')"
proof (induction ops arbitrary: th)
  case (Cons op ops)
  then show ?case by (cases "chat_step fadd op th") simp_all
qed simp

lemma finalized:
  assumes "replying es th m"
  shows "\<exists>th'. chat_run fadd [ChatApply (EvAssistantThinking k), ChatApply (EvAssistantText t)] th = Some th' \<and>
    ct_entries th' = es @ [EntryAssistant \<lparr>am_text = t, am_thinking = k\<rparr>]"
proof -
  have r: "replying es (touch th) m" using assms by simp
  let ?m = "m\<lparr>am_thinking := k\<rparr>"
  have empty: "am_text m = []" if "\<not> ct_text_streaming th" using assms that by (simp add: replying_def)
  have "am_thinking m = []" if "\<not> ct_thinking_streaming th" using assms that by (simp add: replying_def)
  then obtain th1 where th1: "apply_event fadd (EvAssistantThinking k) th = Some th1"
    "ct_current_assistant th1 = Some (length es)" "ct_entries th1 = es @ [EntryAssistant ?m]"
    "ct_text_streaming th1 = ct_text_streaming th"
    using replying_mut [OF r]
    by (cases "ct_thinking_streaming th") (simp_all add: apply_event_def on_thinking_def append_line_def)
  have mut: "assistant_mut f (touch th1) =
      Some ((touch th1)\<lparr>ct_entries := es @ [EntryAssistant (f ?m)]\<rparr>)" for f
    using th1(2,3) by (simp add: assistant_mut_def)
  have "\<exists>th'. apply_event fadd (EvAssistantText t) th1 = Some th' \<and>
      ct_entries th' = es @ [EntryAssistant \<lparr>am_text = t, am_thinking = k\<rparr>]"
    using mut empty th1(4)
    by (cases "ct_text_streaming th1") (auto simp: apply_event_def on_text_def append_line_def)
  then show ?thesis using th1(1) by auto
qed



text \<open>
  A message of two text blocks keeps both only when they were not streamed: streamed, the second
  finalized block takes the place of the whole message, and the first block is gone.
\<close>

theorem second_streamed_block_wins:
  assumes "window_ok th" "ct_current_assistant th = None" "t \<noteq> []"
  shows "\<exists>th' th''. chat_run fadd (map ChatApply [EvAssistantText t, EvAssistantText u]) th = Some th' \<and>
      ct_entries th' = ct_entries th @ [EntryAssistant \<lparr>am_text = t @ [10] @ u, am_thinking = []\<rparr>] \<and>
    chat_run fadd (map ChatApply [EvAssistantTextDelta t, EvAssistantText t, EvAssistantTextDelta u, EvAssistantText u]) th
      = Some th'' \<and>
      ct_entries th'' = ct_entries th @ [EntryAssistant \<lparr>am_text = u, am_thinking = []\<rparr>]"
  using assms
  by (simp add: apply_event_def on_text_def on_text_delta_def assistant_mut_def append_line_def empty_message_def
        push_entry_def window_ok_def)

theorem second_streamed_block_wins_witness:
  "\<exists>th' th''. chat_run (+) (map ChatApply [EvAssistantText (lit ''One''), EvAssistantText (lit ''Two'')]) chat_new = Some th' \<and>
      ct_entries th' = ct_entries chat_new @
        [EntryAssistant \<lparr>am_text = lit ''One'' @ [10] @ lit ''Two'', am_thinking = []\<rparr>] \<and>
    chat_run (+) (map ChatApply [EvAssistantTextDelta (lit ''One''), EvAssistantText (lit ''One''),
        EvAssistantTextDelta (lit ''Two''), EvAssistantText (lit ''Two'')]) chat_new = Some th'' \<and>
      ct_entries th'' = ct_entries chat_new @ [EntryAssistant \<lparr>am_text = lit ''Two'', am_thinking = []\<rparr>]"
  by (rule second_streamed_block_wins) (simp_all add: window_ok_def chat_new_def)

section \<open>Stopping\<close>

lemma pending_in_none:
  "(\<And>tc. EntryTool tc \<in> set es \<Longrightarrow> sel (tc_status tc) = None) \<Longrightarrow> pending_in sel es = None"
  by (induction es) (auto split: thread_entry.split)

lemma stopped_cards:
  "EntryTool tc \<in> set (map stop_card es) \<Longrightarrow> \<not> awaits_user (tc_status tc) \<and> tc_partial_input tc = []"
  by (auto simp: stop_card_def awaits_user_def split: thread_entry.splits tool_call_status.splits if_splits)

lemma rejected_cards: "EntryTool tc \<in> set (map reject_pending es) \<Longrightarrow> \<not> awaits_user (tc_status tc)"
  by (auto simp: reject_pending_def awaits_user_def split: thread_entry.splits tool_call_status.splits if_splits)

lemma nothing_pending:
  assumes "\<And>tc. EntryTool tc \<in> set (ct_entries th) \<Longrightarrow> \<not> awaits_user (tc_status tc)"
  shows "pending_permission th = None" "pending_question th = None"
  using assms unfolding pending_permission_def pending_question_def
  by (force intro!: pending_in_none simp: awaits_user_def split: tool_call_status.splits)+

text \<open>
  Once the user stops a turn, or a chat is restored, no permission and no question is left that
  nobody can answer: the requests are denied, no arguments stay half streamed, and stopping touches
  no entry that is not a tool call.
\<close>

theorem stop_denies_everything_pending:
  "pending_permission (interrupt th) = None \<and> pending_question (interrupt th) = None \<and>
   pending_permission (rehydrated s m es cs) = None \<and> pending_question (rehydrated s m es cs) = None \<and>
   (\<forall>tc. EntryTool tc \<in> set (ct_entries (interrupt th)) \<longrightarrow> tc_partial_input tc = [] \<and>
      (\<exists>tc0. EntryTool tc0 \<in> set (ct_entries th) \<and> tc_id tc0 = tc_id tc \<and> tc_result tc0 = tc_result tc \<and>
         tc_status tc = (if awaits_user (tc_status tc0) then TsRejected else tc_status tc0))) \<and>
   filter (\<lambda>e. entry_tag e \<noteq> 2) (ct_entries (interrupt th)) = filter (\<lambda>e. entry_tag e \<noteq> 2) (ct_entries th)"
proof -
  have i: "ct_entries (interrupt th) = map stop_card (ct_entries th)" by (simp add: interrupt_def)
  have r: "ct_entries (rehydrated s m es cs) = map reject_pending es" by (simp add: rehydrated_def)
  note stopped = nothing_pending [of "interrupt th", unfolded i]
  note restored = nothing_pending [of "rehydrated s m es cs", unfolded r]
  have cards: "tc_partial_input tc = [] \<and>
      (\<exists>tc0. EntryTool tc0 \<in> set (ct_entries th) \<and> tc_id tc0 = tc_id tc \<and> tc_result tc0 = tc_result tc \<and>
         tc_status tc = (if awaits_user (tc_status tc0) then TsRejected else tc_status tc0))"
    if "EntryTool tc \<in> set (map stop_card (ct_entries th))" for tc
  proof -
    from that obtain e where e: "e \<in> set (ct_entries th)" "EntryTool tc = stop_card e" by auto
    have "\<exists>tc0. e = EntryTool tc0" using e(2) by (cases e) (simp_all add: stop_card_def)
    then obtain tc0 where "e = EntryTool tc0" by blast
    then show ?thesis using e by (intro conjI exI [of _ tc0]) (auto simp: stop_card_def)
  qed
  have others: "filter (\<lambda>e. entry_tag e \<noteq> 2) (map stop_card xs) = filter (\<lambda>e. entry_tag e \<noteq> 2) xs" for xs
  proof (induction xs)
    case (Cons e xs)
    then show ?case by (cases e) (simp_all add: stop_card_def)
  qed simp
  show ?thesis
    using stopped stopped_cards restored rejected_cards cards others unfolding i by blast
qed

end
