(* ===== verification/Chat_Rows.thy ===== *)
theory Chat_Rows
  imports Chat_Reply
begin

text \<open>
  The rows of a transcript: the checks of \<open>crates/agent-core/src/thread/invariants.rs\<close>, of which
  two hold of every transcript the fold can build; the redaction of secret answers; and the
  mutation counter.
\<close>

section \<open>The checks\<close>

datatype violation =
    TransientRowAfterTurnSettled nat utext utext string
  | DuplicateToolCallId nat nat utext
  | EmptyCompactionDivider nat
  | EmptyTurnDiffCard nat
  | EmptyAssistantRow nat

definition is_transient :: "tool_call_status \<Rightarrow> bool" where
  "is_transient s =
     (case s of TsPending \<Rightarrow> True | TsInProgress \<Rightarrow> True | WaitingForConfirmation _ \<Rightarrow> True
      | AwaitingAnswer _ \<Rightarrow> True | _ \<Rightarrow> False)"

definition status_name :: "tool_call_status \<Rightarrow> string" where
  "status_name s =
     (case s of TsPending \<Rightarrow> ''pending'' | TsInProgress \<Rightarrow> ''in-progress''
      | WaitingForConfirmation _ \<Rightarrow> ''awaiting confirmation'' | AwaitingAnswer _ \<Rightarrow> ''awaiting an answer''
      | TsCompleted \<Rightarrow> ''completed'' | TsFailed _ \<Rightarrow> ''failed'' | TsRejected \<Rightarrow> ''rejected''
      | TsCanceled \<Rightarrow> ''canceled'')"

definition check_tool :: "bool \<Rightarrow> nat \<Rightarrow> (nat \<times> utext) list \<Rightarrow> tool_call \<Rightarrow> violation list" where
  "check_tool turn_settled index seen tc =
     (if turn_settled \<and> is_transient (tc_status tc)
      then [TransientRowAfterTurnSettled index (tc_id tc) (tc_name tc) (status_name (tc_status tc))] else []) @
     (case List.find (\<lambda>(_, i). i = tc_id tc) seen of
        Some (first, _) \<Rightarrow> if tc_id tc \<noteq> [] then [DuplicateToolCallId first index (tc_id tc)] else []
      | None \<Rightarrow> [])"

fun check_entries :: "bool \<Rightarrow> nat \<Rightarrow> (nat \<times> utext) list \<Rightarrow> thread_entry list \<Rightarrow> violation list" where
  "check_entries settled index seen [] = []"
| "check_entries settled index seen (e # es) =
     (case e of
        EntryTool tc \<Rightarrow> check_tool settled index seen tc @ check_entries settled (index + 1) (seen @ [(index, tc_id tc)]) es
      | EntryAssistant m \<Rightarrow>
          (if message_empty m then [EmptyAssistantRow index] else []) @ check_entries settled (index + 1) seen es
      | EntryCompaction s \<Rightarrow>
          (if trim_text s = [] then [EmptyCompactionDivider index] else []) @ check_entries settled (index + 1) seen es
      | EntryTurnDiff files _ \<Rightarrow>
          (if files = [] then [EmptyTurnDiffCard index] else []) @ check_entries settled (index + 1) seen es
      | EntryUser _ _ _ \<Rightarrow> check_entries settled (index + 1) seen es)"

definition check :: "chat_thread \<Rightarrow> bool \<Rightarrow> violation list" where
  "check th turn_settled = check_entries turn_settled 0 [] (ct_entries th)"

section \<open>Rows\<close>

definition tool_ids :: "thread_entry list \<Rightarrow> utext list" where
  "tool_ids es = List.map_filter (\<lambda>e. case e of EntryTool tc \<Rightarrow> Some (tc_id tc) | _ \<Rightarrow> None) es"

definition diff_cards :: "thread_entry list \<Rightarrow> turn_file_change list list" where
  "diff_cards es = List.map_filter (\<lambda>e. case e of EntryTurnDiff files _ \<Rightarrow> Some files | _ \<Rightarrow> None) es"

lemma tool_ids_simps [simp]:
  "tool_ids [] = []"
  "tool_ids (e # es) = (case e of EntryTool tc \<Rightarrow> tc_id tc # tool_ids es | _ \<Rightarrow> tool_ids es)"
  "tool_ids (es @ es') = tool_ids es @ tool_ids es'"
  by (auto simp: tool_ids_def List.map_filter_def split: thread_entry.split)

lemma diff_cards_simps [simp]:
  "diff_cards [] = []"
  "diff_cards (e # es) = (case e of EntryTurnDiff files _ \<Rightarrow> files # diff_cards es | _ \<Rightarrow> diff_cards es)"
  "diff_cards (es @ es') = diff_cards es @ diff_cards es'"
  by (auto simp: diff_cards_def List.map_filter_def split: thread_entry.split)

definition rows_ok :: "thread_entry list \<Rightarrow> bool" where
  "rows_ok es \<longleftrightarrow> distinct (tool_ids es) \<and> [] \<notin> set (diff_cards es)"

lemma checked_rows:
  assumes "v \<in> set (check_entries settled index seen es)" "rows_ok es" "set (tool_ids es) \<inter> snd ` set seen = {}"
  shows "case v of DuplicateToolCallId _ _ _ \<Rightarrow> False | EmptyTurnDiffCard _ \<Rightarrow> False | _ \<Rightarrow> True"
  using assms
proof (induction settled index seen es rule: check_entries.induct)
  case (2 settled index seen e es)
  show ?case
  proof (cases e)
    case (EntryTool tc)
    have "tc_id tc \<notin> snd ` set seen" using "2.prems"(3) EntryTool by auto
    then have new: "List.find (\<lambda>(_, i). i = tc_id tc) seen = None"
      by (force simp: find_None_iff)
    have "rows_ok es" "set (tool_ids es) \<inter> snd ` set (seen @ [(index, tc_id tc)]) = {}"
      using "2.prems"(2,3) EntryTool by (auto simp: rows_ok_def)
    then show ?thesis using "2.IH"(3) [OF EntryTool] "2.prems"(1) EntryTool new
      by (auto simp: check_tool_def split: if_splits)
  next
    case (EntryTurnDiff files d)
    then show ?thesis using 2 by (auto simp: rows_ok_def split: if_splits)
  qed (use 2 in \<open>auto simp: rows_ok_def split: if_splits\<close>)
qed simp

section \<open>What the fold keeps\<close>

lemma update_tool_rows:
  assumes "\<And>tc. tc_id (f tc) = tc_id tc" "update_tool P f es = Some es'"
  shows "tool_ids es' = tool_ids es \<and> diff_cards es' = diff_cards es"
  using assms(2)
proof (induction es arbitrary: es')
  case (Cons e es)
  show ?case
  proof (cases "update_tool P f es")
    case None
    then obtain tc where "e = EntryTool tc" "es' = EntryTool (f tc) # es"
      using Cons.prems by (auto split: thread_entry.splits if_splits)
    then show ?thesis using assms(1) by simp
  next
    case (Some es1)
    then show ?thesis using Cons.IH [OF Some] Cons.prems by (auto split: thread_entry.split)
  qed
qed simp

lemma update_tool_None: "update_tool (\<lambda>tc. tc_id tc = i) f es = None \<longleftrightarrow> i \<notin> set (tool_ids es)"
  by (induction es) (auto split: option.split thread_entry.split)

text \<open>A step on the rows: the same cards and diffs, or a tool card under a new id.\<close>

definition rows_step :: "chat_thread \<Rightarrow> chat_thread \<Rightarrow> bool" where
  "rows_step th th' \<longleftrightarrow> (rows_ok (ct_entries th) \<longrightarrow> rows_ok (ct_entries th'))"

lemma rows_same:
  "\<lbrakk>tool_ids (ct_entries th') = tool_ids (ct_entries th); diff_cards (ct_entries th') = diff_cards (ct_entries th)\<rbrakk>
    \<Longrightarrow> rows_step th th'"
  by (simp add: rows_step_def rows_ok_def)

lemma rows_fields: "ct_entries th' = ct_entries th \<Longrightarrow> rows_step th th'"
  by (simp add: rows_step_def)

lemma rows_new_card:
  "\<lbrakk>tc_id tc \<notin> set (tool_ids (ct_entries th)); ct_entries th' = ct_entries th @ [EntryTool tc]\<rbrakk> \<Longrightarrow> rows_step th th'"
  by (auto simp: rows_step_def rows_ok_def)

lemma tool_call_mut_rows:
  "\<lbrakk>tool_call_mut i f th = Some th'; \<And>tc. tc_id (f tc) = tc_id tc\<rbrakk> \<Longrightarrow> rows_step th th'"
  by (auto simp: tool_call_mut_def dest!: update_tool_rows [rotated] intro!: rows_same)

lemma tool_call_mut_None: "tool_call_mut i f th = None \<longleftrightarrow> i \<notin> set (tool_ids (ct_entries th))"
  by (simp add: tool_call_mut_def update_tool_None)

lemma on_card_rows: "(\<And>tc. tc_id (f tc) = tc_id tc) \<Longrightarrow> rows_step th (on_card i f th)"
  by (auto simp: on_card_def rows_fields tool_call_mut_rows split: option.split)

lemma assistant_mut_rows:
  assumes "window_ok th" "assistant_mut f th = Some th'"
  shows "rows_step th th'"
proof -
  obtain i m where c: "ct_current_assistant th = None \<and> i = length (ct_entries th) \<and> m = empty_message \<or>
      ct_current_assistant th = Some i \<and> i < length (ct_entries th) \<and> ct_entries th ! i = EntryAssistant m"
    and r: "assistant_mut f th = Some (th\<lparr>ct_current_assistant := Some i,
        ct_entries := (if ct_current_assistant th = None then ct_entries th @ [EntryAssistant (f m)]
                       else (ct_entries th)[i := EntryAssistant (f m)])\<rparr>)"
    by (rule assistant_mut_ok [OF assms(1)])
  from c show ?thesis
  proof (elim disjE conjE)
    assume i: "ct_current_assistant th = Some i" "i < length (ct_entries th)" "ct_entries th ! i = EntryAssistant m"
    have split: "ct_entries th = take i (ct_entries th) @ EntryAssistant m # drop (Suc i) (ct_entries th)"
      using id_take_nth_drop [OF i(2)] i(3) by simp
    have upd: "(ct_entries th)[i := EntryAssistant (f m)] = take i (ct_entries th) @ EntryAssistant (f m) # drop (Suc i) (ct_entries th)"
      using i(2) by (rule upd_conv_take_nth_drop)
    have "tool_ids (ct_entries th) = tool_ids (take i (ct_entries th)) @ tool_ids (drop (Suc i) (ct_entries th))"
      "diff_cards (ct_entries th) = diff_cards (take i (ct_entries th)) @ diff_cards (drop (Suc i) (ct_entries th))"
      by (subst split, simp)+
    then show ?thesis using assms(2) r i(1) by (intro rows_same) (auto simp: upd)
  qed (use assms(2) r in \<open>auto intro!: rows_same\<close>)
qed

lemma later_row: "\<lbrakk>rows_step a b; ct_entries c = ct_entries b\<rbrakk> \<Longrightarrow> rows_step a c"
  by (simp add: rows_step_def)

lemma rows_step_flags [simp]:
  "rows_step th (z\<lparr>ct_text_streaming := b\<rparr>) = rows_step th z"
  "rows_step th (z\<lparr>ct_thinking_streaming := b\<rparr>) = rows_step th z"
  by (simp_all add: rows_step_def)

lemma text_rows:
  assumes "window_ok th"
  shows "on_text_delta t th = Some th' \<Longrightarrow> rows_step th th'" "on_thinking_delta t th = Some th' \<Longrightarrow> rows_step th th'"
    "on_text t th = Some th' \<Longrightarrow> rows_step th th'" "on_thinking t th = Some th' \<Longrightarrow> rows_step th th'"
  using assistant_mut_rows [OF assms]
  by (auto simp: on_text_delta_def on_thinking_delta_def on_text_def on_thinking_def split: if_splits)

lemma field_events_rows:
  "rows_step th (on_session_init s m p cs meta th)"
  "rows_step th (on_commands_updated commands descriptions hints th)"
  "rows_step th (on_live_usage u th)"
  "rows_step th (continuation_over th)"
  "rows_step th (on_task i g th)"
  "rows_step th (on_task_started t i k d th)"
  "rows_step th (end_assistant_window th)"
  by (simp_all add: rows_fields on_session_init_def on_commands_updated_def on_live_usage_def
        continuation_over_def on_task_def on_task_started_def Let_def split: option.split)

lemma push_other_rows:
  "\<lbrakk>\<And>tc. e \<noteq> EntryTool tc; \<And>d. e \<noteq> EntryTurnDiff [] d; ct_entries th' = ct_entries th @ [e]\<rbrakk> \<Longrightarrow> rows_step th th'"
  by (cases e) (auto simp: rows_step_def rows_ok_def)

lemma notices_rows: "rows_step th (on_resume_stale i th)" "rows_step th (on_notice t th)"
  by (auto simp: on_resume_stale_def on_notice_def intro: push_other_rows rows_fields)

lemma tool_started_rows: "rows_step th (on_tool_started i name input th)"
proof (cases "tool_call_mut i (\<lambda>tc. let tc' = tc\<lparr>tc_name := name\<rparr> in
               if \<not> is_empty_input input then tc'\<lparr>tc_input := input, tc_partial_input := []\<rparr> else tc') th")
  case None
  then have "i \<notin> set (tool_ids (ct_entries th))" by (simp add: tool_call_mut_None)
  then show ?thesis
    by (intro rows_new_card [of "tool_call_new i name input"])
       (simp add: tool_call_new_def, unfold on_tool_started_def None, simp add: Let_def)
next
  case (Some th')
  then have "rows_step th th'" by (rule tool_call_mut_rows) (simp add: Let_def)
  then show ?thesis by (rule later_row) (unfold on_tool_started_def Some, simp)
qed

lemma input_delta_rows: "rows_step th (on_tool_input_delta i t th)"
  by (auto simp: on_tool_input_delta_def rows_fields intro!: on_card_rows split: option.split)

definition named_fresh :: "utext option \<Rightarrow> utext \<Rightarrow> chat_thread \<Rightarrow> bool" where
  "named_fresh tool_use_id request_id th \<longleftrightarrow>
     (tool_use_id = None \<longrightarrow> request_id \<notin> set (tool_ids (ct_entries th)))"

lemma ask_rows:
  assumes "named_fresh i r th"
  shows "rows_step th (ask_on_card i r name input status th)"
proof (cases "Option.bind i (\<lambda>i. tool_call_mut i (\<lambda>tc. tc\<lparr>tc_status := status\<rparr>) th)")
  case None
  let ?tc = "(tool_call_new (case i of Some i \<Rightarrow> i | None \<Rightarrow> r) name input)\<lparr>tc_status := status\<rparr>"
  have "tc_id ?tc \<notin> set (tool_ids (ct_entries th))"
    using None assms by (cases i) (simp_all add: tool_call_mut_None named_fresh_def tool_call_new_def)
  then show ?thesis by (rule rows_new_card) (simp add: ask_on_card_def None)
next
  case (Some th')
  then obtain j where "tool_call_mut j (\<lambda>tc. tc\<lparr>tc_status := status\<rparr>) th = Some th'" by (auto simp: bind_eq_Some_conv)
  then have "rows_step th th'" by (rule tool_call_mut_rows) simp
  then show ?thesis by (simp add: ask_on_card_def Some)
qed

lemma edited_rows: "rows_step th (on_permission_edited r i v th)"
proof (cases "Option.bind i (\<lambda>i. tool_call_mut i (\<lambda>tc. tc\<lparr>tc_approved_input := Some v\<rparr>) th)")
  case None
  then show ?thesis
    by (auto simp: on_permission_edited_def Let_def tool_call_awaiting_mut_def rows_fields
          dest!: update_tool_rows [rotated] intro!: rows_same split: option.split)
next
  case (Some th')
  then obtain j where "tool_call_mut j (\<lambda>tc. tc\<lparr>tc_approved_input := Some v\<rparr>) th = Some th'" by (auto simp: bind_eq_Some_conv)
  then have "rows_step th th'" by (rule tool_call_mut_rows) simp
  then show ?thesis by (simp add: on_permission_edited_def Let_def Some)
qed

lemma fold_refusal_rows:
  "tool_ids (fold_refusal result es) = tool_ids es" "diff_cards (fold_refusal result es) = diff_cards es"
proof -
  have "tool_ids (fold_refusal result es) = tool_ids es \<and> diff_cards (fold_refusal result es) = diff_cards es"
  proof (cases es rule: rev_cases)
    case (snoc ys y)
    then show ?thesis by (auto simp: fold_refusal_def split: option.split thread_entry.split)
  qed (simp add: fold_refusal_def split: option.split)
  then show "tool_ids (fold_refusal result es) = tool_ids es" "diff_cards (fold_refusal result es) = diff_cards es"
    by simp_all
qed

lemma close_turn_rows: "rows_step th (close_turn_with_diff d th)"
  by (auto simp: close_turn_with_diff_def Let_def intro: rows_fields push_other_rows)

lemma settle_usage_entries [simp]: "ct_entries (settle_usage fadd u th) = ct_entries th"
  by (simp add: settle_usage_def split: option.split)

lemma continuation_entries [simp]: "ct_entries (continuation_over th) = ct_entries th"
  by (simp add: continuation_over_def)

lemma turn_end_rows: "rows_step th (on_turn_ended fadd result usage is_error diff th)"
proof -
  have "\<exists>th4. on_turn_ended fadd result usage is_error diff th = close_turn_with_diff diff th4 \<and>
      ct_entries th4 \<in> {ct_entries th, fold_refusal result (ct_entries th)}"
    by (auto simp: on_turn_ended_def Let_def)
  then show ?thesis
    using close_turn_rows [of _ diff] fold_refusal_rows [of result "ct_entries th"]
    by (auto simp: rows_step_def rows_ok_def)
qed

end
