(* ===== verification/Chat_Promises.thy ===== *)
theory Chat_Promises
  imports Chat_Rows
begin

text \<open>
  What the transcripts of all conversations have in common: no two cards of one tool call, no empty
  file card, nothing of a secret answer, and a counter that moves with them.
\<close>

section \<open>One card per tool call\<close>

text \<open>A request that names no tool call comes under an id no card has.\<close>

definition fresh_event :: "thread_event \<Rightarrow> chat_thread \<Rightarrow> bool" where
  "fresh_event ev th =
     (case ev of
        EvPermissionRequested r i _ _ _ _ _ \<Rightarrow> named_fresh i r th
      | EvQuestionAsked r i qs \<Rightarrow> qs = [] \<or> named_fresh i r th
      | _ \<Rightarrow> True)"

lemma truncate_entries:
  "truncate_to_user n th = Some (r, th') \<Longrightarrow> \<exists>k. ct_entries th' = take k (ct_entries th)"
proof (cases "user_entry_index n (touch th)")
  case None
  moreover assume "truncate_to_user n th = Some (r, th')"
  ultimately show ?thesis
    by (auto simp: truncate_to_user_def Let_def intro!: exI [of _ "length (ct_entries th)"])
next
  case (Some j)
  moreover assume "truncate_to_user n th = Some (r, th')"
  ultimately show ?thesis
    by (intro exI [of _ j])
       (auto simp: truncate_to_user_def end_assistant_window_def Let_def split: list.splits thread_entry.splits)
qed

lemma truncate_rows: "truncate_to_user n th = Some (r, th') \<Longrightarrow> rows_step th th'"
proof -
  assume "truncate_to_user n th = Some (r, th')"
  then obtain k where k: "ct_entries th' = take k (ct_entries th)" using truncate_entries by blast
  have "rows_ok (take k es)" if "rows_ok (take k es @ drop k es)" for es
    using that by (simp add: rows_ok_def del: append_take_drop_id)
  then show ?thesis by (simp add: rows_step_def k)
qed

lemma send_rows: "rows_step th (push_user_message_with_images t im th)"
  by (rule push_other_rows) (simp_all add: push_user_message_with_images_def)

lemma card_updates_keep_id:
  "tc_id (settle_card c e s tc) = tc_id tc" "tc_id (stream_output chunk tc) = tc_id tc"
  "tc_id (push_subagent_action line tc) = tc_id tc"
  by (simp_all add: settle_card_def stream_output_def push_subagent_action_def Let_def)

lemma fold_event_rows:
  assumes ok: "window_ok th" and fresh: "fresh_event ev th" and run: "fold_event fadd ev th = Some th'"
  shows "rows_step th th'"
proof (cases ev)
  case (EvRewound n)
  then show ?thesis using run truncate_rows by auto
next
  case (EvPermissionRequested r i name input d sgs k)
  then show ?thesis using run fresh ask_rows [of i r th]
    by (auto simp: fresh_event_def on_permission_requested_def)
next
  case (EvQuestionAsked r i qs)
  then show ?thesis using run fresh ask_rows [of i r th]
    by (auto simp: fresh_event_def on_question_asked_def rows_fields split: if_splits)
next
  case (EvCompactBoundary s)
  then show ?thesis using run by (auto intro: push_other_rows)
qed (use run in \<open>auto simp: field_events_rows notices_rows tool_started_rows input_delta_rows edited_rows
      turn_end_rows send_rows card_updates_keep_id on_card_rows text_rows [OF ok] intro: rows_fields\<close>)

text \<open>A step that brings in no card of its own: an import must not repeat a card.\<close>

definition fresh_op :: "chat_op \<Rightarrow> chat_thread \<Rightarrow> bool" where
  "fresh_op op th =
     (case op of
        ChatApply ev \<Rightarrow> fresh_event ev th
      | ChatImport tail \<Rightarrow> rows_ok (ct_entries th @ tail)
      | _ \<Rightarrow> True)"

lemma named_fresh_touch [simp]: "named_fresh i r (touch th) = named_fresh i r th"
  by (simp add: named_fresh_def)

lemma fresh_event_touch [simp]: "fresh_event ev (touch th) = fresh_event ev th"
  by (simp add: fresh_event_def split: thread_event.split)

lemma mapped_rows:
  assumes "\<And>e. tool_ids [g e] = tool_ids [e] \<and> diff_cards [g e] = diff_cards [e]"
  shows "tool_ids (map g es) = tool_ids es \<and> diff_cards (map g es) = diff_cards es"
proof (induction es)
  case (Cons e es)
  have "tool_ids (g e # map g es) = tool_ids [g e] @ tool_ids (map g es)"
    "diff_cards (g e # map g es) = diff_cards [g e] @ diff_cards (map g es)"
    "tool_ids (e # es) = tool_ids [e] @ tool_ids es" "diff_cards (e # es) = diff_cards [e] @ diff_cards es"
    by (simp_all split: thread_entry.split)
  then show ?case using Cons assms [of e] by (simp del: tool_ids_simps(2) diff_cards_simps(2))
qed simp

lemma stop_card_rows: "tool_ids [stop_card e] = tool_ids [e] \<and> diff_cards [stop_card e] = diff_cards [e]"
  by (cases e) (simp_all add: stop_card_def)

lemma reject_rows: "tool_ids [reject_pending e] = tool_ids [e] \<and> diff_cards [reject_pending e] = diff_cards [e]"
  by (cases e) (simp_all add: reject_pending_def)

lemma update_entry_rows:
  assumes "\<And>e. tool_ids [g e] = tool_ids [e] \<and> diff_cards [g e] = diff_cards [e]"
  shows "tool_ids (update_entry i g es) = tool_ids es \<and> diff_cards (update_entry i g es) = diff_cards es"
proof (cases "i < length es")
  case True
  have app: "tool_ids (xs @ e # ys) = tool_ids xs @ tool_ids [e] @ tool_ids ys"
    "diff_cards (xs @ e # ys) = diff_cards xs @ diff_cards [e] @ diff_cards ys" for xs e ys
    by (simp_all split: thread_entry.split)
  have "update_entry i g es = take i es @ g (es ! i) # drop (Suc i) es"
    using True by (simp add: update_entry_def upd_conv_take_nth_drop)
  moreover have "es = take i es @ es ! i # drop (Suc i) es" using True by (rule id_take_nth_drop)
  ultimately show ?thesis using app assms by metis
qed (simp add: update_entry_def)

lemma checkpoint_rows:
  "tool_ids [case e of EntryUser t im cp \<Rightarrow> EntryUser t im (g cp) | _ \<Rightarrow> e] = tool_ids [e] \<and>
   diff_cards [case e of EntryUser t im cp \<Rightarrow> EntryUser t im (g cp) | _ \<Rightarrow> e] = diff_cards [e]"
  "tool_ids [case e of EntryUser t im (Some cp) \<Rightarrow> EntryUser t im (h cp) | _ \<Rightarrow> e] = tool_ids [e] \<and>
   diff_cards [case e of EntryUser t im (Some cp) \<Rightarrow> EntryUser t im (h cp) | _ \<Rightarrow> e] = diff_cards [e]"
  by (cases e; simp split: option.split)+

lemma chat_step_rows:
  assumes ok: "window_ok th" and fresh: "fresh_op op th" and run: "chat_step fadd op th = Some th'"
  shows "rows_step th th'"
proof (cases op)
  case (ChatApply ev)
  have "rows_step (touch th) th'"
    using fold_event_rows [of "touch th" ev fadd th'] ok fresh run ChatApply by (simp add: apply_event_def fresh_op_def)
  then show ?thesis by (simp add: rows_step_def)
next
  case (ChatTruncate n)
  then show ?thesis using run truncate_rows by auto
next
  case (ChatImport tail)
  then show ?thesis using run fresh by (auto simp: rows_step_def fresh_op_def append_imported_def)
next
  case ChatClear
  then show ?thesis using run by (auto simp: rows_step_def rows_ok_def chat_clear_def chat_new_def)
next
  case ChatInterrupt
  then show ?thesis using run mapped_rows [OF stop_card_rows, of "ct_entries th"]
    by (auto simp: interrupt_def intro: rows_same)
next
  case (ChatCheckpoint i sha)
  then show ?thesis using run update_entry_rows [OF checkpoint_rows(1), where es = "ct_entries th"]
    by (auto simp: attach_checkpoint_def intro: rows_same)
next
  case (ChatCheckpointShow i shown)
  then show ?thesis using run update_entry_rows [OF checkpoint_rows(2), where es = "ct_entries th"]
    by (auto simp: set_checkpoint_show_def intro: rows_same)
next
  case (ChatSend t im)
  then show ?thesis using run send_rows by auto
next
  case (ChatToolStatus i s)
  have "rows_step (touch th) th'" using run ChatToolStatus by (auto simp: set_tool_status_def intro: on_card_rows)
  then show ?thesis by (simp add: rows_step_def)
next
  case (ChatToolRefusal i s)
  have "rows_step (touch th) th'" using run ChatToolRefusal by (auto simp: set_tool_refusal_def intro!: on_card_rows)
  then show ?thesis by (simp add: rows_step_def)
next
  case (ChatMarkSecret i)
  have "rows_step (touch th) th'" using run ChatMarkSecret by (auto simp: mark_secret_answer_def intro: on_card_rows)
  then show ?thesis by (simp add: rows_step_def)
qed

inductive chat_reaches :: "(f64 \<Rightarrow> f64 \<Rightarrow> f64) \<Rightarrow> chat_thread \<Rightarrow> bool" for fadd where
  restored: "rows_ok entries \<Longrightarrow> chat_reaches fadd (rehydrated session model entries commands)"
| stepped: "\<lbrakk>chat_reaches fadd th; fresh_op op th; chat_step fadd op th = Some th'\<rbrakk> \<Longrightarrow> chat_reaches fadd th'"

lemma reaches_ok: "chat_reaches fadd th \<Longrightarrow> window_ok th \<and> rows_ok (ct_entries th)"
proof (induction rule: chat_reaches.induct)
  case (restored entries session model commands)
  have "rows_ok (map reject_pending entries)"
    using restored mapped_rows [OF reject_rows, of entries] by (simp add: rows_ok_def)
  then show ?case using rehydrated_window by (simp add: rehydrated_def)
next
  case (stepped th op th')
  then obtain th1 where "chat_step fadd op th = Some th1" "window_ok th1" using chat_step_ok by blast
  then show ?case using stepped chat_step_rows [of th op fadd th'] by (auto simp: rows_step_def)
qed


definition sample_chat :: "chat_op list" where
  "sample_chat = [ChatSend (lit ''fix it'') [],
     ChatApply (EvToolCallStarted (lit ''t1'') (lit ''Write'') (JObject [])),
     ChatApply (EvToolCallStarted (lit ''t1'') (lit ''Write'')
       (JObject [(lit ''file_path'', JString (lit ''a'')), (lit ''content'', JString (lit ''x''))])),
     ChatApply (EvToolResult (lit ''t1'') (lit ''ok'') False None),
     ChatApply (EvTurnEnded None None False None)]"

lemma reaches_run:
  "\<lbrakk>chat_reaches fadd th; \<And>op th. op \<in> set ops \<Longrightarrow> fresh_op op th; chat_run fadd ops th = Some th'\<rbrakk> \<Longrightarrow> chat_reaches fadd th'"
proof (induction ops arbitrary: th)
  case (Cons op ops)
  obtain th1 where one: "chat_step fadd op th = Some th1" "chat_run fadd ops th1 = Some th'"
    using Cons.prems(3) by (auto simp: bind_eq_Some_conv)
  have "chat_reaches fadd th1" using Cons.prems(1) Cons.prems(2) [of op th] one(1) by (auto intro: stepped)
  then show ?case using Cons.IH [of th1] Cons.prems(2) one(2) by simp
qed simp


section \<open>Secret answers\<close>

text \<open>All a card that answered a secret question may show of the provider's report.\<close>

definition shows_no_secret :: "tool_call \<Rightarrow> bool" where
  "shows_no_secret tc \<longleftrightarrow>
     (tc_redact_result tc \<longrightarrow>
        tc_result tc \<in> {None, Some SECRET_PLACEHOLDER} \<and> tc_structured tc = None \<and>
        (case tc_status tc of TsFailed c \<Rightarrow> c = SECRET_PLACEHOLDER | _ \<Rightarrow> True))"

definition no_secrets :: "chat_thread \<Rightarrow> bool" where
  "no_secrets th \<longleftrightarrow> (\<forall>tc. EntryTool tc \<in> set (ct_entries th) \<longrightarrow> shows_no_secret tc)"

lemma update_tool_cards:
  assumes "\<And>tc. shows_no_secret tc \<Longrightarrow> shows_no_secret (f tc)"
  shows "\<lbrakk>update_tool P f es = Some es'; \<forall>tc. EntryTool tc \<in> set es \<longrightarrow> shows_no_secret tc\<rbrakk>
    \<Longrightarrow> \<forall>tc. EntryTool tc \<in> set es' \<longrightarrow> shows_no_secret tc"
proof (induction es arbitrary: es')
  case (Cons e es)
  show ?case
  proof (cases "update_tool P f es")
    case None
    then obtain tc where "e = EntryTool tc" "es' = EntryTool (f tc) # es"
      using Cons.prems(1) by (auto split: thread_entry.splits if_splits)
    then show ?thesis using Cons.prems(2) assms by auto
  next
    case (Some es1)
    then have "es' = e # es1" using Cons.prems(1) by simp
    then show ?thesis using Cons.IH [OF Some] Cons.prems(2) by auto
  qed
qed simp

lemma mut_secrets:
  assumes "\<And>tc. shows_no_secret tc \<Longrightarrow> shows_no_secret (f tc)" "no_secrets th"
  shows "tool_call_mut i f th = Some th' \<Longrightarrow> no_secrets th'" "tool_call_awaiting_mut i f th = Some th' \<Longrightarrow> no_secrets th'"
    "no_secrets (on_card i f th)"
proof -
  show mut: "tool_call_mut i f th = Some th' \<Longrightarrow> no_secrets th'" for th'
    using assms(2) update_tool_cards [OF assms(1)] by (auto simp: tool_call_mut_def no_secrets_def)
  show "tool_call_awaiting_mut i f th = Some th' \<Longrightarrow> no_secrets th'"
    using assms(2) update_tool_cards [OF assms(1)] by (auto simp: tool_call_awaiting_mut_def no_secrets_def)
  show "no_secrets (on_card i f th)" using assms(2) mut by (auto simp: on_card_def split: option.split)
qed

lemma settle_secret: "shows_no_secret (settle_card c e s tc)"
  if "shows_no_secret tc"
  using that by (auto simp: shows_no_secret_def settle_card_def Let_def)

lemma status_secret: "shows_no_secret tc \<Longrightarrow> (\<And>c. status \<noteq> TsFailed c) \<Longrightarrow> shows_no_secret (tc\<lparr>tc_status := status\<rparr>)"
  by (cases status) (auto simp: shows_no_secret_def)

lemma card_secrets:
  assumes "shows_no_secret tc"
  shows "shows_no_secret (stream_output chunk tc)" "shows_no_secret (push_subagent_action line tc)"
    "shows_no_secret (tc\<lparr>tc_images := im\<rparr>)" "shows_no_secret (tc\<lparr>tc_terminal_id := t\<rparr>)"
    "shows_no_secret (tc\<lparr>tc_kind := k\<rparr>)" "shows_no_secret (tc\<lparr>tc_approved_input := v\<rparr>)"
    "shows_no_secret (tc\<lparr>tc_name := n\<rparr>)" "shows_no_secret (tc\<lparr>tc_name := n, tc_input := v', tc_partial_input := p\<rparr>)"
    "shows_no_secret (tc\<lparr>tc_partial_input := p\<rparr>)"
  using assms by (auto simp: shows_no_secret_def stream_output_def push_subagent_action_def Let_def)

lemma secrets_push:
  "\<lbrakk>no_secrets th; \<And>tc. e = EntryTool tc \<Longrightarrow> shows_no_secret tc; ct_entries th' = ct_entries th @ [e]\<rbrakk> \<Longrightarrow> no_secrets th'"
  by (auto simp: no_secrets_def)

lemma secrets_fields: "\<lbrakk>no_secrets th; ct_entries th' = ct_entries th\<rbrakk> \<Longrightarrow> no_secrets th'"
  by (simp add: no_secrets_def)

lemma secrets_fewer: "\<lbrakk>no_secrets th; set (ct_entries th') \<subseteq> set (ct_entries th)\<rbrakk> \<Longrightarrow> no_secrets th'"
  by (auto simp: no_secrets_def)

lemma new_card_secret: "shows_no_secret ((tool_call_new i n v)\<lparr>tc_status := s\<rparr>)" "shows_no_secret (tool_call_new i n v)"
  by (simp_all add: shows_no_secret_def tool_call_new_def)

lemma secrets_mut:
  assumes "no_secrets th" "assistant_mut f th = Some th'"
  shows "no_secrets th'"
proof -
  define th1 where "th1 = (if ct_current_assistant th = None
                 then (push_entry (EntryAssistant empty_message) th)
                        \<lparr>ct_current_assistant := Some (length (ct_entries th))\<rparr>
                 else th)"
  have "no_secrets th1" using assms(1) by (auto simp: th1_def no_secrets_def)
  moreover have "assistant_mut f th = (case ct_current_assistant th1 of
           None \<Rightarrow> None
         | Some idx \<Rightarrow>
             if idx < length (ct_entries th1)
             then (case ct_entries th1 ! idx of
                     EntryAssistant m \<Rightarrow> Some (th1\<lparr>ct_entries := (ct_entries th1)[idx := EntryAssistant (f m)]\<rparr>)
                   | _ \<Rightarrow> None)
             else None)" unfolding assistant_mut_def th1_def Let_def by (rule refl)
  then obtain idx m where "th' = th1\<lparr>ct_entries := (ct_entries th1)[idx := EntryAssistant m]\<rparr>"
    using assms(2) by (auto split: option.splits if_splits thread_entry.splits)
  moreover have "EntryTool tc \<in> set ((ct_entries th1)[idx := EntryAssistant m]) \<Longrightarrow> EntryTool tc \<in> set (ct_entries th1)" for tc
    using set_update_subset_insert [of "ct_entries th1" idx "EntryAssistant m"] by auto
  ultimately show ?thesis by (auto simp: no_secrets_def)
qed

lemma ask_secrets:
  assumes "no_secrets th" "\<And>c. status \<noteq> TsFailed c"
  shows "no_secrets (ask_on_card i r name input status th)"
proof (cases "Option.bind i (\<lambda>i. tool_call_mut i (\<lambda>tc. tc\<lparr>tc_status := status\<rparr>) th)")
  case None
  then show ?thesis
    by (intro secrets_push [OF assms(1)]) (auto simp: ask_on_card_def new_card_secret)
next
  case (Some th')
  then obtain j where "tool_call_mut j (\<lambda>tc. tc\<lparr>tc_status := status\<rparr>) th = Some th'" by (auto simp: bind_eq_Some_conv)
  then have "no_secrets th'" by (rule mut_secrets(1) [rotated 2]) (simp_all add: assms status_secret)
  then show ?thesis by (simp add: ask_on_card_def Some)
qed

lemma edited_secrets:
  assumes "no_secrets th"
  shows "no_secrets (on_permission_edited r i v th)"
proof -
  let ?f = "\<lambda>tc. tc\<lparr>tc_approved_input := Some v\<rparr>"
  note keep = mut_secrets [where f = ?f, OF card_secrets(6) assms]
  show ?thesis
  proof (cases "Option.bind i (\<lambda>i. tool_call_mut i ?f th)")
    case None
    then show ?thesis using keep(2) assms
      by (auto simp: on_permission_edited_def Let_def split: option.split)
  next
    case (Some th')
    then obtain j where "tool_call_mut j ?f th = Some th'" by (auto simp: bind_eq_Some_conv)
    then show ?thesis using keep(1) by (simp add: on_permission_edited_def Let_def Some)
  qed
qed

lemma started_secrets:
  assumes "no_secrets th"
  shows "no_secrets (on_tool_started i name input th)"
proof -
  let ?f = "\<lambda>tc. let tc' = tc\<lparr>tc_name := name\<rparr> in
               if \<not> is_empty_input input then tc'\<lparr>tc_input := input, tc_partial_input := []\<rparr> else tc'"
  have f: "shows_no_secret tc \<Longrightarrow> shows_no_secret (?f tc)" for tc by (simp add: Let_def card_secrets)
  show ?thesis
  proof (cases "tool_call_mut i ?f th")
    case None
    show ?thesis
      by (rule secrets_push [OF assms, of "EntryTool (tool_call_new i name input)"])
         (simp add: new_card_secret, unfold on_tool_started_def None, simp add: Let_def)
  next
    case (Some th')
    then have "no_secrets th'" by (rule mut_secrets(1) [rotated 2]) (use f assms in simp_all)
    then show ?thesis by (rule secrets_fields) (unfold on_tool_started_def Some, simp)
  qed
qed

lemma turn_end_secrets:
  assumes "no_secrets th"
  shows "no_secrets (on_turn_ended fadd result usage is_error diff th)"
proof -
  have r: "EntryTool tc \<in> set (fold_refusal result es) \<Longrightarrow> EntryTool tc \<in> set es" for tc es
    by (auto simp: fold_refusal_def split: option.splits if_splits thread_entry.splits dest: in_set_butlastD)
  have "\<exists>th4. on_turn_ended fadd result usage is_error diff th = close_turn_with_diff diff th4 \<and>
      ct_entries th4 \<in> {ct_entries th, fold_refusal result (ct_entries th)}"
    by (auto simp: on_turn_ended_def Let_def)
  then obtain th4 where th4: "on_turn_ended fadd result usage is_error diff th = close_turn_with_diff diff th4"
    "ct_entries th4 \<in> {ct_entries th, fold_refusal result (ct_entries th)}" by blast
  then have "no_secrets th4" using assms r by (auto simp: no_secrets_def)
  then show ?thesis unfolding th4(1)
    by (auto simp: close_turn_with_diff_def Let_def intro: secrets_push)
qed

lemma input_delta_secrets: "no_secrets th \<Longrightarrow> no_secrets (on_tool_input_delta i t th)"
  by (auto simp: on_tool_input_delta_def intro!: mut_secrets(3) card_secrets split: option.split)

lemma field_secrets:
  assumes "no_secrets th"
  shows "no_secrets (on_session_init s m p cs meta th)" "no_secrets (on_commands_updated commands descriptions hints th)"
    "no_secrets (on_live_usage u th)" "no_secrets (continuation_over th)" "no_secrets (on_task i g th)"
    "no_secrets (on_task_started t i k d th)" "no_secrets (end_assistant_window th)"
    "no_secrets (on_resume_stale i th)" "no_secrets (on_notice t th)"
    "no_secrets (push_user_message_with_images t im th)"
  using assms
  by (auto simp: no_secrets_def on_session_init_def on_commands_updated_def on_live_usage_def on_task_def
        on_task_started_def on_resume_stale_def on_notice_def push_user_message_with_images_def Let_def
        split: option.split)

lemma no_secrets_flags [simp]:
  "no_secrets (z\<lparr>ct_text_streaming := b\<rparr>) = no_secrets z"
  "no_secrets (z\<lparr>ct_thinking_streaming := b\<rparr>) = no_secrets z"
  by (simp_all add: no_secrets_def)

lemma fold_event_secrets:
  assumes ok: "no_secrets th" and run: "fold_event fadd ev th = Some th'"
  shows "no_secrets th'"
proof -
  show ?thesis
  proof (cases ev)
    case (EvRewound n)
    then obtain r where "truncate_to_user n th = Some (r, th')" using run by auto
    then obtain k where "ct_entries th' = take k (ct_entries th)" using truncate_entries by blast
    then show ?thesis by (intro secrets_fewer [OF ok]) (simp add: set_take_subset)
  next
    case (EvAssistantTextDelta t)
    then show ?thesis using run secrets_mut [OF ok] by (auto simp: on_text_delta_def intro: secrets_fields)
  next
    case (EvThinkingDelta t)
    then show ?thesis using run secrets_mut [OF ok] by (auto simp: on_thinking_delta_def intro: secrets_fields)
  next
    case (EvAssistantText t)
    then show ?thesis using run secrets_mut [OF ok]
      by (cases "ct_text_streaming th") (auto simp: on_text_def intro: secrets_fields)
  next
    case (EvAssistantThinking t)
    then show ?thesis using run secrets_mut [OF ok]
      by (cases "ct_thinking_streaming th") (auto simp: on_thinking_def intro: secrets_fields)
  next
    case (EvCompactBoundary s)
    then show ?thesis using run ok by (auto simp: no_secrets_def)
  next
    case (EvToolResultImages i im)
    have "no_secrets (on_card i (\<lambda>tc. tc\<lparr>tc_images := im\<rparr>) th)" by (rule mut_secrets(3) [OF card_secrets(3) ok])
    then show ?thesis using EvToolResultImages run ok by (auto split: if_splits)
  next
    case (EvPermissionRequested r i name input d sgs k)
    then show ?thesis using run ask_secrets [OF ok] by (auto simp: on_permission_requested_def)
  next
    case (EvQuestionAsked r i qs)
    then show ?thesis using run ask_secrets [OF ok] ok by (auto simp: on_question_asked_def split: if_splits)
  qed (use run ok in \<open>auto simp: field_secrets turn_end_secrets started_secrets edited_secrets input_delta_secrets
        settle_secret card_secrets intro: mut_secrets(3) secrets_fields\<close>)
qed


definition secret_card :: tool_call where
  "secret_card = (tool_call_new (lit ''t'') (lit ''AskUserQuestion'') JNull)\<lparr>tc_redact_result := True\<rparr>"

definition secret_thread :: chat_thread where
  "secret_thread = chat_new\<lparr>ct_entries := [EntryTool secret_card]\<rparr>"


section \<open>The mutation counter\<close>

lemma assistant_mut_revision: "assistant_mut f th = Some th' \<Longrightarrow> ct_revision th' = ct_revision th"
  by (auto simp: assistant_mut_def Let_def split: option.splits if_splits thread_entry.splits)

lemma mut_revision:
  "tool_call_mut i f th = Some th' \<Longrightarrow> ct_revision th' = ct_revision th"
  "tool_call_awaiting_mut i f th = Some th' \<Longrightarrow> ct_revision th' = ct_revision th"
  by (auto simp: tool_call_mut_def tool_call_awaiting_mut_def)

lemma truncate_revision: "truncate_to_user n th = Some (r, th') \<Longrightarrow> ct_revision th' = ct_revision th + 1"
  by (auto simp: truncate_to_user_def end_assistant_window_def Let_def split: option.splits list.splits thread_entry.splits)

lemma handler_revisions [simp]:
  "ct_revision (on_session_init s m p cs meta th) = ct_revision th"
  "ct_revision (on_commands_updated commands descriptions hints th) = ct_revision th"
  "ct_revision (on_live_usage u th) = ct_revision th"
  "ct_revision (continuation_over th) = ct_revision th"
  "ct_revision (on_task i g th) = ct_revision th"
  "ct_revision (on_task_started t i k d th) = ct_revision th"
  "ct_revision (on_resume_stale i th) = ct_revision th"
  "ct_revision (on_notice t th) = ct_revision th"
  "ct_revision (settle_usage fadd uo th) = ct_revision th"
  "ct_revision (close_turn_with_diff dd th) = ct_revision th"
  "ct_revision (on_tool_input_delta i t th) = ct_revision th"
  by (simp_all add: on_session_init_def on_commands_updated_def on_live_usage_def continuation_over_def on_task_def
        on_task_started_def on_resume_stale_def on_notice_def settle_usage_def close_turn_with_diff_def
        on_tool_input_delta_def Let_def split: option.split)

lemma card_handler_revisions [simp]:
  "ct_revision (on_tool_started i name input th) = ct_revision th"
  "ct_revision (ask_on_card i' r name input status th) = ct_revision th"
  "ct_revision (on_permission_edited r i' v th) = ct_revision th"
  "ct_revision (on_turn_ended fadd result usage is_error diff th) = ct_revision th"
  subgoal by (auto simp: on_tool_started_def Let_def dest: mut_revision split: option.split)
  subgoal by (auto simp: ask_on_card_def bind_eq_Some_conv dest: mut_revision split: option.split)
  subgoal by (auto simp: on_permission_edited_def Let_def bind_eq_Some_conv dest: mut_revision split: option.split)
  subgoal by (simp add: on_turn_ended_def Let_def)
  done

lemma fold_event_revision:
  assumes run: "fold_event fadd ev th = Some th'"
  shows "ct_revision th' \<in> {ct_revision th, ct_revision th + 1}"
proof (cases ev)
  case (EvRewound n)
  then show ?thesis using run truncate_revision by auto
next
  case (EvUserMessage t im)
  then show ?thesis using run by (auto simp: push_user_message_with_images_def)
qed (use run in \<open>auto simp: on_text_delta_def on_thinking_delta_def on_text_def on_thinking_def
      on_permission_requested_def on_question_asked_def dest: assistant_mut_revision split: if_splits\<close>)

text \<open>
  The mutation counter is a fact persistence can rely on: no operation that changes the transcript
  leaves the counter where it was, wrapping included.
\<close>

theorem counter_moves_with_transcript:
  assumes "chat_step fadd op th = Some th'" "ct_entries th' \<noteq> ct_entries th"
  shows "ct_revision th' \<noteq> ct_revision th"
proof -
  have one: "x + 1 \<noteq> x" "x + 1 + 1 \<noteq> x" for x :: u64 by simp_all
  have "ct_revision th' \<in> {ct_revision th + 1, ct_revision th + 1 + 1}"
  proof (cases op)
    case (ChatApply ev)
    then show ?thesis using assms(1) fold_event_revision [of fadd ev "touch th" th'] by (auto simp: apply_event_def)
  next
    case (ChatTruncate n)
    then show ?thesis using assms(1) truncate_revision by auto
  next
    case (ChatImport tail)
    then show ?thesis using assms by (auto simp: append_imported_def split: if_splits)
  qed (use assms(1) in \<open>auto simp: push_user_message_with_images_def chat_clear_def interrupt_def attach_checkpoint_def
        set_checkpoint_show_def set_tool_status_def set_tool_refusal_def mark_secret_answer_def\<close>)
  then show ?thesis using one by (metis insertE singletonD)
qed

theorem counter_moves_with_transcript_witness:
  "ct_revision (push_user_message_with_images (lit ''hi'') [] chat_new) \<noteq> ct_revision chat_new"
  by (rule counter_moves_with_transcript [of "(+)" "ChatSend (lit ''hi'') []"])
     (simp_all add: push_user_message_with_images_def chat_new_def)

end
