(* ===== verification/Coord.thy ===== *)
theory Coord
  imports Sql_Rows "HOL-Library.List_Lexorder"
begin

text \<open>
  The blackboard on which agents share facts (\<open>crates/agents/src/coord.rs\<close>), on the table
  \<open>coord_state\<close>.  The operator \<open>GLOB\<close> of SQLite is a parameter; keys and values are texts, versions
  are taken below \<open>2 ^ 63\<close>, and instants are nanoseconds.
\<close>

record coord_entry =
  ce_key :: utext
  ce_value_json :: utext
  ce_version :: nat
  ce_updated_at :: int

definition coord_get :: "utext \<Rightarrow> coord_entry list \<Rightarrow> coord_entry option" where
  "coord_get key rows = List.find (\<lambda>e. ce_key e = key) rows"

text \<open>The code points of \<open>*\<close>, \<open>?\<close> and the brackets.\<close>

definition glob_meta :: "nat set" where
  "glob_meta = {42, 63, 91, 93}"

definition glob_escape :: "utext \<Rightarrow> utext" where
  "glob_escape prefix = concat (map (\<lambda>ch. if ch \<in> glob_meta then [91, ch, 93] else [ch]) prefix)"

definition coord_list ::
  "(utext \<Rightarrow> utext \<Rightarrow> bool) \<Rightarrow> utext option \<Rightarrow> coord_entry list \<Rightarrow> coord_entry list" where
  "coord_list glob prefix rows =
     sort_key ce_key
       (filter (\<lambda>e. case prefix of None \<Rightarrow> True | Some p \<Rightarrow> glob (glob_escape p @ [42]) (ce_key e)) rows)"

text \<open>A refused write is the entry as it stands (\<open>VersionConflict\<close>).\<close>

definition coord_set ::
  "utext \<Rightarrow> utext \<Rightarrow> nat option \<Rightarrow> int \<Rightarrow> coord_entry list \<Rightarrow> (coord_entry option + coord_entry) \<times> coord_entry list" where
  "coord_set key value_json if_version now rows =
     (let current = coord_get key rows;
          stored_version = (case current of None \<Rightarrow> 0 | Some e \<Rightarrow> ce_version e)
      in if (case if_version of None \<Rightarrow> False | Some expected \<Rightarrow> expected \<noteq> stored_version)
         then (Inl current, rows)
         else
           (let e = \<lparr>ce_key = key, ce_value_json = value_json, ce_version = stored_version + 1, ce_updated_at = now\<rparr>
            in (Inr e, if current = None then rows @ [e] else sql_update (\<lambda>r. ce_key r = key) (\<lambda>_. e) rows)))"

definition coord_delete :: "utext \<Rightarrow> coord_entry list \<Rightarrow> coord_entry list" where
  "coord_delete key rows = sql_delete (\<lambda>e. ce_key e = key) rows"

section \<open>Lookups\<close>

lemma coord_get_None: "coord_get k rows = None \<longleftrightarrow> (\<forall>e \<in> set rows. ce_key e \<noteq> k)"
  by (auto simp: coord_get_def find_None_iff)

lemma coord_get_append [simp]:
  "coord_get k (rows @ [e]) =
     (case coord_get k rows of None \<Rightarrow> if ce_key e = k then Some e else None | Some x \<Rightarrow> Some x)"
  by (induction rows) (auto simp: coord_get_def)

lemma coord_get_update:
  "ce_key e = k' \<Longrightarrow> coord_get k (sql_update (\<lambda>r. ce_key r = k') (\<lambda>_. e) rows) =
     (if k = k' then map_option (\<lambda>_. e) (coord_get k rows) else coord_get k rows)"
  by (induction rows) (auto simp: coord_get_def)

lemma coord_get_delete [simp]:
  "coord_get k (coord_delete k' rows) = (if k = k' then None else coord_get k rows)"
  by (induction rows) (auto simp: coord_get_def coord_delete_def sql_delete_def)

lemma coord_get_set:
  "coord_get k (snd (coord_set k' v c now rows)) =
     (case fst (coord_set k' v c now rows) of
        Inr e \<Rightarrow> if k = k' then Some e else coord_get k rows
      | Inl _ \<Rightarrow> coord_get k rows)"
  by (cases "coord_get k' rows") (auto simp: coord_set_def Let_def coord_get_update split: option.splits)

section \<open>Versions\<close>

datatype coord_op = CoSet utext utext "nat option" int | CoDelete utext

fun coord_apply :: "coord_op \<Rightarrow> coord_entry list \<Rightarrow> coord_entry list" where
  "coord_apply (CoSet k v c now) rows = snd (coord_set k v c now rows)"
| "coord_apply (CoDelete k) rows = coord_delete k rows"

text \<open>Without a deletion of the key a version only grows, and it grows with every write.\<close>

lemma version_moves:
  assumes "coord_get k rows = Some e" "op \<noteq> CoDelete k"
  shows "\<exists>e'. coord_get k (coord_apply op rows) = Some e' \<and> (e' = e \<or> ce_version e < ce_version e')"
proof (cases op)
  case (CoSet k' v c now)
  then show ?thesis using assms
    by (cases "k = k'") (auto simp: coord_set_def Let_def coord_get_update split: option.splits)
next
  case (CoDelete k')
  then show ?thesis using assms by auto
qed

lemma versions_move:
  assumes "coord_get k rows = Some e" "CoDelete k \<notin> set ops"
  shows "\<exists>e'. coord_get k (fold coord_apply ops rows) = Some e' \<and> (e' = e \<or> ce_version e < ce_version e')"
  using assms
proof (induction ops arbitrary: rows e)
  case (Cons op ops)
  obtain e1 where e1: "coord_get k (coord_apply op rows) = Some e1" "e1 = e \<or> ce_version e < ce_version e1"
    using version_moves [OF Cons.prems(1), of op] Cons.prems(2) by auto
  then obtain e2 where "coord_get k (fold coord_apply ops (coord_apply op rows)) = Some e2"
      "e2 = e1 \<or> ce_version e1 < ce_version e2"
    using Cons.IH [OF e1(1)] Cons.prems(2) by auto
  then show ?case using e1(2) by auto
qed simp



text \<open>Across a deletion a version is not a proof: the key starts over at version 1, so a write against
  the version 1 read before the deletion replaces a value its writer never saw.\<close>

theorem delete_lets_stale_write_pass:
  assumes "coord_get k rows = Some e" "ce_version e = 1"
  shows "let rows' = fold coord_apply [CoDelete k, CoSet k other (Some 0) t] rows in
    map_option ce_value_json (coord_get k rows') = Some other \<and>
    (\<exists>e'. fst (coord_set k mine (Some (ce_version e)) t' rows') = Inr e')"
  using assms by (auto simp: coord_set_def Let_def coord_get_update)

section \<open>Prefixes\<close>

text \<open>What the documentation of SQLite says of the patterns the store builds.\<close>

definition glob_ok :: "(utext \<Rightarrow> utext \<Rightarrow> bool) \<Rightarrow> bool" where
  "glob_ok glob \<longleftrightarrow> (\<forall>s. glob [42] s) \<and>
     (\<forall>c p s. c \<notin> glob_meta \<longrightarrow> glob (c # p) s = (s \<noteq> [] \<and> hd s = c \<and> glob p (tl s))) \<and>
     (\<forall>c p s. glob (91 # c # 93 # p) s = (s \<noteq> [] \<and> hd s = c \<and> glob p (tl s)))"

lemma escaped_prefix:
  "glob_ok glob \<Longrightarrow> glob (glob_escape p @ [42]) s \<longleftrightarrow> take (length p) s = p"
proof (induction p arbitrary: s)
  case Nil
  then show ?case by (simp add: glob_ok_def glob_escape_def)
next
  case (Cons c p)
  have "glob (glob_escape (c # p) @ [42]) s \<longleftrightarrow> s \<noteq> [] \<and> hd s = c \<and> glob (glob_escape p @ [42]) (tl s)"
    using Cons.prems by (auto simp: glob_escape_def glob_ok_def)
  then show ?case using Cons.IH [OF Cons.prems] by (cases s) auto
qed

text \<open>A listing by prefix is what has the prefix, letter for letter, in the order of the keys.\<close>

lemma listing_is_by_prefix:
  "glob_ok glob \<Longrightarrow> coord_list glob (Some p) rows =
     sort_key ce_key (filter (\<lambda>e. take (length p) (ce_key e) = p) rows)"
  by (simp add: coord_list_def escaped_prefix)

end
