(* ===== verification/Session_Health.thy ===== *)
theory Session_Health
  imports Turn_Retry
begin

text \<open>
  The state of a chat session as a person needs to know it (\<open>crates/agents/src/health.rs\<close>): a pure
  function of the facts its driver gathers.  Times are unix milliseconds; the saturating
  subtraction of \<open>i64\<close> is written out.
\<close>

datatype health_status = Idle | Working | NeedsPermission | NeedsAnswer | Limited | HealthFailed | Interrupted

datatype exit_proof = ExitCode int | UserStop | HostLock | ConnectionClosed

datatype liveness = LiveProcess | Unverifiable | RestoredUnconfirmed | Exited exit_proof

fun liveness_name :: "liveness \<Rightarrow> string" where
  "liveness_name LiveProcess = ''live''"
| "liveness_name Unverifiable = ''unverifiable''"
| "liveness_name RestoredUnconfirmed = ''restoredUnconfirmed''"
| "liveness_name (Exited _) = ''exited''"

datatype process = Dormant | ProcessLive | ProcessExited exit_proof

record restored =
  rs_was_mid_turn :: bool
  rs_prior_host_gone :: bool

datatype prompt_kind = PromptPermission | PromptQuestion

record health_inputs =
  hi_turn_active :: bool
  hi_continuations_open :: u32
  hi_pending_unanswered_send :: bool
  hi_accepted_unstarted_since :: "int option"
  hi_background_active :: u32
  hi_children_active :: u32
  hi_prompt :: "prompt_kind option"
  hi_prompt_request :: "utext option"
  hi_limited_until :: "int option"
  hi_limit_reason :: "utext option"
  hi_last_turn_failure :: "utext option"
  hi_interrupted :: bool
  hi_process :: process
  hi_restored :: "restored option"
  hi_recovery_note_owed :: bool
  hi_held_restored :: u32
  hi_queued :: u32
  hi_last_activity_at :: int
  hi_turn_id :: "utext option"
  hi_exit_seq :: "utext option"

record health_config =
  hc_stall_after_ms :: int
  hc_accepted_unstarted_ms :: int

definition DEFAULT_STALL_AFTER_MS :: int where "DEFAULT_STALL_AFTER_MS = 10 * 60 * 1000"

definition default_health_config :: health_config where
  "default_health_config = \<lparr>hc_stall_after_ms = DEFAULT_STALL_AFTER_MS, hc_accepted_unstarted_ms = 120000\<rparr>"

record session_health =
  sh_status :: health_status
  sh_liveness :: liveness
  sh_limited_until :: "int option"
  sh_stalled_since :: "int option"
  sh_exited_unexpectedly :: bool
  sh_reason :: "utext option"
  sh_last_activity_at :: int
  sh_pending_unanswered_send :: bool
  sh_held_restored :: u32
  sh_turn_id :: "utext option"
  sh_exit_seq :: "utext option"

definition is_working :: "health_inputs \<Rightarrow> bool" where
  "is_working i \<longleftrightarrow> hi_turn_active i \<or> hi_continuations_open i > 0 \<or> hi_pending_unanswered_send i"

definition int_text :: "int \<Rightarrow> utext" where
  "int_text n = (if n < 0 then lit ''-'' @ dec_text (nat (- n)) else dec_text (nat n))"

text \<open>The three parts of \<open>classify\<close>, by the state of the process.\<close>

definition classify_exited ::
  "exit_proof \<Rightarrow> health_inputs \<Rightarrow> health_status \<times> liveness \<times> utext option \<times> bool" where
  "classify_exited proof i =
     (if hi_interrupted i \<or> proof = UserStop then (Interrupted, Exited UserStop, None, False)
      else if proof = HostLock then (Interrupted, Exited proof, Some (lit ''OxiMux restarted''), False)
      else
        (HealthFailed, Exited proof,
         Some (case proof of
                 ExitCode code \<Rightarrow> lit ''agent process exited (code '' @ int_text code @ lit '')''
               | _ \<Rightarrow> lit ''agent process exited''), True))"

definition classify_dormant :: "health_inputs \<Rightarrow> health_status \<times> liveness \<times> utext option \<times> bool" where
  "classify_dormant i =
     (case hi_restored i of
        Some r \<Rightarrow>
          if rs_was_mid_turn r \<and> rs_prior_host_gone r
          then (Interrupted, Exited HostLock, Some (lit ''OxiMux restarted during a turn''), False)
          else (Idle, RestoredUnconfirmed, Some (lit ''restored, not confirmed''), False)
      | None \<Rightarrow>
          if hi_interrupted i then (Interrupted, Unverifiable, None, False)
          else (case hi_last_turn_failure i of
                  Some failure \<Rightarrow> (HealthFailed, Unverifiable, Some failure, False)
                | None \<Rightarrow> (Idle, Unverifiable, None, False)))"

definition accepted_reason :: "health_inputs \<Rightarrow> int \<Rightarrow> health_config \<Rightarrow> utext option" where
  "accepted_reason i now cfg =
     (case hi_accepted_unstarted_since i of
        Some since \<Rightarrow>
          if i64_saturating_sub now since \<ge> hc_accepted_unstarted_ms cfg
          then Some (lit ''Accepted, not started yet'') else None
      | None \<Rightarrow> None)"

definition classify_live ::
  "health_inputs \<Rightarrow> int \<Rightarrow> health_config \<Rightarrow> health_status \<times> liveness \<times> utext option \<times> bool" where
  "classify_live i now cfg =
     (let alive = (if hi_restored i \<noteq> None then RestoredUnconfirmed else LiveProcess) in
      if hi_interrupted i then (Interrupted, alive, None, False)
      else
        (case hi_prompt i of
           Some PromptPermission \<Rightarrow> (NeedsPermission, alive, None, False)
         | Some PromptQuestion \<Rightarrow> (NeedsAnswer, alive, None, False)
         | None \<Rightarrow>
             if hi_limited_until i \<noteq> None
             then (Limited, alive,
                   Some (case hi_limit_reason i of Some r \<Rightarrow> r | None \<Rightarrow> lit ''rate limited''), False)
             else if is_working i then (Working, alive, accepted_reason i now cfg, False)
             else (case hi_last_turn_failure i of
                     Some failure \<Rightarrow> (HealthFailed, alive, Some failure, False)
                   | None \<Rightarrow> (Idle, alive, None, False))))"

definition classify ::
  "health_inputs \<Rightarrow> int \<Rightarrow> health_config \<Rightarrow> health_status \<times> liveness \<times> utext option \<times> bool" where
  "classify i now cfg =
     (case hi_process i of
        ProcessExited proof \<Rightarrow> classify_exited proof i
      | Dormant \<Rightarrow> classify_dormant i
      | ProcessLive \<Rightarrow> classify_live i now cfg)"

definition health_compute :: "health_inputs \<Rightarrow> int \<Rightarrow> health_config \<Rightarrow> session_health" where
  "health_compute i now cfg =
     (let (status, alive, reason, unexpected) = classify i now cfg in
      \<lparr>sh_status = status, sh_liveness = alive,
       sh_limited_until = (if status = Limited then hi_limited_until i else None),
       sh_stalled_since =
         (if status = Working \<and> hc_stall_after_ms cfg > 0 \<and>
             i64_saturating_sub now (hi_last_activity_at i) \<ge> hc_stall_after_ms cfg
          then Some (hi_last_activity_at i) else None),
       sh_exited_unexpectedly = unexpected, sh_reason = reason,
       sh_last_activity_at = hi_last_activity_at i,
       sh_pending_unanswered_send = hi_pending_unanswered_send i,
       sh_held_restored = hi_held_restored i, sh_turn_id = hi_turn_id i, sh_exit_seq = hi_exit_seq i\<rparr>)"

definition i64_saturating_mul :: "int \<Rightarrow> int \<Rightarrow> int" where
  "i64_saturating_mul a b = max (- (2 ^ 63)) (min (2 ^ 63 - 1) (a * b))"

definition slept :: "int \<Rightarrow> int \<Rightarrow> int \<Rightarrow> bool" where
  "slept mono_elapsed_ms wall_elapsed_ms interval_ms \<longleftrightarrow>
     i64_saturating_sub wall_elapsed_ms mono_elapsed_ms > interval_ms \<or>
     mono_elapsed_ms > i64_saturating_mul interval_ms 2"

section \<open>What a state proves\<close>

lemma live_facts:
  "classify_live i now cfg = (s, a, r, u) \<Longrightarrow>
     \<not> u \<and> a \<in> {LiveProcess, RestoredUnconfirmed} \<and>
     (s = HealthFailed \<longrightarrow> hi_last_turn_failure i \<noteq> None) \<and> (s = Interrupted \<longrightarrow> hi_interrupted i)"
  unfolding classify_live_def Let_def
  by (auto dest: sym split: if_splits option.splits prompt_kind.splits)

text \<open>What the status, the liveness and the unexpected end are read off.\<close>

definition steady :: "health_status \<times> liveness \<times> utext option \<times> bool \<Rightarrow> health_status \<times> liveness \<times> bool" where
  "steady x = (case x of (s, a, _, u) \<Rightarrow> (s, a, u))"

lemma live_steady:
  "steady (classify_live (i\<lparr>hi_last_activity_at := seen\<rparr>) now' cfg') = steady (classify_live i now cfg)"
  unfolding classify_live_def Let_def steady_def
  by (cases "hi_prompt i"; cases "hi_last_turn_failure i"; cases "hi_limited_until i")
    (auto simp: is_working_def split: prompt_kind.split)

lemma classify_steady:
  "steady (classify (i\<lparr>hi_last_activity_at := seen\<rparr>) now' cfg') = steady (classify i now cfg)"
  by (cases "hi_process i"; cases "hi_restored i"; cases "hi_last_turn_failure i")
    (simp_all add: classify_def live_steady classify_exited_def classify_dormant_def)

lemma compute_steady:
  "(sh_status (health_compute i now cfg), sh_liveness (health_compute i now cfg),
    sh_exited_unexpectedly (health_compute i now cfg)) = steady (classify i now cfg)"
  by (simp add: health_compute_def steady_def split: prod.split)

text \<open>
  C34: Truth needs a proof, and silence is not death.  A session is reported failed only when its
  process ended by itself or its last turn failed, ended unexpectedly only when the process did and
  nobody stopped it, interrupted only after a Stop or when the host it ran under is provably gone,
  exited only with such a proof; and neither the clock nor the last sign of life has any part in
  status and liveness.
\<close>

theorem health_needs_proof:
  assumes "h = health_compute i now cfg"
  shows "(sh_status h = HealthFailed \<longrightarrow>
      (\<exists>p. hi_process i = ProcessExited p \<and> p \<notin> {UserStop, HostLock}) \<or> hi_last_turn_failure i \<noteq> None) \<and>
    (sh_exited_unexpectedly h \<longleftrightarrow>
      (\<exists>p. hi_process i = ProcessExited p \<and> p \<notin> {UserStop, HostLock} \<and> \<not> hi_interrupted i)) \<and>
    (sh_status h = Interrupted \<longrightarrow>
      hi_interrupted i \<or> hi_process i \<in> {ProcessExited UserStop, ProcessExited HostLock} \<or>
      hi_process i = Dormant \<and> map_option (\<lambda>r. rs_was_mid_turn r \<and> rs_prior_host_gone r) (hi_restored i) = Some True) \<and>
    ((\<exists>p. sh_liveness h = Exited p) \<longrightarrow>
      (\<exists>p. hi_process i = ProcessExited p) \<or>
      hi_process i = Dormant \<and> map_option (\<lambda>r. rs_was_mid_turn r \<and> rs_prior_host_gone r) (hi_restored i) = Some True) \<and>
    (let h' = health_compute (i\<lparr>hi_last_activity_at := seen\<rparr>) now' cfg' in
      sh_status h' = sh_status h \<and> sh_liveness h' = sh_liveness h \<and>
      sh_exited_unexpectedly h' = sh_exited_unexpectedly h)"
proof -
  obtain s a r u where c: "classify i now cfg = (s, a, r, u)" by (cases "classify i now cfg")
  then have h: "sh_status h = s" "sh_liveness h = a" "sh_exited_unexpectedly h = u"
    unfolding assms by (simp_all add: health_compute_def)
  let ?h' = "health_compute (i\<lparr>hi_last_activity_at := seen\<rparr>) now' cfg'"
  have "(sh_status ?h', sh_liveness ?h', sh_exited_unexpectedly ?h') =
      (sh_status h, sh_liveness h, sh_exited_unexpectedly h)"
    unfolding assms by (simp only: compute_steady classify_steady)
  then have same: "let h' = ?h' in sh_status h' = sh_status h \<and> sh_liveness h' = sh_liveness h \<and>
      sh_exited_unexpectedly h' = sh_exited_unexpectedly h"
    unfolding Let_def by simp
  show ?thesis
  proof (cases "hi_process i")
    case Dormant
    then show ?thesis using c same unfolding h
      by (auto simp: classify_def classify_dormant_def split: option.splits if_splits)
  next
    case ProcessLive
    then have "classify_live i now cfg = (s, a, r, u)" using c by (simp add: classify_def)
    note facts = live_facts [OF this]
    show ?thesis using same facts ProcessLive unfolding h by auto
  next
    case (ProcessExited p)
    then show ?thesis using c same unfolding h
      by (auto simp: classify_def classify_exited_def split: if_splits)
  qed
qed

definition sample_inputs :: health_inputs where
  "sample_inputs =
     \<lparr>hi_turn_active = True, hi_continuations_open = 0, hi_pending_unanswered_send = False,
      hi_accepted_unstarted_since = None, hi_background_active = 0, hi_children_active = 0,
      hi_prompt = None, hi_prompt_request = None, hi_limited_until = None, hi_limit_reason = None,
      hi_last_turn_failure = None, hi_interrupted = False, hi_process = ProcessLive, hi_restored = None,
      hi_recovery_note_owed = False, hi_held_restored = 0, hi_queued = 0, hi_last_activity_at = 0,
      hi_turn_id = None, hi_exit_seq = None\<rparr>"

theorem health_needs_proof_witness:
  "sh_status (health_compute sample_inputs 900000 default_health_config) = Working \<and>
   sh_status (health_compute (sample_inputs\<lparr>hi_last_activity_at := 7\<rparr>) 0 default_health_config) = Working"
proof -
  have "sh_status (health_compute sample_inputs 900000 default_health_config) = Working"
    by (simp add: sample_inputs_def health_compute_def classify_def classify_live_def is_working_def Let_def)
  moreover have "sh_status (health_compute (sample_inputs\<lparr>hi_last_activity_at := 7\<rparr>) 0 default_health_config) =
      sh_status (health_compute sample_inputs 900000 default_health_config)"
    using health_needs_proof [OF refl, of sample_inputs 900000 default_health_config 7 0 default_health_config]
    unfolding Let_def by blast
  ultimately show ?thesis by simp
qed

text \<open>A person who has to act is told so before anything a machine does, and a stall is only ever
  noted of a session that works.\<close>

lemma prompt_outranks_work:
  "\<lbrakk>hi_process i = ProcessLive; \<not> hi_interrupted i; hi_prompt i = Some k\<rbrakk> \<Longrightarrow>
     sh_status (health_compute i now cfg) =
       (case k of PromptPermission \<Rightarrow> NeedsPermission | PromptQuestion \<Rightarrow> NeedsAnswer)"
  by (cases k) (simp_all add: health_compute_def classify_def classify_live_def Let_def)

lemma stall_only_of_work:
  "sh_stalled_since (health_compute i now cfg) \<noteq> None \<Longrightarrow>
     sh_status (health_compute i now cfg) = Working \<and>
     i64_saturating_sub now (hi_last_activity_at i) \<ge> hc_stall_after_ms cfg"
  by (auto simp: health_compute_def Let_def split: prod.splits if_splits)

end
