(* ===== verification/Recurrence.thy ===== *)
theory Recurrence
  imports Rust_Text
begin

text \<open>
  When a schedule fires next (\<open>crates/agents/src/schedule/recurrence.rs\<close>).  An instant is its
  nanoseconds since the epoch, a day its number since the epoch.  What the operating system and
  the library \<open>chrono\<close> know of the local zone is the record \<open>zone\<close>, the cron library (\<open>croner\<close>) the
  record \<open>cron_lib\<close>: parameters of every definition that uses them.  A loop that does not end is
  \<open>None\<close>.
\<close>

section \<open>The zone and the cron library\<close>

abbreviation sec :: int where "sec \<equiv> 10 ^ 9"
abbreviation day_secs :: int where "day_secs \<equiv> 86400"

datatype local_result = NoLocal | Single int | Ambiguous int int

text \<open>
  \<open>zn_offset t\<close> is the offset from UTC at the instant \<open>t\<close>, in seconds; \<open>zn_from_local l\<close> the
  instants at which local clocks show \<open>l\<close> seconds since the local epoch; \<open>zn_stamp\<close> and \<open>zn_parse\<close>
  are \<open>to_rfc3339\<close> of a local instant and its inverse.
\<close>

record zone =
  zn_offset :: "int \<Rightarrow> int"
  zn_from_local :: "int \<Rightarrow> local_result"
  zn_stamp :: "int \<Rightarrow> utext"
  zn_parse :: "utext \<Rightarrow> int option"

text \<open>
  \<open>cl_next c t\<close> is \<open>find_next_occurrence\<close> after \<open>t\<close>, exclusive; \<open>cl_probe_from\<close> is the clock at
  which the cadence of an expression is walked.
\<close>

record 'c cron_lib =
  cl_parse :: "utext \<Rightarrow> utext + 'c"
  cl_next :: "'c \<Rightarrow> int \<Rightarrow> int option"
  cl_describe :: "'c \<Rightarrow> utext"
  cl_lowercase :: "nat \<Rightarrow> utext"
  cl_probe_from :: int

definition local_nanos :: "zone \<Rightarrow> int \<Rightarrow> int" where
  "local_nanos z t = t + zn_offset z t * sec"

text \<open>\<open>date_naive\<close>, and \<open>num_days_from_monday\<close> (the epoch was a Thursday).\<close>

definition date_naive :: "zone \<Rightarrow> int \<Rightarrow> int" where
  "date_naive z t = local_nanos z t div (day_secs * sec)"

definition days_from_monday :: "int \<Rightarrow> int" where
  "days_from_monday day = (day + 3) mod 7"

section \<open>Recurrences\<close>

datatype recurrence = EveryMinutes u32 | DailyAt u8 u8 | WeeklyAt u8 u8 u8 | CronExpr utext

datatype recurrence_error =
  IntervalTooShort | BadTime | BadWeekday | BadCron utext | CronNeverFires | CronTooFrequent

definition MIN_INTERVAL_MINUTES :: u32 where "MIN_INTERVAL_MINUTES = 5"
definition FLOOR_PROBE_FIRES :: nat where "FLOOR_PROBE_FIRES = 64"

definition check_time :: "u8 \<Rightarrow> u8 \<Rightarrow> recurrence_error option" where
  "check_time hour minute = (if hour > 23 \<or> minute > 59 then Some BadTime else None)"

definition is_valid_time :: "u8 \<Rightarrow> u8 \<Rightarrow> bool" where
  "is_valid_time hour minute \<longleftrightarrow> check_time hour minute = None"

definition every_minutes :: "u32 \<Rightarrow> recurrence_error + recurrence" where
  "every_minutes minutes =
     (if minutes < MIN_INTERVAL_MINUTES then Inl IntervalTooShort else Inr (EveryMinutes minutes))"

definition daily_at :: "u8 \<Rightarrow> u8 \<Rightarrow> recurrence_error + recurrence" where
  "daily_at hour minute =
     (case check_time hour minute of Some e \<Rightarrow> Inl e | None \<Rightarrow> Inr (DailyAt hour minute))"

definition weekly_at :: "u8 \<Rightarrow> u8 \<Rightarrow> u8 \<Rightarrow> recurrence_error + recurrence" where
  "weekly_at weekday hour minute =
     (if weekday > 6 then Inl BadWeekday
      else (case check_time hour minute of Some e \<Rightarrow> Inl e | None \<Rightarrow> Inr (WeeklyAt weekday hour minute)))"

definition floor_nanos :: int where
  "floor_nanos = uint MIN_INTERVAL_MINUTES * 60 * sec"

text \<open>The walk over the fires after the first.\<close>

fun cadence_walk :: "(int \<Rightarrow> int option) \<Rightarrow> nat \<Rightarrow> int \<Rightarrow> recurrence_error option" where
  "cadence_walk find_next 0 prev = None"
| "cadence_walk find_next (Suc n) prev =
     (case find_next prev of
        None \<Rightarrow> None
      | Some next \<Rightarrow> if next - prev < floor_nanos then Some CronTooFrequent else cadence_walk find_next n next)"

definition check_cron_cadence :: "(int \<Rightarrow> int option) \<Rightarrow> int \<Rightarrow> recurrence_error option" where
  "check_cron_cadence find_next start =
     (case find_next start of
        None \<Rightarrow> Some CronNeverFires
      | Some first \<Rightarrow> cadence_walk find_next (FLOOR_PROBE_FIRES - 1) first)"

definition parse_cron :: "'c cron_lib \<Rightarrow> utext \<Rightarrow> recurrence_error + 'c" where
  "parse_cron cl expr = (case cl_parse cl expr of Inl e \<Rightarrow> Inl (BadCron e) | Inr c \<Rightarrow> Inr c)"

definition cron :: "'c cron_lib \<Rightarrow> utext \<Rightarrow> recurrence_error + recurrence" where
  "cron cl expr0 =
     (let expr = trim_text expr0 in
      case parse_cron cl expr of
        Inl e \<Rightarrow> Inl e
      | Inr c \<Rightarrow>
          (case check_cron_cadence (cl_next cl c) (cl_probe_from cl) of
             Some e \<Rightarrow> Inl e
           | None \<Rightarrow> Inr (CronExpr expr)))"

section \<open>The next fire\<close>

definition resolve_local :: "zone \<Rightarrow> int \<Rightarrow> u8 \<Rightarrow> u8 \<Rightarrow> int option" where
  "resolve_local z day hour minute =
     (if hour > 23 \<or> minute > 59 then None
      else (case zn_from_local z (day * day_secs + uint hour * 3600 + uint minute * 60) of
              Single t \<Rightarrow> Some t
            | Ambiguous earlier _ \<Rightarrow> Some earlier
            | NoLocal \<Rightarrow> None))"

text \<open>The bounded walk over the days, and what it answers when it finds none.\<close>

fun wall_clock_walk :: "zone \<Rightarrow> int \<Rightarrow> u8 \<Rightarrow> u8 \<Rightarrow> nat \<Rightarrow> int \<Rightarrow> int" where
  "wall_clock_walk z after hour minute 0 day = after + day_secs * sec"
| "wall_clock_walk z after hour minute (Suc n) day =
     (case resolve_local z day hour minute of
        Some t \<Rightarrow> if t > after then t else wall_clock_walk z after hour minute n (day + 1)
      | None \<Rightarrow> wall_clock_walk z after hour minute n (day + 1))"

definition next_wall_clock :: "zone \<Rightarrow> int \<Rightarrow> u8 \<Rightarrow> u8 \<Rightarrow> int" where
  "next_wall_clock z after hour minute = wall_clock_walk z after hour minute 8 (date_naive z after)"

partial_function (option) weekly_loop :: "zone \<Rightarrow> int \<Rightarrow> u8 \<Rightarrow> u8 \<Rightarrow> int \<Rightarrow> int option" where
  "weekly_loop z after hour minute next =
     (case resolve_local z next hour minute of
        Some t \<Rightarrow> if t > after then Some t else weekly_loop z after hour minute (next + 7)
      | None \<Rightarrow> weekly_loop z after hour minute (next + 7))"

definition next_weekly :: "zone \<Rightarrow> int \<Rightarrow> u8 \<Rightarrow> u8 \<Rightarrow> u8 \<Rightarrow> int option" where
  "next_weekly z after weekday hour minute =
     (let today = date_naive z after;
          ahead = (uint weekday + 7 - days_from_monday today) mod 7;
          day = today + ahead
      in case resolve_local z day hour minute of
           Some t \<Rightarrow> if t > after then Some t else weekly_loop z after hour minute (day + 7)
         | None \<Rightarrow> weekly_loop z after hour minute (day + 7))"

definition next_after :: "zone \<Rightarrow> 'c cron_lib \<Rightarrow> recurrence \<Rightarrow> int \<Rightarrow> int option" where
  "next_after z cl r after =
     (case r of
        EveryMinutes minutes \<Rightarrow> Some (after + uint minutes * 60 * sec)
      | CronExpr expr \<Rightarrow>
          Some (case parse_cron cl expr of
                  Inl _ \<Rightarrow> after + 365 * day_secs * sec
                | Inr c \<Rightarrow> (case cl_next cl c after of Some t \<Rightarrow> t | None \<Rightarrow> after + 365 * day_secs * sec))
      | DailyAt hour minute \<Rightarrow> Some (next_wall_clock z after hour minute)
      | WeeklyAt weekday hour minute \<Rightarrow> next_weekly z after weekday hour minute)"

section \<open>Descriptions\<close>

definition two_digits :: "u8 \<Rightarrow> utext" where
  "two_digits b = (if b < 10 then lit ''0'' @ dec_text (unat b) else dec_text (unat b))"

definition DAYS :: "string list" where
  "DAYS = [''Monday'', ''Tuesday'', ''Wednesday'', ''Thursday'', ''Friday'', ''Saturday'', ''Sunday'']"

text \<open>\<open>trim_end_matches('.')\<close> and the lower-case first letter.\<close>

definition describe_cron :: "'c cron_lib \<Rightarrow> utext \<Rightarrow> utext" where
  "describe_cron cl expr =
     (case parse_cron cl expr of
        Inl _ \<Rightarrow> expr
      | Inr c \<Rightarrow>
          (case rev (dropWhile (\<lambda>ch. ch = 46) (rev (cl_describe cl c))) of
             first # rest \<Rightarrow> cl_lowercase cl first @ rest
           | [] \<Rightarrow> expr))"

definition describe :: "'c cron_lib \<Rightarrow> recurrence \<Rightarrow> utext" where
  "describe cl r =
     (case r of
        EveryMinutes m \<Rightarrow>
          if m mod 60 = 0 \<and> m \<ge> 60
          then (let hours = m div 60 in
                if hours = 1 then lit ''every hour'' else lit ''every '' @ dec_text (unat hours) @ lit '' hours'')
          else lit ''every '' @ dec_text (unat m) @ lit '' minutes''
      | DailyAt hour minute \<Rightarrow> lit ''daily at '' @ two_digits hour @ lit '':'' @ two_digits minute
      | WeeklyAt weekday hour minute \<Rightarrow>
          lit (if unat weekday < length DAYS then DAYS ! unat weekday else ''?'') @ lit ''s at '' @
          two_digits hour @ lit '':'' @ two_digits minute
      | CronExpr expr \<Rightarrow> describe_cron cl expr)"

end
