(* ===== verification/Schedule_Store.thy ===== *)
theory Schedule_Store
  imports Recurrence Sql_Rows "HOL-Library.List_Lexorder"
begin

text \<open>
  Scheduled runs and their history (\<open>crates/agents/src/schedule/store.rs\<close>), on the tables
  \<open>schedules\<close> and \<open>schedule_runs\<close>.  Instants are stored as texts (\<open>zn_stamp\<close>), which is what rows
  are ordered and runs are keyed by.  The random id of a new schedule is an argument; an operation
  is \<open>None\<close> when the search for a next fire does not end.
\<close>

section \<open>Rows\<close>

definition MAX_HEARTBEATS_PER_SESSION :: nat where "MAX_HEARTBEATS_PER_SESSION = 5"

datatype schedule_target = NewSession | ExistingSession utext

record schedule =
  sd_id :: utext
  sd_name :: utext
  sd_cwd :: utext
  sd_prompt :: utext
  sd_agent_id :: "utext option"
  sd_recurrence :: recurrence
  sd_enabled :: bool
  sd_next_fire_at :: int
  sd_target :: schedule_target

record new_schedule =
  ns_name :: utext
  ns_cwd :: utext
  ns_prompt :: utext
  ns_agent_id :: "utext option"
  ns_recurrence :: recurrence

datatype run_outcome = RunOk | RunFailed

record schedule_run =
  sn_schedule_id :: utext
  sn_fired_at :: int
  sn_outcome :: run_outcome
  sn_session_id :: "utext option"
  sn_detail :: "utext option"

record recurrence_columns =
  rk_kind :: utext
  rk_interval_minutes :: "int option"
  rk_hour :: "int option"
  rk_minute :: "int option"
  rk_weekday :: "int option"
  rk_cron_expr :: "utext option"

record schedule_row =
  sr_id :: utext
  sr_name :: utext
  sr_cwd :: utext
  sr_prompt :: utext
  sr_agent_id :: "utext option"
  sr_columns :: recurrence_columns
  sr_enabled :: int
  sr_next_fire_at :: utext
  sr_created_at :: utext
  sr_target_session_id :: "utext option"

text \<open>\<open>'running'\<close> is the claim of a fire that has not been settled.\<close>

datatype stored_outcome = StoredRunning | StoredOk | StoredFailed

record run_row =
  rr_schedule_id :: utext
  rr_fired_at :: utext
  rr_outcome :: stored_outcome
  rr_session_id :: "utext option"
  rr_detail :: "utext option"

record schedule_db =
  db_schedules :: "schedule_row list"
  db_runs :: "run_row list"

definition outcome_text :: "run_outcome \<Rightarrow> stored_outcome" where
  "outcome_text oc = (case oc of RunOk \<Rightarrow> StoredOk | RunFailed \<Rightarrow> StoredFailed)"

section \<open>Recurrences in columns\<close>

definition empty_columns :: recurrence_columns where
  "empty_columns = \<lparr>rk_kind = lit ''interval'', rk_interval_minutes = None, rk_hour = None, rk_minute = None,
     rk_weekday = None, rk_cron_expr = None\<rparr>"

definition decompose :: "recurrence \<Rightarrow> recurrence_columns" where
  "decompose r =
     (case r of
        EveryMinutes m \<Rightarrow> empty_columns\<lparr>rk_interval_minutes := Some (uint m)\<rparr>
      | DailyAt hour minute \<Rightarrow>
          empty_columns\<lparr>rk_kind := lit ''daily'', rk_hour := Some (uint hour), rk_minute := Some (uint minute)\<rparr>
      | WeeklyAt weekday hour minute \<Rightarrow>
          empty_columns\<lparr>rk_kind := lit ''weekly'', rk_hour := Some (uint hour), rk_minute := Some (uint minute),
                         rk_weekday := Some (uint weekday)\<rparr>
      | CronExpr expr \<Rightarrow> empty_columns\<lparr>rk_kind := lit ''cron'', rk_cron_expr := Some expr\<rparr>)"

definition built :: "recurrence_error + recurrence \<Rightarrow> recurrence option" where
  "built x = (case x of Inl _ \<Rightarrow> None | Inr r \<Rightarrow> Some r)"

definition recompose :: "'c cron_lib \<Rightarrow> recurrence_columns \<Rightarrow> recurrence option" where
  "recompose cl k =
     (if rk_kind k = lit ''interval'' then
        (case rk_interval_minutes k of Some m \<Rightarrow> built (every_minutes (word_of_int m)) | None \<Rightarrow> None)
      else if rk_kind k = lit ''daily'' then
        (case (rk_hour k, rk_minute k) of
           (Some h, Some m) \<Rightarrow> built (daily_at (word_of_int h) (word_of_int m)) | _ \<Rightarrow> None)
      else if rk_kind k = lit ''weekly'' then
        (case (rk_weekday k, rk_hour k, rk_minute k) of
           (Some w, Some h, Some m) \<Rightarrow> built (weekly_at (word_of_int w) (word_of_int h) (word_of_int m)) | _ \<Rightarrow> None)
      else if rk_kind k = lit ''cron'' then
        (case rk_cron_expr k of Some e \<Rightarrow> built (cron cl e) | None \<Rightarrow> None)
      else None)"

definition row_to_schedule :: "zone \<Rightarrow> 'c cron_lib \<Rightarrow> schedule_row \<Rightarrow> schedule option" where
  "row_to_schedule z cl r =
     (case (recompose cl (sr_columns r), zn_parse z (sr_next_fire_at r)) of
        (Some rc, Some t) \<Rightarrow>
          Some \<lparr>sd_id = sr_id r, sd_name = sr_name r, sd_cwd = sr_cwd r, sd_prompt = sr_prompt r,
                sd_agent_id = sr_agent_id r, sd_recurrence = rc, sd_enabled = (sr_enabled r \<noteq> 0),
                sd_next_fire_at = t,
                sd_target = (case sr_target_session_id r of Some s \<Rightarrow> ExistingSession s | None \<Rightarrow> NewSession)\<rparr>
      | _ \<Rightarrow> None)"

section \<open>Reading\<close>

definition schedule_list :: "zone \<Rightarrow> 'c cron_lib \<Rightarrow> schedule_db \<Rightarrow> schedule list" where
  "schedule_list z cl db = List.map_filter (row_to_schedule z cl) (sort_key sr_next_fire_at (db_schedules db))"

definition for_session :: "zone \<Rightarrow> 'c cron_lib \<Rightarrow> utext \<Rightarrow> schedule_db \<Rightarrow> schedule list" where
  "for_session z cl sid db = filter (\<lambda>s. sd_target s = ExistingSession sid) (schedule_list z cl db)"

definition list_spawning :: "zone \<Rightarrow> 'c cron_lib \<Rightarrow> schedule_db \<Rightarrow> schedule list" where
  "list_spawning z cl db = filter (\<lambda>s. sd_target s = NewSession) (schedule_list z cl db)"

definition due :: "zone \<Rightarrow> 'c cron_lib \<Rightarrow> int \<Rightarrow> schedule_db \<Rightarrow> schedule list" where
  "due z cl now db = filter (\<lambda>s. sd_enabled s \<and> sd_next_fire_at s \<le> now) (schedule_list z cl db)"

definition get_schedule :: "zone \<Rightarrow> 'c cron_lib \<Rightarrow> utext \<Rightarrow> schedule_db \<Rightarrow> schedule option" where
  "get_schedule z cl i db = List.find (\<lambda>s. sd_id s = i) (schedule_list z cl db)"

definition any_enabled :: "zone \<Rightarrow> 'c cron_lib \<Rightarrow> schedule_db \<Rightarrow> bool" where
  "any_enabled z cl db = list_ex sd_enabled (schedule_list z cl db)"

definition is_run :: "utext \<Rightarrow> utext \<Rightarrow> run_row \<Rightarrow> bool" where
  "is_run i fired r \<longleftrightarrow> rr_schedule_id r = i \<and> rr_fired_at r = fired"

definition is_claim :: "utext \<Rightarrow> utext \<Rightarrow> run_row \<Rightarrow> bool" where
  "is_claim i fired r \<longleftrightarrow> is_run i fired r \<and> rr_outcome r = StoredRunning"

definition already_ran :: "zone \<Rightarrow> utext \<Rightarrow> int \<Rightarrow> schedule_db \<Rightarrow> bool" where
  "already_ran z i fired_at db = list_ex (is_run i (zn_stamp z fired_at)) (db_runs db)"

definition read_run :: "zone \<Rightarrow> int \<Rightarrow> run_row \<Rightarrow> schedule_run" where
  "read_run z now r =
     \<lparr>sn_schedule_id = rr_schedule_id r,
      sn_fired_at = (case zn_parse z (rr_fired_at r) of Some t \<Rightarrow> t | None \<Rightarrow> now),
      sn_outcome = (if rr_outcome r = StoredOk then RunOk else RunFailed),
      sn_session_id = rr_session_id r, sn_detail = rr_detail r\<rparr>"

definition schedule_runs :: "zone \<Rightarrow> int \<Rightarrow> utext \<Rightarrow> nat \<Rightarrow> schedule_db \<Rightarrow> schedule_run list" where
  "schedule_runs z now i limit db =
     map (read_run z now)
       (take limit (rev (sort_key rr_fired_at
          (filter (\<lambda>r. rr_schedule_id r = i \<and> rr_outcome r \<noteq> StoredRunning) (db_runs db)))))"

section \<open>Creating\<close>

datatype create_error = TooManyHeartbeats nat | IdTaken

definition schedule_row_of :: "zone \<Rightarrow> int \<Rightarrow> schedule \<Rightarrow> schedule_row" where
  "schedule_row_of z now s =
     \<lparr>sr_id = sd_id s, sr_name = sd_name s, sr_cwd = sd_cwd s, sr_prompt = sd_prompt s,
      sr_agent_id = sd_agent_id s, sr_columns = decompose (sd_recurrence s), sr_enabled = 1,
      sr_next_fire_at = zn_stamp z (sd_next_fire_at s), sr_created_at = zn_stamp z now,
      sr_target_session_id = (case sd_target s of NewSession \<Rightarrow> None | ExistingSession i \<Rightarrow> Some i)\<rparr>"

definition create_targeted ::
  "zone \<Rightarrow> 'c cron_lib \<Rightarrow> utext \<Rightarrow> new_schedule \<Rightarrow> schedule_target \<Rightarrow> int \<Rightarrow> schedule_db \<Rightarrow>
   ((create_error + schedule) \<times> schedule_db) option" where
  "create_targeted z cl random_id new target now db =
     (case next_after z cl (ns_recurrence new) now of
        None \<Rightarrow> None
      | Some next_fire \<Rightarrow>
          (let s = \<lparr>sd_id = lit ''sch-'' @ random_id, sd_name = ns_name new, sd_cwd = ns_cwd new,
                    sd_prompt = ns_prompt new, sd_agent_id = ns_agent_id new,
                    sd_recurrence = ns_recurrence new, sd_enabled = True, sd_next_fire_at = next_fire,
                    sd_target = target\<rparr>
           in Some (if list_ex (\<lambda>r. sr_id r = sd_id s) (db_schedules db) then (Inl IdTaken, db)
                    else (Inr s, db\<lparr>db_schedules := db_schedules db @ [schedule_row_of z now s]\<rparr>))))"

definition create_schedule ::
  "zone \<Rightarrow> 'c cron_lib \<Rightarrow> utext \<Rightarrow> new_schedule \<Rightarrow> int \<Rightarrow> schedule_db \<Rightarrow>
   ((create_error + schedule) \<times> schedule_db) option" where
  "create_schedule z cl random_id new now db = create_targeted z cl random_id new NewSession now db"

definition create_heartbeat ::
  "zone \<Rightarrow> 'c cron_lib \<Rightarrow> utext \<Rightarrow> new_schedule \<Rightarrow> utext \<Rightarrow> int \<Rightarrow> schedule_db \<Rightarrow>
   ((create_error + schedule) \<times> schedule_db) option" where
  "create_heartbeat z cl random_id new session_id now db =
     (let existing = length (for_session z cl session_id db) in
      if existing \<ge> MAX_HEARTBEATS_PER_SESSION then Some (Inl (TooManyHeartbeats existing), db)
      else create_targeted z cl random_id new (ExistingSession session_id) now db)"

section \<open>Fires\<close>

definition begin_fire :: "zone \<Rightarrow> utext \<Rightarrow> int \<Rightarrow> schedule_db \<Rightarrow> bool \<times> schedule_db" where
  "begin_fire z i fired_at db =
     (if list_ex (is_run i (zn_stamp z fired_at)) (db_runs db) then (False, db)
      else (True, db\<lparr>db_runs := db_runs db @
              [\<lparr>rr_schedule_id = i, rr_fired_at = zn_stamp z fired_at, rr_outcome = StoredRunning,
                rr_session_id = None, rr_detail = None\<rparr>]\<rparr>))"

definition release_fire :: "zone \<Rightarrow> utext \<Rightarrow> int \<Rightarrow> schedule_db \<Rightarrow> schedule_db" where
  "release_fire z i fired_at db =
     db\<lparr>db_runs := sql_delete (is_claim i (zn_stamp z fired_at)) (db_runs db)\<rparr>"

definition settle_run ::
  "zone \<Rightarrow> utext \<Rightarrow> int \<Rightarrow> run_outcome \<Rightarrow> utext option \<Rightarrow> utext option \<Rightarrow> run_row list \<Rightarrow> run_row list" where
  "settle_run z i fired_at oc session_id detail runs =
     sql_update (is_claim i (zn_stamp z fired_at))
       (\<lambda>r. r\<lparr>rr_outcome := outcome_text oc, rr_session_id := session_id, rr_detail := detail\<rparr>) runs"

definition arm :: "utext \<Rightarrow> utext \<Rightarrow> schedule_row list \<Rightarrow> schedule_row list" where
  "arm i next_fire rows = sql_update (\<lambda>r. sr_id r = i) (\<lambda>r. r\<lparr>sr_next_fire_at := next_fire\<rparr>) rows"

definition finish_scheduled ::
  "zone \<Rightarrow> 'c cron_lib \<Rightarrow> schedule \<Rightarrow> int \<Rightarrow> run_outcome \<Rightarrow> utext option \<Rightarrow> utext option \<Rightarrow> int \<Rightarrow> schedule_db \<Rightarrow>
   (int \<times> schedule_db) option" where
  "finish_scheduled z cl s fired_at oc session_id detail now db =
     (case next_after z cl (sd_recurrence s) now of
        None \<Rightarrow> None
      | Some next_fire \<Rightarrow>
          Some (next_fire, db\<lparr>db_runs := settle_run z (sd_id s) fired_at oc session_id detail (db_runs db),
                              db_schedules := arm (sd_id s) (zn_stamp z next_fire) (db_schedules db)\<rparr>))"

definition finish_manual ::
  "zone \<Rightarrow> utext \<Rightarrow> int \<Rightarrow> run_outcome \<Rightarrow> utext option \<Rightarrow> utext option \<Rightarrow> schedule_db \<Rightarrow> schedule_db" where
  "finish_manual z i fired_at oc session_id detail db =
     db\<lparr>db_runs := settle_run z i fired_at oc session_id detail (db_runs db)\<rparr>"

section \<open>Boot\<close>

definition restart_detail :: utext where
  "restart_detail = lit ''the host restarted before this run completed''"

definition fail_run :: "utext \<Rightarrow> utext \<Rightarrow> run_row list \<Rightarrow> run_row list" where
  "fail_run i fired runs =
     sql_update (is_run i fired) (\<lambda>r. r\<lparr>rr_outcome := StoredFailed, rr_detail := Some restart_detail\<rparr>) runs"

text \<open>One interrupted run; \<open>schedules\<close> is the listing taken before the transaction.\<close>

definition recover_one ::
  "zone \<Rightarrow> 'c cron_lib \<Rightarrow> int \<Rightarrow> schedule list \<Rightarrow> utext \<times> utext \<Rightarrow> schedule_db \<Rightarrow> schedule_db option" where
  "recover_one z cl now schedules claim db =
     (let (i, fired) = claim;
          db1 = db\<lparr>db_runs := fail_run i fired (db_runs db)\<rparr>
      in case List.find (\<lambda>s. sd_id s = i) schedules of
           None \<Rightarrow> Some db1
         | Some s \<Rightarrow>
             if zn_stamp z (sd_next_fire_at s) = fired
             then map_option (\<lambda>t. db1\<lparr>db_schedules := arm i (zn_stamp z t) (db_schedules db1)\<rparr>)
                    (next_after z cl (sd_recurrence s) now)
             else Some db1)"

definition interrupted_runs :: "schedule_db \<Rightarrow> (utext \<times> utext) list" where
  "interrupted_runs db =
     map (\<lambda>r. (rr_schedule_id r, rr_fired_at r)) (filter (\<lambda>r. rr_outcome r = StoredRunning) (db_runs db))"

definition recover_interrupted ::
  "zone \<Rightarrow> 'c cron_lib \<Rightarrow> int \<Rightarrow> schedule_db \<Rightarrow> (nat \<times> schedule_db) option" where
  "recover_interrupted z cl now db =
     (let schedules = schedule_list z cl db; interrupted = interrupted_runs db in
      map_option (\<lambda>db'. (length interrupted, db'))
        (fold_opt (recover_one z cl now schedules) interrupted db))"

definition orphan_detail :: utext where
  "orphan_detail = lit ''the target session no longer exists; schedule disabled''"

definition is_orphan :: "(utext \<Rightarrow> bool) \<Rightarrow> schedule \<Rightarrow> bool" where
  "is_orphan session_exists s \<longleftrightarrow>
     sd_enabled s \<and> (case sd_target s of ExistingSession sid \<Rightarrow> \<not> session_exists sid | NewSession \<Rightarrow> False)"

definition disable_orphan :: "zone \<Rightarrow> int \<Rightarrow> utext \<Rightarrow> schedule_db \<Rightarrow> schedule_db" where
  "disable_orphan z now i db =
     db\<lparr>db_schedules := sql_update (\<lambda>r. sr_id r = i) (\<lambda>r. r\<lparr>sr_enabled := 0\<rparr>) (db_schedules db),
        db_runs :=
          (if list_ex (is_run i (zn_stamp z now)) (db_runs db) then db_runs db
           else db_runs db @ [\<lparr>rr_schedule_id = i, rr_fired_at = zn_stamp z now, rr_outcome = StoredFailed,
                               rr_session_id = None, rr_detail = Some orphan_detail\<rparr>])\<rparr>"

definition sweep_orphaned_targets ::
  "zone \<Rightarrow> 'c cron_lib \<Rightarrow> int \<Rightarrow> (utext \<Rightarrow> bool) \<Rightarrow> schedule_db \<Rightarrow> utext list \<times> schedule_db" where
  "sweep_orphaned_targets z cl now session_exists db =
     (let orphaned = map sd_id (filter (is_orphan session_exists) (schedule_list z cl db))
      in (orphaned, fold (disable_orphan z now) orphaned db))"

section \<open>Changing\<close>

definition set_schedule_enabled ::
  "zone \<Rightarrow> 'c cron_lib \<Rightarrow> utext \<Rightarrow> bool \<Rightarrow> int \<Rightarrow> schedule_db \<Rightarrow> schedule_db option" where
  "set_schedule_enabled z cl i enabled now db =
     (let flag = (\<lambda>r. r\<lparr>sr_enabled := (if enabled then 1 else 0)\<rparr>);
          target = (if enabled then get_schedule z cl i db else None)
      in case target of
           Some s \<Rightarrow>
             map_option (\<lambda>t. db\<lparr>db_schedules :=
                 sql_update (\<lambda>r. sr_id r = i) (\<lambda>r. (flag r)\<lparr>sr_next_fire_at := zn_stamp z t\<rparr>) (db_schedules db)\<rparr>)
               (next_after z cl (sd_recurrence s) now)
         | None \<Rightarrow> Some (db\<lparr>db_schedules := sql_update (\<lambda>r. sr_id r = i) flag (db_schedules db)\<rparr>))"

definition delete_schedule :: "utext \<Rightarrow> schedule_db \<Rightarrow> schedule_db" where
  "delete_schedule i db =
     db\<lparr>db_runs := sql_delete (\<lambda>r. rr_schedule_id r = i) (db_runs db),
        db_schedules := sql_delete (\<lambda>r. sr_id r = i) (db_schedules db)\<rparr>"

end
