(* ===== verification/Next_Fire.thy ===== *)
theory Next_Fire
  imports Recurrence
begin

text \<open>
  The next fire of a schedule lies in the future, and at the time of day the schedule names: what is
  documented of local time (offsets below a day, a skipped time of day exists again a day and a week
  later) makes the walks over the days end.
\<close>

section \<open>What is relied on\<close>

definition zone_ok :: "zone \<Rightarrow> bool" where
  "zone_ok z \<longleftrightarrow> (\<forall>t. \<bar>zn_offset z t\<bar> < day_secs) \<and>
     (\<forall>l. case zn_from_local z l of
            NoLocal \<Rightarrow> zn_from_local z (l + day_secs) \<noteq> NoLocal \<and> zn_from_local z (l + 7 * day_secs) \<noteq> NoLocal
          | Single t \<Rightarrow> local_nanos z t = l * sec
          | Ambiguous a b \<Rightarrow> a < b \<and> local_nanos z a = l * sec \<and> local_nanos z b = l * sec) \<and>
     (\<forall>t. zn_parse z (zn_stamp z t) = Some t)"

definition cron_ok :: "'c cron_lib \<Rightarrow> bool" where
  "cron_ok cl \<longleftrightarrow> (\<forall>c t u. cl_next cl c t = Some u \<longrightarrow> t < u)"

definition recurrence_ok :: "recurrence \<Rightarrow> bool" where
  "recurrence_ok r \<longleftrightarrow>
     (case r of EveryMinutes m \<Rightarrow> MIN_INTERVAL_MINUTES \<le> m | DailyAt h m \<Rightarrow> is_valid_time h m
      | WeeklyAt w h m \<Rightarrow> w \<le> 6 \<and> is_valid_time h m | CronExpr _ \<Rightarrow> True)"

lemma zone_okD:
  assumes "zone_ok z"
  shows "\<bar>zn_offset z t\<bar> < day_secs"
    and "zn_from_local z l = Single t \<Longrightarrow> local_nanos z t = l * sec"
    and "zn_from_local z l = Ambiguous a b \<Longrightarrow> local_nanos z a = l * sec"
    and "zn_from_local z l = NoLocal \<Longrightarrow> zn_from_local z (l + day_secs) \<noteq> NoLocal"
    and "zn_from_local z l = NoLocal \<Longrightarrow> zn_from_local z (l + 7 * day_secs) \<noteq> NoLocal"
    and "zn_parse z (zn_stamp z t) = Some t"
proof -
  have *: "case zn_from_local z l of
            NoLocal \<Rightarrow> zn_from_local z (l + day_secs) \<noteq> NoLocal \<and> zn_from_local z (l + 7 * day_secs) \<noteq> NoLocal
          | Single t \<Rightarrow> local_nanos z t = l * sec
          | Ambiguous a b \<Rightarrow> a < b \<and> local_nanos z a = l * sec \<and> local_nanos z b = l * sec"
    using assms unfolding zone_ok_def by blast
  show "zn_from_local z l = Single t \<Longrightarrow> local_nanos z t = l * sec"
    "zn_from_local z l = Ambiguous a b \<Longrightarrow> local_nanos z a = l * sec"
    "zn_from_local z l = NoLocal \<Longrightarrow> zn_from_local z (l + day_secs) \<noteq> NoLocal"
    "zn_from_local z l = NoLocal \<Longrightarrow> zn_from_local z (l + 7 * day_secs) \<noteq> NoLocal"
    using * by simp_all
  show "\<bar>zn_offset z t\<bar> < day_secs" "zn_parse z (zn_stamp z t) = Some t"
    using assms unfolding zone_ok_def by blast+
qed

lemma stamp_inject: "zone_ok z \<Longrightarrow> zn_stamp z s = zn_stamp z t \<longleftrightarrow> s = t"
  using zone_okD(6) by (metis option.inject)

text \<open>The constructors build nothing else.\<close>

lemma built_ok:
  "every_minutes n = Inr r \<Longrightarrow> recurrence_ok r"
  "daily_at h m = Inr r \<Longrightarrow> recurrence_ok r"
  "weekly_at w h m = Inr r \<Longrightarrow> recurrence_ok r"
  "cron cl e = Inr r \<Longrightarrow> recurrence_ok r"
  by (auto simp: every_minutes_def daily_at_def weekly_at_def cron_def Let_def recurrence_ok_def is_valid_time_def
      split: if_splits option.splits sum.splits)

section \<open>Slots\<close>

definition slot_secs :: "u8 \<Rightarrow> u8 \<Rightarrow> int" where
  "slot_secs hour minute = uint hour * 3600 + uint minute * 60"

lemma slot_in_day:
  assumes "is_valid_time h m"
  shows "0 \<le> slot_secs h m" "slot_secs h m < day_secs"
proof -
  have "h \<le> 23" "m \<le> 59"
    using assms by (auto simp: is_valid_time_def check_time_def split: if_splits)
  then have "uint h \<le> 23" "uint m \<le> 59" by (simp_all add: word_le_def)
  moreover have "0 \<le> uint h" "0 \<le> uint m" by simp_all
  ultimately show "0 \<le> slot_secs h m" "slot_secs h m < day_secs" unfolding slot_secs_def by linarith+
qed

lemma resolve_local_at:
  assumes "zone_ok z" "resolve_local z d h m = Some t"
  shows "is_valid_time h m" "local_nanos z t = (d * day_secs + slot_secs h m) * sec"
proof -
  show "is_valid_time h m"
    using assms(2) by (auto simp: resolve_local_def is_valid_time_def check_time_def split: if_splits)
  show "local_nanos z t = (d * day_secs + slot_secs h m) * sec"
    using assms(2) zone_okD(2,3) [OF assms(1)]
    by (auto simp: resolve_local_def slot_secs_def add.assoc split: if_splits local_result.splits)
qed

lemma slot_date:
  assumes "zone_ok z" "resolve_local z d h m = Some t"
  shows "date_naive z t = d" "local_nanos z t mod (day_secs * sec) = slot_secs h m * sec"
proof -
  note valid = resolve_local_at(1) [OF assms]
  have eq: "local_nanos z t = slot_secs h m * sec + d * (day_secs * sec)"
    using resolve_local_at(2) [OF assms] by (simp add: algebra_simps)
  have range: "0 \<le> slot_secs h m * sec" "slot_secs h m * sec < day_secs * sec"
    using slot_in_day [OF valid] by simp_all
  show "date_naive z t = d" unfolding date_naive_def eq using range by simp
  show "local_nanos z t mod (day_secs * sec) = slot_secs h m * sec" unfolding eq using range by simp
qed

lemma resolves_again:
  assumes "zone_ok z" "is_valid_time h m" "resolve_local z d h m = None"
  shows "resolve_local z (d + 1) h m \<noteq> None" "resolve_local z (d + 7) h m \<noteq> None"
proof -
  have range: "\<not> (h > 23 \<or> m > 59)"
    using assms(2) by (simp add: is_valid_time_def check_time_def split: if_splits)
  let ?l = "d * day_secs + uint h * 3600 + uint m * 60"
  have none: "zn_from_local z ?l = NoLocal"
    using assms(3) range by (simp add: resolve_local_def split: local_result.splits)
  have e: "(d + 1) * day_secs + uint h * 3600 + uint m * 60 = ?l + day_secs"
    "(d + 7) * day_secs + uint h * 3600 + uint m * 60 = ?l + 7 * day_secs"
    by (simp_all add: algebra_simps)
  show "resolve_local z (d + 1) h m \<noteq> None" "resolve_local z (d + 7) h m \<noteq> None"
    unfolding resolve_local_def e using zone_okD(4,5) [OF assms(1) none] range
    by (simp_all split: local_result.splits)
qed

text \<open>A slot three days on is later, wherever the clocks are set.\<close>

lemma slot_later:
  assumes "zone_ok z" "resolve_local z d h m = Some t" "date_naive z after + 3 \<le> d"
  shows "after < t"
proof -
  have "local_nanos z after < (date_naive z after + 1) * (day_secs * sec)"
    using pos_mod_bound [of "day_secs * sec" "local_nanos z after"]
      div_mult_mod_eq [of "local_nanos z after" "day_secs * sec"]
    unfolding date_naive_def by (simp add: algebra_simps)
  moreover have "(date_naive z after + 3) * (day_secs * sec) \<le> local_nanos z t"
  proof -
    have "(date_naive z after + 3) * (day_secs * sec) \<le> d * (day_secs * sec)"
      using assms(3) by (intro mult_right_mono) simp_all
    also have "\<dots> \<le> (d * day_secs + slot_secs h m) * sec"
      using slot_in_day(1) [OF resolve_local_at(1) [OF assms(1,2)]] by (simp add: algebra_simps)
    finally show ?thesis using resolve_local_at(2) [OF assms(1,2)] by simp
  qed
  moreover have "\<bar>zn_offset z after\<bar> < day_secs" "\<bar>zn_offset z t\<bar> < day_secs"
    using zone_okD(1) [OF assms(1)] by blast+
  ultimately show ?thesis unfolding local_nanos_def by (simp add: algebra_simps)
qed

definition later_slot :: "zone \<Rightarrow> int \<Rightarrow> u8 \<Rightarrow> u8 \<Rightarrow> int \<Rightarrow> int option" where
  "later_slot z after h m d =
     (case resolve_local z d h m of Some t \<Rightarrow> if t > after then Some t else None | None \<Rightarrow> None)"

lemma later_slotD: "later_slot z after h m d = Some t \<Longrightarrow> resolve_local z d h m = Some t \<and> after < t"
  by (auto simp: later_slot_def split: option.splits if_splits)

lemma later_slot_three:
  assumes "zone_ok z" "date_naive z after + 3 \<le> d" "resolve_local z d h m \<noteq> None"
  shows "later_slot z after h m d \<noteq> None"
  using assms slot_later [OF assms(1) _ assms(2)] by (auto simp: later_slot_def)

section \<open>The walks\<close>

lemma walk_numeral:
  "wall_clock_walk z after h m (numeral k) day =
     (case resolve_local z day h m of
        Some t \<Rightarrow> if t > after then t else wall_clock_walk z after h m (pred_numeral k) (day + 1)
      | None \<Rightarrow> wall_clock_walk z after h m (pred_numeral k) (day + 1))"
  by (simp only: numeral_eq_Suc wall_clock_walk.simps)

lemma walk_first:
  "\<lbrakk>k < n; later_slot z after h m (day + int k) = Some t; \<forall>j < k. later_slot z after h m (day + int j) = None\<rbrakk> \<Longrightarrow>
     wall_clock_walk z after h m n day = t"
proof (induction n arbitrary: day k)
  case (Suc n)
  show ?case
  proof (cases k)
    case 0
    then show ?thesis using Suc.prems(2) later_slotD [of z after h m day t] by simp
  next
    case (Suc k')
    have "later_slot z after h m (day + int 0) = None" using Suc.prems(3) Suc by blast
    then have "wall_clock_walk z after h m (Suc n) day = wall_clock_walk z after h m n (day + 1)"
      by (auto simp: later_slot_def split: option.splits if_splits)
    moreover have "wall_clock_walk z after h m n (day + 1) = t"
    proof (rule Suc.IH)
      show "k' < n" "later_slot z after h m (day + 1 + int k') = Some t"
        using Suc.prems(1,2) Suc by (simp_all add: algebra_simps)
      show "\<forall>j < k'. later_slot z after h m (day + 1 + int j) = None"
      proof (intro allI impI)
        fix j assume "j < k'"
        then have "later_slot z after h m (day + int (Suc j)) = None" using Suc.prems(3) Suc by blast
        then show "later_slot z after h m (day + 1 + int j) = None" by (simp add: algebra_simps)
      qed
    qed
    ultimately show ?thesis by simp
  qed
qed simp

lemma next_wall_clock_first:
  assumes "zone_ok z" "is_valid_time h m"
  obtains d where "later_slot z after h m d = Some (next_wall_clock z after h m)" "date_naive z after \<le> d"
    "\<forall>d' \<in> {date_naive z after..<d}. later_slot z after h m d' = None"
proof -
  let ?hit = "\<lambda>k. later_slot z after h m (date_naive z after + int k) \<noteq> None"
  obtain k0 where k0: "?hit k0" "k0 \<le> 4"
  proof (cases "resolve_local z (date_naive z after + 3) h m = None")
    case True
    then have "resolve_local z (date_naive z after + 4) h m \<noteq> None"
      using resolves_again(1) [OF assms, of "date_naive z after + 3"] by (simp add: add.assoc)
    then have "?hit 4" using later_slot_three [OF assms(1), of after "date_naive z after + 4"] by simp
    then show ?thesis by (rule that) simp
  next
    case False
    then have "?hit 3" using later_slot_three [OF assms(1), of after "date_naive z after + 3"] by simp
    then show ?thesis by (rule that) simp
  qed
  have ex: "\<exists>k. ?hit k" "Least ?hit \<le> 4" using k0(1) Least_le [of ?hit, OF k0(1)] k0(2) by (blast, simp)
  let ?k = "Least ?hit"
  obtain t where t: "later_slot z after h m (date_naive z after + int ?k) = Some t"
    using LeastI_ex [OF ex(1)] by blast
  have before: "\<forall>j < ?k. later_slot z after h m (date_naive z after + int j) = None"
    using not_less_Least by blast
  have "next_wall_clock z after h m = t"
    unfolding next_wall_clock_def by (rule walk_first [OF _ t before]) (use ex(2) in simp)
  moreover have "\<forall>d' \<in> {date_naive z after..<date_naive z after + int ?k}. later_slot z after h m d' = None"
  proof
    fix d' assume "d' \<in> {date_naive z after..<date_naive z after + int ?k}"
    then have "nat (d' - date_naive z after) < ?k" "date_naive z after + int (nat (d' - date_naive z after)) = d'" by auto
    then show "later_slot z after h m d' = None" using before by metis
  qed
  moreover have "date_naive z after \<le> date_naive z after + int ?k" by simp
  ultimately show ?thesis using t that [of "date_naive z after + int ?k"] by metis
qed

lemma weekly_loop_steps:
  "later_slot z after h m d = Some t \<Longrightarrow> weekly_loop z after h m d = Some t"
  "later_slot z after h m d = None \<Longrightarrow> weekly_loop z after h m d = weekly_loop z after h m (d + 7)"
  by (subst weekly_loop.simps, auto simp: later_slot_def split: option.splits if_splits)+

lemma days_from_monday_week: "days_from_monday (d + 7) = days_from_monday d"
  unfolding days_from_monday_def by presburger

text \<open>The days of a weekday are a week apart.\<close>

lemma weekdays_apart:
  assumes "days_from_monday d = days_from_monday d'" "d - 7 < d'" "d' \<le> d + 14"
  shows "d' \<in> {d, d + 7, d + 14}"
proof -
  have "7 dvd d' - d"
    using assms(1) unfolding days_from_monday_def by presburger
  then obtain k where "d' - d = 7 * k" by (rule dvdE)
  then show ?thesis using assms(2,3) by simp presburger
qed

lemma days_ahead:
  fixes t w :: int
  assumes "0 \<le> w" "w < 7"
  shows "(t + (w + 7 - (t + 3) mod 7) mod 7 + 3) mod 7 = w"
proof -
  have "(t + (w + 7 - (t + 3) mod 7) mod 7 + 3) mod 7 = ((t + 3) + (w + 7 - (t + 3) mod 7) mod 7) mod 7"
    by (simp add: algebra_simps)
  also have "\<dots> = ((t + 3) + (w + 7 - (t + 3) mod 7)) mod 7" by (rule mod_add_right_eq)
  also have "\<dots> = ((t + 3 + (w + 7)) - (t + 3) mod 7) mod 7" by (simp add: algebra_simps)
  also have "\<dots> = ((t + 3 + (w + 7)) - (t + 3)) mod 7" by (rule mod_diff_right_eq)
  also have "\<dots> = w" using assms by simp
  finally show ?thesis .
qed

lemma next_weekly_first:
  assumes "zone_ok z" "is_valid_time h m" "w \<le> 6"
  obtains t d where "next_weekly z after w h m = Some t" "later_slot z after h m d = Some t"
    "date_naive z after \<le> d" "days_from_monday d = uint w"
    "\<forall>d' \<in> {date_naive z after..<d}. days_from_monday d' = uint w \<longrightarrow> later_slot z after h m d' = None"
proof -
  let ?today = "date_naive z after"
  let ?ahead = "(uint w + 7 - days_from_monday ?today) mod 7"
  define day where "day = ?today + ?ahead"
  have w: "0 \<le> uint w" "uint w \<le> 6" using assms(3) by (simp_all add: word_le_def)
  have ahead: "?today \<le> day" "day < ?today + 7" by (simp_all add: day_def)
  have monday: "days_from_monday day = uint w"
    using days_ahead [of "uint w" ?today] w unfolding days_from_monday_def day_def by simp
  have only: "d' \<in> {day, day + 7, day + 14}" if "?today \<le> d'" "d' \<le> day + 14" "days_from_monday d' = uint w" for d'
    using weekdays_apart [of day d'] that monday ahead by simp
  have eq: "next_weekly z after w h m =
      (case later_slot z after h m day of Some t \<Rightarrow> Some t | None \<Rightarrow> weekly_loop z after h m (day + 7))"
    by (auto simp: next_weekly_def Let_def later_slot_def day_def split: option.split)
  show ?thesis
  proof (cases "later_slot z after h m day")
    case (Some t)
    have "\<forall>d' \<in> {?today..<day}. days_from_monday d' = uint w \<longrightarrow> later_slot z after h m d' = None"
      using only ahead by fastforce
    then show ?thesis using that [of t day] eq Some monday ahead by simp
  next
    case first: None
    show ?thesis
    proof (cases "later_slot z after h m (day + 7)")
      case (Some t)
      have "\<forall>d' \<in> {?today..<day + 7}. days_from_monday d' = uint w \<longrightarrow> later_slot z after h m d' = None"
        using only first ahead by fastforce
      then show ?thesis
        using that [of t "day + 7"] eq first Some monday ahead weekly_loop_steps(1) [OF Some]
          days_from_monday_week [of day] by simp
    next
      case None
      then have "resolve_local z (day + 7) h m = None"
        using later_slot_three [OF assms(1), of after "day + 7" h m] ahead
        by (cases "resolve_local z (day + 7) h m") auto
      then have "resolve_local z (day + 14) h m \<noteq> None"
        using resolves_again(2) [OF assms(1,2), of "day + 7"] by (simp add: add.assoc)
      then obtain t where t: "later_slot z after h m (day + 14) = Some t"
        using later_slot_three [OF assms(1), of after "day + 14" h m] ahead by auto
      have "next_weekly z after w h m = Some t"
        using eq first weekly_loop_steps(2) [OF None] weekly_loop_steps(1) [OF t] by (simp add: add.assoc)
      moreover have "days_from_monday (day + 14) = uint w"
        using days_from_monday_week [of "day + 7"] days_from_monday_week [of day] monday by (simp add: add.assoc)
      moreover have "\<forall>d' \<in> {?today..<day + 14}. days_from_monday d' = uint w \<longrightarrow> later_slot z after h m d' = None"
        using only first None ahead by fastforce
      ultimately show ?thesis using that [of t "day + 14"] t ahead by simp
    qed
  qed
qed

section \<open>The promise\<close>

text \<open>
  C19: A schedule always has a next fire, and it lies in the future: an interval counts from now (and
  is at least five minutes long), a daily or weekly run comes at the hour and minute it names, on
  the first day (of its weekday) that has such a time later than now; a time of day the clocks skip
  waits for a day that has it.
\<close>

theorem next_fire_is_later:
  assumes "zone_ok z" "cron_ok cl" "recurrence_ok r"
  shows "\<exists>t. next_after z cl r after = Some t \<and> after < t \<and>
    (let first = \<lambda>days h m. local_nanos z t mod (day_secs * sec) = slot_secs h m * sec \<and>
           date_naive z t \<in> days \<and>
           (\<forall>d \<in> {date_naive z after..<date_naive z t} \<inter> days. later_slot z after h m d = None)
     in case r of
          EveryMinutes m \<Rightarrow> t = after + uint m * 60 * sec \<and> 5 \<le> uint m
        | DailyAt h m \<Rightarrow> first UNIV h m
        | WeeklyAt w h m \<Rightarrow> first {d. days_from_monday d = uint w} h m
        | CronExpr _ \<Rightarrow> True)"
proof (cases r)
  case (EveryMinutes m)
  then have "5 \<le> uint m" using assms(3) by (simp add: recurrence_ok_def MIN_INTERVAL_MINUTES_def word_le_def)
  then show ?thesis by (simp add: EveryMinutes next_after_def)
next
  case (DailyAt h m)
  then have valid: "is_valid_time h m" using assms(3) by (simp add: recurrence_ok_def)
  obtain d where d: "later_slot z after h m d = Some (next_wall_clock z after h m)"
      "\<forall>d' \<in> {date_naive z after..<d}. later_slot z after h m d' = None"
    using next_wall_clock_first [OF assms(1) valid] by metis
  then have slot: "resolve_local z d h m = Some (next_wall_clock z after h m)" "after < next_wall_clock z after h m"
    using later_slotD by blast+
  then show ?thesis using slot_date [OF assms(1) slot(1)] d(2)
    by (simp add: DailyAt next_after_def)
next
  case (WeeklyAt w h m)
  then have valid: "is_valid_time h m" "w \<le> 6" using assms(3) by (simp_all add: recurrence_ok_def)
  obtain t d where t: "next_weekly z after w h m = Some t" "later_slot z after h m d = Some t"
      "days_from_monday d = uint w"
      "\<forall>d' \<in> {date_naive z after..<d}. days_from_monday d' = uint w \<longrightarrow> later_slot z after h m d' = None"
    using next_weekly_first [OF assms(1) valid] by metis
  then have slot: "resolve_local z d h m = Some t" "after < t" using later_slotD by blast+
  then show ?thesis using slot_date [OF assms(1) slot(1)] t
    by (simp add: WeeklyAt next_after_def)
next
  case (CronExpr e)
  then show ?thesis using assms(2)
    by (auto simp: next_after_def cron_ok_def split: sum.splits option.splits)
qed

text \<open>A zone two hours east of Greenwich in summer and one in winter, whose year has two days.\<close>

definition sample_stamp :: "int \<Rightarrow> utext" where
  "sample_stamp t = (if t < 0 then [1, nat (- t)] else [0, nat t])"

fun sample_parse :: "utext \<Rightarrow> int option" where
  "sample_parse [0, n] = Some (int n)"
| "sample_parse [Suc _, n] = Some (- int n)"
| "sample_parse _ = None"

definition sample_zone :: zone where
  "sample_zone = \<lparr>zn_offset = (\<lambda>t. if t < 0 then 3600 else 7200),
     zn_from_local = (\<lambda>l. if l < 3600 then Single ((l - 3600) * sec)
                          else if l < 7200 then NoLocal else Single ((l - 7200) * sec)),
     zn_stamp = sample_stamp, zn_parse = sample_parse\<rparr>"

definition sample_cron :: "unit cron_lib" where
  "sample_cron = \<lparr>cl_parse = (\<lambda>e. if e = [] then Inl [] else Inr ()),
     cl_next = (\<lambda>_ t. Some (t + 3600 * sec)), cl_describe = (\<lambda>_. []), cl_lowercase = (\<lambda>c. [c]),
     cl_probe_from = 0\<rparr>"

lemma sample_zone_ok: "zone_ok sample_zone"
proof -
  have "(0 :: int) < sec" by simp
  then have "(l - 3600) * sec < 0 \<longleftrightarrow> l < 3600" "(l - 7200) * sec < 0 \<longleftrightarrow> l < 7200" for l :: int
    by (simp_all add: mult_less_0_iff)
  then show ?thesis
    by (simp add: zone_ok_def sample_zone_def local_nanos_def sample_stamp_def algebra_simps)
qed

lemma sample_cron_ok: "cron_ok sample_cron"
  by (simp add: cron_ok_def sample_cron_def)

text \<open>On the day whose clocks skip from one to two, a run at half past one waits a day.\<close>

theorem next_fire_is_later_witness:
  "next_after sample_zone sample_cron (DailyAt 1 30) (- 7200 * sec) = Some (84600 * sec) \<and>
   (\<exists>t. next_after sample_zone sample_cron (DailyAt 1 30) (- 7200 * sec) = Some t \<and> - 7200 * sec < t)"
proof -
  have "recurrence_ok (DailyAt 1 30)" by (simp add: recurrence_ok_def is_valid_time_def check_time_def)
  from next_fire_is_later [OF sample_zone_ok sample_cron_ok this, of "- 7200 * sec"]
  have "\<exists>t. next_after sample_zone sample_cron (DailyAt 1 30) (- 7200 * sec) = Some t \<and> - 7200 * sec < t" by blast
  moreover have "next_after sample_zone sample_cron (DailyAt 1 30) (- 7200 * sec) = Some (84600 * sec)"
    by (simp add: next_after_def next_wall_clock_def date_naive_def local_nanos_def sample_zone_def
        walk_numeral resolve_local_def)
  ultimately show ?thesis by blast
qed

end
