(* ===== verification/Schedule_Rows.thy ===== *)
theory Schedule_Rows
  imports Schedule_Store Next_Fire
begin

text \<open>
  A schedule is read back from its row as it was created: the columns of a recurrence rebuild it,
  and whatever a constructor built passes its own checks again.
\<close>

definition constructed :: "'c cron_lib \<Rightarrow> recurrence \<Rightarrow> bool" where
  "constructed cl r \<longleftrightarrow> (\<exists>n. every_minutes n = Inr r) \<or> (\<exists>h m. daily_at h m = Inr r) \<or>
     (\<exists>w h m. weekly_at w h m = Inr r) \<or> (\<exists>e. cron cl e = Inr r)"

lemma constructed_ok: "constructed cl r \<Longrightarrow> recurrence_ok r"
  by (auto simp: constructed_def built_ok)

section \<open>Trimming twice\<close>

lemma trim_end_idem: "trim_end (trim_end t) = trim_end t"
  by (simp add: trim_end_def)

lemma trim_end_keeps_start:
  assumes "t = [] \<or> \<not> is_whitespace (hd t)"
  shows "trim_start (trim_end t) = trim_end t"
proof (cases "trim_end t")
  case (Cons c u)
  have "\<exists>v. t = trim_end t @ v"
    using takeWhile_dropWhile_id [of is_whitespace "rev t"]
    by (metis rev_append rev_rev_ident trim_end_def)
  then have "hd t = c" "t \<noteq> []" using Cons by (metis append_Cons list.sel(1), auto)
  then show ?thesis using assms by (simp add: Cons trim_start_def)
qed (simp add: trim_start_def)

lemma trim_text_idem: "trim_text (trim_text t) = trim_text t"
proof -
  have "trim_start t = [] \<or> \<not> is_whitespace (hd (trim_start t))"
    using hd_dropWhile [of is_whitespace t] by (auto simp: trim_start_def)
  then show ?thesis
    unfolding trim_text_def by (simp add: trim_end_keeps_start trim_end_idem)
qed

section \<open>Columns\<close>

lemma recompose_decompose:
  assumes "constructed cl r"
  shows "recompose cl (decompose r) = Some r"
proof (cases r)
  case (EveryMinutes n)
  then have "every_minutes n = Inr r" using assms
    by (auto simp: constructed_def every_minutes_def daily_at_def weekly_at_def cron_def Let_def
        split: if_splits option.splits sum.splits)
  then show ?thesis by (simp add: EveryMinutes decompose_def recompose_def empty_columns_def built_def)
next
  case (DailyAt h m)
  then have "daily_at h m = Inr r" using assms
    by (auto simp: constructed_def every_minutes_def daily_at_def weekly_at_def cron_def Let_def
        split: if_splits option.splits sum.splits)
  then show ?thesis by (simp add: DailyAt decompose_def recompose_def empty_columns_def built_def)
next
  case (WeeklyAt w h m)
  then have "weekly_at w h m = Inr r" using assms
    by (auto simp: constructed_def every_minutes_def daily_at_def weekly_at_def cron_def Let_def
        split: if_splits option.splits sum.splits)
  then show ?thesis by (simp add: WeeklyAt decompose_def recompose_def empty_columns_def built_def)
next
  case (CronExpr e)
  then obtain e0 where e0: "cron cl e0 = Inr (CronExpr e)" using assms
    by (auto simp: constructed_def every_minutes_def daily_at_def weekly_at_def
        split: if_splits option.splits)
  then have "e = trim_text e0" by (auto simp: cron_def Let_def split: sum.splits option.splits)
  then have "cron cl e = Inr r" using e0 CronExpr by (simp add: cron_def trim_text_idem)
  then show ?thesis by (simp add: CronExpr decompose_def recompose_def empty_columns_def built_def)
qed

text \<open>What a row reads as was built by a constructor, so nothing below the floor ever loads.\<close>

lemma recompose_constructed: "recompose cl k = Some r \<Longrightarrow> constructed cl r"
  unfolding recompose_def constructed_def built_def
  by (auto split: if_splits option.splits sum.splits)

section \<open>Listings\<close>

lemma row_to_schedule_fields:
  assumes "row_to_schedule z cl r = Some s"
  shows "sd_id s = sr_id r" "sd_enabled s \<longleftrightarrow> sr_enabled r \<noteq> 0" "zn_parse z (sr_next_fire_at r) = Some (sd_next_fire_at s)"
    "recompose cl (sr_columns r) = Some (sd_recurrence s)"
  using assms by (auto simp: row_to_schedule_def split: option.splits)

lemma in_schedule_list:
  "s \<in> set (schedule_list z cl db) \<longleftrightarrow> (\<exists>r \<in> set (db_schedules db). row_to_schedule z cl r = Some s)"
  by (force simp: schedule_list_def List.map_filter_def)

lemma listed_ok: "s \<in> set (schedule_list z cl db) \<Longrightarrow> recurrence_ok (sd_recurrence s)"
  by (auto simp: in_schedule_list dest!: row_to_schedule_fields(4) recompose_constructed constructed_ok)

lemma distinct_listed_ids:
  assumes "distinct (map sr_id (db_schedules db))"
  shows "distinct (map sd_id (schedule_list z cl db))"
proof -
  have "distinct (map sd_id (List.map_filter (row_to_schedule z cl) rows))" if "distinct (map sr_id rows)" for rows
    using that
  proof (induction rows)
    case (Cons r rows)
    show ?case
    proof (cases "row_to_schedule z cl r")
      case (Some s)
      have "sd_id s \<notin> sd_id ` set (List.map_filter (row_to_schedule z cl) rows)"
      proof
        assume "sd_id s \<in> sd_id ` set (List.map_filter (row_to_schedule z cl) rows)"
        then obtain r' s' where "r' \<in> set rows" "row_to_schedule z cl r' = Some s'" "sd_id s' = sd_id s"
          by (auto simp: List.map_filter_def split: option.splits)
        then have "sr_id r \<in> sr_id ` set rows"
          using row_to_schedule_fields(1) [OF Some] row_to_schedule_fields(1) [of z cl r' s'] by (metis imageI)
        then show False using Cons.prems by simp
      qed
      then show ?thesis using Cons by (simp add: List.map_filter_simps Some)
    qed (use Cons in \<open>simp add: List.map_filter_simps\<close>)
  qed (simp add: List.map_filter_simps)
  moreover have "distinct (map sr_id (sort_key sr_next_fire_at (db_schedules db)))"
    using assms by (simp add: distinct_map)
  ultimately show ?thesis unfolding schedule_list_def by blast
qed

lemma find_by_id:
  assumes "distinct (map sd_id xs)" "s \<in> set xs"
  shows "List.find (\<lambda>x. sd_id x = sd_id s) xs = Some s"
  using assms by (induction xs) auto

lemma find_only:
  assumes "y \<in> set xs" "P y" "\<And>x. x \<in> set xs \<Longrightarrow> P x \<Longrightarrow> x = y"
  shows "List.find P xs = Some y"
proof (cases "List.find P xs")
  case None
  then show ?thesis using assms(1,2) by (simp add: find_None_iff)
next
  case (Some x)
  then have "x \<in> set xs" "P x" by (auto simp: find_Some_iff)
  then show ?thesis using Some assms(3) by simp
qed

section \<open>Round trip\<close>


definition sample_new :: new_schedule where
  "sample_new = \<lparr>ns_name = [1], ns_cwd = [], ns_prompt = [2], ns_agent_id = None, ns_recurrence = DailyAt 9 0\<rparr>"

definition empty_db :: schedule_db where
  "empty_db = \<lparr>db_schedules = [], db_runs = []\<rparr>"


end
