(* ===== verification/Schedule_Ticker.thy ===== *)
theory Schedule_Ticker
  imports Schedule_Store
begin

text \<open>
  The engine that fires schedules (\<open>crates/agents/src/schedule/ticker.rs\<close>).  A fire waits for its
  host: what it does before the wait (take the in-flight mark, claim the occurrence) and after it
  (settle or release the claim, drop the mark) are two functions, composed by \<open>fire_one\<close> and
  \<open>run_now\<close> and interleaved with everything else by \<open>ticker_step\<close>.  The host is a parameter, its
  answer any \<open>fire_outcome\<close>.
\<close>

section \<open>State\<close>

datatype fire_outcome = Completed "utext option" | FireFailed "utext option" utext | NotNow

datatype run_now_error = RunNotFound | RunBusy | RunNotNow

record ticker =
  tk_db :: schedule_db
  tk_in_flight :: "utext set"
  tk_recorded :: "schedule_run list"

section \<open>Heartbeats\<close>

definition heartbeat_prompt :: "schedule \<Rightarrow> utext" where
  "heartbeat_prompt s =
     lit ''[oximux heartbeat: '' @ sd_name s @
     lit ''] This is a scheduled wake-up, delivered by the host on '' @
     lit ''the cadence set for this session. Nobody typed it. Act on it directly and '' @
     lit ''reply only with what the instruction below asks for.'' @ [10, 10] @ sd_prompt s"

text \<open>The sessions that are running, each with whether a prompt can be delivered to it.\<close>

definition nudge_existing_session ::
  "(utext \<Rightarrow> (utext \<Rightarrow> bool) option) \<Rightarrow> schedule \<Rightarrow> utext \<Rightarrow> fire_outcome" where
  "nudge_existing_session registry s session_id =
     (case registry session_id of
        None \<Rightarrow> FireFailed (Some session_id) (lit ''that session is not running, so there was nothing to wake'')
      | Some send_prompt \<Rightarrow>
          if send_prompt (heartbeat_prompt s) then Completed (Some session_id)
          else FireFailed (Some session_id)
                 (lit ''the session is running but the prompt could not be delivered''))"

section \<open>Choosing\<close>

definition plan_fire :: "schedule list \<Rightarrow> utext set \<Rightarrow> (schedule \<Rightarrow> bool) \<Rightarrow> schedule list" where
  "plan_fire dues in_flight has_run = filter (\<lambda>s. \<not> has_run s) (filter (\<lambda>s. sd_id s \<notin> in_flight) dues)"

definition select_due :: "zone \<Rightarrow> 'c cron_lib \<Rightarrow> int \<Rightarrow> ticker \<Rightarrow> schedule list" where
  "select_due z cl now t =
     plan_fire (due z cl now (tk_db t)) (tk_in_flight t) (\<lambda>s. already_ran z (sd_id s) (sd_next_fire_at s) (tk_db t))"

section \<open>A fire\<close>

definition claim_fire :: "zone \<Rightarrow> utext \<Rightarrow> int \<Rightarrow> ticker \<Rightarrow> bool \<times> ticker" where
  "claim_fire z i fired_at t =
     (if i \<in> tk_in_flight t then (False, t)
      else case begin_fire z i fired_at (tk_db t) of
             (True, db) \<Rightarrow> (True, t\<lparr>tk_db := db, tk_in_flight := insert i (tk_in_flight t)\<rparr>)
           | (False, _) \<Rightarrow> (False, t))"

definition drop_mark :: "utext \<Rightarrow> ticker \<Rightarrow> ticker" where
  "drop_mark i t = t\<lparr>tk_in_flight := tk_in_flight t - {i}\<rparr>"

definition recorded_run :: "schedule \<Rightarrow> int \<Rightarrow> run_outcome \<Rightarrow> utext option \<Rightarrow> utext option \<Rightarrow> schedule_run" where
  "recorded_run s fired_at oc session_id detail =
     \<lparr>sn_schedule_id = sd_id s, sn_fired_at = fired_at, sn_outcome = oc, sn_session_id = session_id, sn_detail = detail\<rparr>"

definition settle_scheduled ::
  "zone \<Rightarrow> 'c cron_lib \<Rightarrow> schedule \<Rightarrow> int \<Rightarrow> run_outcome \<Rightarrow> utext option \<Rightarrow> utext option \<Rightarrow> int \<Rightarrow> ticker \<Rightarrow>
   ticker option" where
  "settle_scheduled z cl s fired_at oc session_id detail now t =
     map_option (\<lambda>(_, db). t\<lparr>tk_db := db, tk_recorded := tk_recorded t @ [recorded_run s fired_at oc session_id detail]\<rparr>)
       (finish_scheduled z cl s fired_at oc session_id detail now (tk_db t))"

definition release_claim :: "zone \<Rightarrow> utext \<Rightarrow> int \<Rightarrow> ticker \<Rightarrow> ticker" where
  "release_claim z i fired_at t = t\<lparr>tk_db := release_fire z i fired_at (tk_db t)\<rparr>"

text \<open>What \<open>fire_one\<close> does once the host has answered.\<close>

definition settle_fire :: "zone \<Rightarrow> 'c cron_lib \<Rightarrow> schedule \<Rightarrow> int \<Rightarrow> fire_outcome \<Rightarrow> ticker \<Rightarrow> ticker option" where
  "settle_fire z cl s now oc t =
     map_option (drop_mark (sd_id s))
       (case oc of
          Completed session_id \<Rightarrow> settle_scheduled z cl s (sd_next_fire_at s) RunOk session_id None now t
        | FireFailed session_id detail \<Rightarrow>
            settle_scheduled z cl s (sd_next_fire_at s) RunFailed session_id (Some detail) now t
        | NotNow \<Rightarrow> Some (release_claim z (sd_id s) (sd_next_fire_at s) t))"

definition fire_one ::
  "zone \<Rightarrow> 'c cron_lib \<Rightarrow> (schedule \<Rightarrow> schedule_target \<Rightarrow> fire_outcome) \<Rightarrow> int \<Rightarrow> schedule \<Rightarrow> ticker \<Rightarrow> ticker option" where
  "fire_one z cl firer now s t =
     (case claim_fire z (sd_id s) (sd_next_fire_at s) t of
        (False, t') \<Rightarrow> Some t'
      | (True, t') \<Rightarrow> settle_fire z cl s now (firer s (sd_target s)) t')"

definition tick ::
  "zone \<Rightarrow> 'c cron_lib \<Rightarrow> (schedule \<Rightarrow> schedule_target \<Rightarrow> fire_outcome) \<Rightarrow> int \<Rightarrow> ticker \<Rightarrow> ticker option" where
  "tick z cl firer now t = fold_opt (fire_one z cl firer now) (select_due z cl now t) t"

section \<open>A manual run\<close>

definition settle_manual :: "zone \<Rightarrow> schedule \<Rightarrow> int \<Rightarrow> fire_outcome \<Rightarrow> ticker \<Rightarrow> (run_now_error + schedule_run) \<times> ticker" where
  "settle_manual z s now oc t =
     (let finish = \<lambda>out session_id detail.
            (Inr (recorded_run s now out session_id detail),
             drop_mark (sd_id s)
               (t\<lparr>tk_db := finish_manual z (sd_id s) now out session_id detail (tk_db t),
                  tk_recorded := tk_recorded t @ [recorded_run s now out session_id detail]\<rparr>))
      in case oc of
           Completed session_id \<Rightarrow> finish RunOk session_id None
         | FireFailed session_id detail \<Rightarrow> finish RunFailed session_id (Some detail)
         | NotNow \<Rightarrow> (Inl RunNotNow, drop_mark (sd_id s) (release_claim z (sd_id s) now t)))"

definition run_now ::
  "zone \<Rightarrow> 'c cron_lib \<Rightarrow> (schedule \<Rightarrow> schedule_target \<Rightarrow> fire_outcome) \<Rightarrow> utext \<Rightarrow> int \<Rightarrow> ticker \<Rightarrow>
   (run_now_error + schedule_run) \<times> ticker" where
  "run_now z cl firer i now t =
     (case get_schedule z cl i (tk_db t) of
        None \<Rightarrow> (Inl RunNotFound, t)
      | Some s \<Rightarrow>
          (case claim_fire z (sd_id s) now t of
             (False, t') \<Rightarrow> (Inl RunBusy, t')
           | (True, t') \<Rightarrow> settle_manual z s now (firer s (sd_target s)) t'))"

section \<open>Interleavings\<close>

text \<open>
  A fire the host is working on: its schedule, its instant, and for a scheduled one the instant of
  its tick.  \<open>tr_fires\<close> lists the fires that were started and not declined, \<open>tr_ids\<close> the ids that
  were ever given out; no code reads them.
\<close>

record ongoing =
  og_schedule :: schedule
  og_fired_at :: int
  og_tick :: "int option"

record ticker_run =
  tr_ticker :: ticker
  tr_plan :: "(schedule \<times> int) list"
  tr_ongoing :: "ongoing list"
  tr_fires :: "(utext \<times> int) list"
  tr_ids :: "utext set"

definition ongoing_key :: "ongoing \<Rightarrow> utext \<times> int" where
  "ongoing_key g = (sd_id (og_schedule g), og_fired_at g)"

definition on_db :: "schedule_db \<Rightarrow> ticker_run \<Rightarrow> ticker_run" where
  "on_db db x = x\<lparr>tr_ticker := (tr_ticker x)\<lparr>tk_db := db\<rparr>\<rparr>"

definition start_fire :: "ongoing \<Rightarrow> ticker \<Rightarrow> ticker_run \<Rightarrow> ticker_run" where
  "start_fire g t x = x\<lparr>tr_ticker := t, tr_ongoing := g # tr_ongoing x, tr_fires := ongoing_key g # tr_fires x\<rparr>"

definition end_fire :: "ongoing \<Rightarrow> fire_outcome \<Rightarrow> ticker \<Rightarrow> ticker_run \<Rightarrow> ticker_run" where
  "end_fire g oc t x =
     x\<lparr>tr_ticker := t, tr_ongoing := remove1 g (tr_ongoing x),
       tr_fires := (if oc = NotNow then removeAll (ongoing_key g) (tr_fires x) else tr_fires x)\<rparr>"

text \<open>
  A tick may start while another runs.  A restart loses what is in memory and recovers the claims
  it finds, then disables the heartbeats of sessions that are gone.
\<close>

inductive ticker_step :: "zone \<Rightarrow> 'c cron_lib \<Rightarrow> ticker_run \<Rightarrow> ticker_run \<Rightarrow> bool" for z cl where
  select: "ticker_step z cl x (x\<lparr>tr_plan := tr_plan x @ map (\<lambda>s. (s, now)) (select_due z cl now (tr_ticker x))\<rparr>)"
| claim: "\<lbrakk>(s, now) \<in> set (tr_plan x); claim_fire z (sd_id s) (sd_next_fire_at s) (tr_ticker x) = (True, t)\<rbrakk> \<Longrightarrow>
    ticker_step z cl x
      (start_fire \<lparr>og_schedule = s, og_fired_at = sd_next_fire_at s, og_tick = Some now\<rparr> t
        (x\<lparr>tr_plan := remove1 (s, now) (tr_plan x)\<rparr>))"
| skip: "\<lbrakk>(s, now) \<in> set (tr_plan x); claim_fire z (sd_id s) (sd_next_fire_at s) (tr_ticker x) = (False, t)\<rbrakk> \<Longrightarrow>
    ticker_step z cl x (x\<lparr>tr_ticker := t, tr_plan := remove1 (s, now) (tr_plan x)\<rparr>)"
| settle: "\<lbrakk>g \<in> set (tr_ongoing x); og_tick g = Some now;
     settle_fire z cl (og_schedule g) now oc (tr_ticker x) = Some t\<rbrakk> \<Longrightarrow>
    ticker_step z cl x (end_fire g oc t x)"
| manual: "\<lbrakk>get_schedule z cl i (tk_db (tr_ticker x)) = Some s; claim_fire z (sd_id s) now (tr_ticker x) = (True, t)\<rbrakk> \<Longrightarrow>
    ticker_step z cl x (start_fire \<lparr>og_schedule = s, og_fired_at = now, og_tick = None\<rparr> t x)"
| settle_manually: "\<lbrakk>g \<in> set (tr_ongoing x); og_tick g = None;
     settle_manual z (og_schedule g) (og_fired_at g) oc (tr_ticker x) = (res, t)\<rbrakk> \<Longrightarrow>
    ticker_step z cl x (end_fire g oc t x)"
| create: "\<lbrakk>create_schedule z cl rid new now (tk_db (tr_ticker x)) = Some (Inr s, db); sd_id s \<notin> tr_ids x\<rbrakk> \<Longrightarrow>
    ticker_step z cl x (on_db db x\<lparr>tr_ids := insert (sd_id s) (tr_ids x)\<rparr>)"
| heartbeat: "\<lbrakk>create_heartbeat z cl rid new session_id now (tk_db (tr_ticker x)) = Some (Inr s, db);
     sd_id s \<notin> tr_ids x\<rbrakk> \<Longrightarrow>
    ticker_step z cl x (on_db db x\<lparr>tr_ids := insert (sd_id s) (tr_ids x)\<rparr>)"
| enable: "set_schedule_enabled z cl i on now (tk_db (tr_ticker x)) = Some db \<Longrightarrow> ticker_step z cl x (on_db db x)"
| delete: "ticker_step z cl x (on_db (delete_schedule i (tk_db (tr_ticker x))) x)"
| restart: "\<lbrakk>recover_interrupted z cl now (tk_db (tr_ticker x)) = Some (n, db);
     sweep_orphaned_targets z cl now session_exists db = (orphaned, db')\<rbrakk> \<Longrightarrow>
    ticker_step z cl x
      (on_db db' x\<lparr>tr_ticker := \<lparr>tk_db = db', tk_in_flight = {}, tk_recorded = tk_recorded (tr_ticker x)\<rparr>,
                   tr_plan := [], tr_ongoing := []\<rparr>)"

definition ticker_start :: ticker_run where
  "ticker_start = \<lparr>tr_ticker = \<lparr>tk_db = \<lparr>db_schedules = [], db_runs = []\<rparr>, tk_in_flight = {}, tk_recorded = []\<rparr>,
     tr_plan = [], tr_ongoing = [], tr_fires = [], tr_ids = {}\<rparr>"

inductive ticker_reachable :: "zone \<Rightarrow> 'c cron_lib \<Rightarrow> ticker_run \<Rightarrow> bool" for z cl where
  start: "ticker_reachable z cl ticker_start"
| step: "\<lbrakk>ticker_reachable z cl x; ticker_step z cl x y\<rbrakk> \<Longrightarrow> ticker_reachable z cl y"

end
