(* ===== verification/Ticker_Fires.thy ===== *)
theory Ticker_Fires
  imports Schedule_Rows Schedule_Ticker
begin

text \<open>
  An occurrence of a schedule is fired once, whatever ticks, manual runs, changes and restarts come
  in between: its claim is a row of the history that only a declined fire gives back.
\<close>

section \<open>What an operation does to the history\<close>

definition key_of :: "run_row \<Rightarrow> utext \<times> utext" where
  "key_of r = (rr_schedule_id r, rr_fired_at r)"

primrec open_runs :: "run_row list \<Rightarrow> (utext \<times> utext) set" where
  "open_runs [] = {}"
| "open_runs (r # rs) = (if rr_outcome r = StoredRunning then insert (key_of r) (open_runs rs) else open_runs rs)"

lemma in_open_runs: "k \<in> open_runs rs \<longleftrightarrow> (\<exists>r \<in> set rs. rr_outcome r = StoredRunning \<and> key_of r = k)"
  by (induction rs) auto

lemma open_runs_append [simp]: "open_runs (rs @ rs') = open_runs rs \<union> open_runs rs'"
  by (induction rs) auto

definition run_keys :: "schedule_db \<Rightarrow> (utext \<times> utext) set" where
  "run_keys db = key_of ` set (db_runs db)"

definition open_keys :: "schedule_db \<Rightarrow> (utext \<times> utext) set" where
  "open_keys db = open_runs (db_runs db)"

definition row_ids :: "schedule_db \<Rightarrow> utext set" where
  "row_ids db = sr_id ` set (db_schedules db)"

lemmas db_sets = run_keys_def open_keys_def row_ids_def

named_theorems table_effects

lemma has_key: "list_ex (is_run i k) (db_runs db) \<longleftrightarrow> (i, k) \<in> run_keys db"
  by (auto simp: list_ex_iff is_run_def run_keys_def key_of_def)

lemma begin_fire_effect [table_effects]:
  assumes "begin_fire z i t db = (True, db')"
  shows "(i, zn_stamp z t) \<notin> run_keys db" "run_keys db' = insert (i, zn_stamp z t) (run_keys db)"
    "open_keys db' = insert (i, zn_stamp z t) (open_keys db)" "row_ids db' = row_ids db"
  using assms by (auto simp: begin_fire_def has_key db_sets key_of_def split: if_splits)

lemma settle_run_keys [simp]: "key_of ` set (settle_run z i t oc sid d runs) = key_of ` set runs"
proof -
  have "map key_of (settle_run z i t oc sid d runs) = map key_of runs"
    unfolding settle_run_def by (rule map_sql_update) (simp add: key_of_def)
  then show ?thesis by (metis set_map)
qed

lemma settle_run_open [simp]:
  "open_runs (settle_run z i t oc sid d runs) = open_runs runs - {(i, zn_stamp z t)}"
  by (induction runs)
    (auto simp: settle_run_def is_claim_def is_run_def key_of_def outcome_text_def split: run_outcome.splits)

lemma row_ids_update:
  assumes "\<And>r. sr_id (f r) = sr_id r"
  shows "sr_id ` set (sql_update hit f rows) = sr_id ` set rows"
  using map_sql_update [of hit sr_id f rows] assms by (metis set_map)

lemma finish_scheduled_effect [table_effects]:
  assumes "finish_scheduled z cl s t oc sid d now db = Some (n, db')"
  shows "run_keys db' = run_keys db" "open_keys db' = open_keys db - {(sd_id s, zn_stamp z t)}" "row_ids db' = row_ids db"
proof -
  obtain k where "db' = db\<lparr>db_runs := settle_run z (sd_id s) t oc sid d (db_runs db),
      db_schedules := arm (sd_id s) k (db_schedules db)\<rparr>"
    using assms by (auto simp: finish_scheduled_def split: option.splits)
  then show "run_keys db' = run_keys db" "open_keys db' = open_keys db - {(sd_id s, zn_stamp z t)}" "row_ids db' = row_ids db"
    by (simp_all add: db_sets arm_def row_ids_update)
qed

lemma finish_manual_effect [table_effects]:
  "run_keys (finish_manual z i t oc sid d db) = run_keys db"
  "open_keys (finish_manual z i t oc sid d db) = open_keys db - {(i, zn_stamp z t)}"
  "row_ids (finish_manual z i t oc sid d db) = row_ids db"
  by (simp_all add: finish_manual_def db_sets)

lemma release_effect [table_effects]:
  "run_keys db - {(i, zn_stamp z t)} \<subseteq> run_keys (release_fire z i t db)"
  "open_keys (release_fire z i t db) = open_keys db - {(i, zn_stamp z t)}"
  "row_ids (release_fire z i t db) = row_ids db"
proof -
  show "run_keys db - {(i, zn_stamp z t)} \<subseteq> run_keys (release_fire z i t db)"
    by (auto simp: release_fire_def db_sets is_claim_def is_run_def key_of_def)
  have "open_runs (sql_delete (is_claim i k) rs) = open_runs rs - {(i, k)}" for k rs
    by (induction rs) (auto simp: sql_delete_def is_claim_def is_run_def key_of_def)
  then show "open_keys (release_fire z i t db) = open_keys db - {(i, zn_stamp z t)}"
    by (simp add: release_fire_def db_sets)
qed (simp add: release_fire_def db_sets)

lemma create_effect [table_effects]:
  assumes "create_targeted z cl rid new tg now db = Some (Inr s, db')"
  shows "run_keys db' = run_keys db" "open_keys db' = open_keys db" "row_ids db' = insert (sd_id s) (row_ids db)"
  using assms
  by (auto simp: create_targeted_def Let_def db_sets schedule_row_of_def
      split: option.splits if_splits)

lemma enable_effect [table_effects]:
  assumes "set_schedule_enabled z cl i on now db = Some db'"
  shows "run_keys db' = run_keys db" "open_keys db' = open_keys db" "row_ids db' = row_ids db"
proof -
  obtain f where "db' = db\<lparr>db_schedules := sql_update (\<lambda>r. sr_id r = i) f (db_schedules db)\<rparr>" "\<And>r. sr_id (f r) = sr_id r"
    using assms by (auto simp: set_schedule_enabled_def Let_def split: option.splits)
  then show "run_keys db' = run_keys db" "open_keys db' = open_keys db" "row_ids db' = row_ids db"
    by (simp_all add: db_sets row_ids_update)
qed

lemma delete_effect [table_effects]:
  "run_keys (delete_schedule i db) = {k \<in> run_keys db. fst k \<noteq> i}"
  "open_keys (delete_schedule i db) = {k \<in> open_keys db. fst k \<noteq> i}"
  "row_ids (delete_schedule i db) = row_ids db - {i}"
proof -
  have "k \<in> open_runs (sql_delete (\<lambda>r. rr_schedule_id r = i) rs) \<longleftrightarrow> k \<in> open_runs rs \<and> fst k \<noteq> i" for k rs
  proof (induction rs)
    case (Cons r rs)
    show ?case
    proof (cases "rr_schedule_id r = i")
      case True
      then show ?thesis using Cons.IH by (auto simp: sql_delete_def key_of_def)
    next
      case False
      then show ?thesis using Cons.IH by (cases k) (simp add: sql_delete_def key_of_def, blast)
    qed
  qed (simp add: sql_delete_def)
  then have "open_runs (sql_delete (\<lambda>r. rr_schedule_id r = i) rs) = {k \<in> open_runs rs. fst k \<noteq> i}" for rs
    by blast
  then show "open_keys (delete_schedule i db) = {k \<in> open_keys db. fst k \<noteq> i}"
    by (simp add: delete_schedule_def db_sets)
qed (auto simp: delete_schedule_def db_sets key_of_def)

lemma fail_run_effect [simp]:
  "key_of ` set (fail_run i k runs) = key_of ` set runs"
  "open_runs (fail_run i k runs) = open_runs runs - {(i, k)}"
proof -
  have "map key_of (fail_run i k runs) = map key_of runs"
    unfolding fail_run_def by (rule map_sql_update) (simp add: key_of_def)
  then show "key_of ` set (fail_run i k runs) = key_of ` set runs" by (metis set_map)
  show "open_runs (fail_run i k runs) = open_runs runs - {(i, k)}"
    by (induction runs) (auto simp: fail_run_def is_run_def key_of_def)
qed

lemma recover_one_effect:
  assumes "recover_one z cl now schedules k db = Some db'"
  shows "run_keys db' = run_keys db" "open_keys db' = open_keys db - {k}" "row_ids db' = row_ids db"
proof -
  obtain i t where k: "k = (i, t)" by force
  consider "db' = db\<lparr>db_runs := fail_run i t (db_runs db)\<rparr>"
    | u where "db' = db\<lparr>db_runs := fail_run i t (db_runs db), db_schedules := arm i u (db_schedules db)\<rparr>"
    using assms by (auto simp: k recover_one_def Let_def split: option.splits if_splits)
  then show "run_keys db' = run_keys db" "open_keys db' = open_keys db - {k}" "row_ids db' = row_ids db"
    by (cases, simp_all add: k db_sets arm_def row_ids_update)+
qed

lemma recover_fold_effect:
  "fold_opt (recover_one z cl now schedules) ks db = Some db' \<Longrightarrow>
     run_keys db' = run_keys db \<and> open_keys db' = open_keys db - set ks \<and> row_ids db' = row_ids db"
proof (induction ks arbitrary: db)
  case (Cons k ks)
  show ?case
  proof (cases "recover_one z cl now schedules k db")
    case (Some db1)
    note one = recover_one_effect [OF Some]
    have "run_keys db' = run_keys db1 \<and> open_keys db' = open_keys db1 - set ks \<and> row_ids db' = row_ids db1"
      using Cons by (simp add: Some)
    then show ?thesis by (simp add: one set_diff_eq)
  qed (use Cons.prems in simp)
qed simp

lemma recover_effect [table_effects]:
  assumes "recover_interrupted z cl now db = Some (n, db')"
  shows "run_keys db' = run_keys db" "open_keys db' = {}" "row_ids db' = row_ids db"
proof -
  have "fold_opt (recover_one z cl now (schedule_list z cl db)) (interrupted_runs db) db = Some db'"
    using assms by (auto simp: recover_interrupted_def Let_def)
  moreover have "set (interrupted_runs db) = open_keys db"
    by (auto simp: interrupted_runs_def open_keys_def in_open_runs key_of_def)
  ultimately show "run_keys db' = run_keys db" "open_keys db' = {}" "row_ids db' = row_ids db"
    using recover_fold_effect by fastforce+
qed

lemma disable_orphan_effect:
  "run_keys db \<subseteq> run_keys (disable_orphan z now i db)" "open_keys (disable_orphan z now i db) = open_keys db"
  "row_ids (disable_orphan z now i db) = row_ids db"
  by (auto simp: disable_orphan_def db_sets row_ids_update)

lemma sweep_effect [table_effects]:
  assumes "sweep_orphaned_targets z cl now ex db = (orphaned, db')"
  shows "run_keys db \<subseteq> run_keys db'" "open_keys db' = open_keys db" "row_ids db' = row_ids db"
proof -
  have "run_keys db \<subseteq> run_keys (fold (disable_orphan z now) is db) \<and>
      open_keys (fold (disable_orphan z now) is db) = open_keys db \<and>
      row_ids (fold (disable_orphan z now) is db) = row_ids db" for "is"
  proof (induction "is" arbitrary: db)
    case (Cons i "is")
    show ?case using Cons.IH [of "disable_orphan z now i db"] disable_orphan_effect [where db = db and z = z and now = now and i = i] by auto
  qed simp
  then show "run_keys db \<subseteq> run_keys db'" "open_keys db' = open_keys db" "row_ids db' = row_ids db"
    using assms by (auto simp: sweep_orphaned_targets_def Let_def)
qed

section \<open>Claims and settlements\<close>

lemma claim_fire_effect:
  assumes "claim_fire z i k t = (True, t')"
  shows "i \<notin> tk_in_flight t" "tk_in_flight t' = insert i (tk_in_flight t)"
    "(i, zn_stamp z k) \<notin> run_keys (tk_db t)" "run_keys (tk_db t') = insert (i, zn_stamp z k) (run_keys (tk_db t))"
    "open_keys (tk_db t') = insert (i, zn_stamp z k) (open_keys (tk_db t))" "row_ids (tk_db t') = row_ids (tk_db t)"
proof -
  obtain db where db: "i \<notin> tk_in_flight t" "begin_fire z i k (tk_db t) = (True, db)"
      "t' = t\<lparr>tk_db := db, tk_in_flight := insert i (tk_in_flight t)\<rparr>"
    using assms by (auto simp: claim_fire_def split: if_splits prod.splits bool.splits)
  then show "i \<notin> tk_in_flight t" "tk_in_flight t' = insert i (tk_in_flight t)"
    "(i, zn_stamp z k) \<notin> run_keys (tk_db t)" "run_keys (tk_db t') = insert (i, zn_stamp z k) (run_keys (tk_db t))"
    "open_keys (tk_db t') = insert (i, zn_stamp z k) (open_keys (tk_db t))" "row_ids (tk_db t') = row_ids (tk_db t)"
    using begin_fire_effect [OF db(2)] by simp_all
qed

lemma claim_fire_refused: "claim_fire z i k t = (False, t') \<Longrightarrow> t' = t"
  by (auto simp: claim_fire_def split: if_splits prod.splits bool.splits)

text \<open>What both ends of a fire leave: the claim is settled, or given back when the host declined.\<close>

definition settled :: "zone \<Rightarrow> schedule \<Rightarrow> int \<Rightarrow> fire_outcome \<Rightarrow> ticker \<Rightarrow> ticker \<Rightarrow> bool" where
  "settled z s k oc t t' \<longleftrightarrow>
     tk_in_flight t' = tk_in_flight t - {sd_id s} \<and> row_ids (tk_db t') = row_ids (tk_db t) \<and>
     open_keys (tk_db t') = open_keys (tk_db t) - {(sd_id s, zn_stamp z k)} \<and>
     run_keys (tk_db t) - (if oc = NotNow then {(sd_id s, zn_stamp z k)} else {}) \<subseteq> run_keys (tk_db t')"

lemma settle_scheduled_settled:
  "settle_scheduled z cl s k out sid d now t = Some t' \<Longrightarrow> oc \<noteq> NotNow \<Longrightarrow>
     settled z s k oc t (drop_mark (sd_id s) t')"
  by (auto simp: settle_scheduled_def settled_def drop_mark_def table_effects)

lemma release_settled: "settled z s k NotNow t (drop_mark (sd_id s) (release_claim z (sd_id s) k t))"
  using release_effect(1) [of "tk_db t" "sd_id s" z k]
  by (simp add: settled_def drop_mark_def release_claim_def table_effects)

lemma settle_fire_settled:
  assumes "settle_fire z cl s now oc t = Some t'"
  shows "settled z s (sd_next_fire_at s) oc t t'"
  using assms by (auto simp: settle_fire_def release_settled intro: settle_scheduled_settled split: fire_outcome.splits)

lemma settle_manual_settled:
  assumes "settle_manual z s now oc t = (res, t')"
  shows "settled z s now oc t t'"
proof (cases oc)
  case NotNow
  then show ?thesis using assms by (auto simp: settle_manual_def release_settled)
qed (use assms in \<open>auto simp: settle_manual_def settled_def drop_mark_def table_effects\<close>)

section \<open>The invariant\<close>

definition ticker_ok :: "zone \<Rightarrow> ticker_run \<Rightarrow> bool" where
  "ticker_ok z x \<longleftrightarrow>
     (let db = tk_db (tr_ticker x); id_of = \<lambda>g. sd_id (og_schedule g) in
      tk_in_flight (tr_ticker x) = id_of ` set (tr_ongoing x) \<and> distinct (map id_of (tr_ongoing x)) \<and>
      open_keys db \<subseteq> (\<lambda>g. (id_of g, zn_stamp z (og_fired_at g))) ` set (tr_ongoing x) \<and>
      row_ids db \<union> (\<lambda>p. sd_id (fst p)) ` set (tr_plan x) \<union> fst ` set (tr_fires x) \<subseteq> tr_ids x \<and>
      (\<forall>i k. (i, k) \<in> set (tr_fires x) \<longrightarrow> i \<in> row_ids db \<longrightarrow> (i, zn_stamp z k) \<in> run_keys db) \<and>
      (\<forall>i k. i \<in> row_ids db \<longrightarrow> count_list (tr_fires x) (i, k) \<le> 1))"

lemma ticker_ok_start: "ticker_ok z ticker_start"
  by (simp add: ticker_ok_def ticker_start_def db_sets)

lemma count_removeAll: "count_list (removeAll y xs) x \<le> count_list xs x"
  by (induction xs) auto

lemma ticker_ok_claim:
  assumes "ticker_ok z x" "claim_fire z (sd_id (og_schedule g)) (og_fired_at g) (tr_ticker x) = (True, t)"
    "sd_id (og_schedule g) \<in> tr_ids x"
  shows "ticker_ok z (start_fire g t x)"
proof -
  note effect = claim_fire_effect [OF assms(2)]
  have "count_list (tr_fires x) (sd_id (og_schedule g), og_fired_at g) = 0" if "sd_id (og_schedule g) \<in> row_ids (tk_db (tr_ticker x))"
    using assms(1) that effect(3) by (auto simp: ticker_ok_def Let_def count_list_0_iff)
  then show ?thesis
    using assms(1,3) effect by (auto simp: ticker_ok_def Let_def start_fire_def ongoing_key_def)
qed

lemma ticker_ok_settle:
  assumes "zone_ok z" "ticker_ok z x" "g \<in> set (tr_ongoing x)"
    "settled z (og_schedule g) (og_fired_at g) oc (tr_ticker x) t"
  shows "ticker_ok z (end_fire g oc t x)"
proof -
  let ?id = "\<lambda>g. sd_id (og_schedule g)"
  have dist: "distinct (map ?id (tr_ongoing x))" using assms(2) by (simp add: ticker_ok_def Let_def)
  then have rest: "set (remove1 g (tr_ongoing x)) = set (tr_ongoing x) - {g}"
    by (simp add: distinct_map)
  have ids: "?id ` (set (tr_ongoing x) - {g}) = ?id ` set (tr_ongoing x) - {?id g}"
    using dist assms(3) by (auto simp: distinct_map inj_on_def)
  have dist': "distinct (map ?id (remove1 g (tr_ongoing x)))"
    using dist rest by (auto simp: distinct_map inj_on_def)
  have opens: "(\<lambda>g. (?id g, zn_stamp z (og_fired_at g))) ` set (tr_ongoing x) - {(?id g, zn_stamp z (og_fired_at g))}
      \<subseteq> (\<lambda>g. (?id g, zn_stamp z (og_fired_at g))) ` (set (tr_ongoing x) - {g})" by auto
  have keys: "(i, zn_stamp z k) \<in> run_keys (tk_db t)"
    if "(i, k) \<in> set (tr_fires (end_fire g oc t x))" "i \<in> row_ids (tk_db t)" for i k
    using that assms(2,4) stamp_inject [OF assms(1)]
    by (fastforce simp: ticker_ok_def Let_def settled_def end_fire_def ongoing_key_def split: if_splits)
  have once: "count_list (tr_fires (end_fire g oc t x)) (i, k) \<le> 1" if "i \<in> row_ids (tk_db t)" for i k
  proof -
    have "count_list (tr_fires x) (i, k) \<le> 1" using that assms(2,4) by (auto simp: ticker_ok_def Let_def settled_def)
    then show ?thesis using count_removeAll [of "ongoing_key g" "tr_fires x" "(i, k)"] by (auto simp: end_fire_def)
  qed
  have "fst ` set (tr_fires (end_fire g oc t x)) \<subseteq> fst ` set (tr_fires x)" by (auto simp: end_fire_def)
  then show ?thesis
    using assms(2,4) rest ids dist' opens keys once
    by (auto simp: ticker_ok_def Let_def settled_def end_fire_def)
qed

lemma ticker_ok_db:
  assumes "ticker_ok z x" "open_keys db \<subseteq> open_keys (tk_db (tr_ticker x))" "row_ids db \<subseteq> row_ids (tk_db (tr_ticker x))"
    "\<forall>k \<in> run_keys (tk_db (tr_ticker x)). fst k \<in> row_ids db \<longrightarrow> k \<in> run_keys db"
  shows "ticker_ok z (on_db db x)"
  using assms by (fastforce simp: ticker_ok_def Let_def on_db_def)

lemma ticker_ok_new:
  assumes "ticker_ok z x" "create_targeted z cl rid new tg now (tk_db (tr_ticker x)) = Some (Inr s, db)" "sd_id s \<notin> tr_ids x"
  shows "ticker_ok z (on_db db x\<lparr>tr_ids := insert (sd_id s) (tr_ids x)\<rparr>)"
proof -
  note effect = create_effect [OF assms(2)]
  have "(sd_id s, k) \<notin> set (tr_fires x)" for k
    using assms(1,3) by (force simp: ticker_ok_def Let_def)
  then have "count_list (tr_fires x) (sd_id s, k) = 0" for k by (simp add: count_list_0_iff)
  then show ?thesis
    using assms(1) effect \<open>\<And>k. (sd_id s, k) \<notin> set (tr_fires x)\<close>
    by (auto simp: ticker_ok_def Let_def on_db_def)
qed

lemma ticker_ok_restart:
  assumes "ticker_ok z x" "recover_interrupted z cl now (tk_db (tr_ticker x)) = Some (n, db)"
    "sweep_orphaned_targets z cl now session_exists db = (orphaned, db')"
  shows "ticker_ok z (on_db db' x\<lparr>tr_ticker := \<lparr>tk_db = db', tk_in_flight = {}, tk_recorded = recorded\<rparr>,
    tr_plan := [], tr_ongoing := []\<rparr>)"
  using assms(1) recover_effect [OF assms(2)] sweep_effect [OF assms(3)]
  by (auto simp: ticker_ok_def Let_def on_db_def)

lemma listed_in_row_ids: "s \<in> set (schedule_list z cl db) \<Longrightarrow> sd_id s \<in> row_ids db"
  by (auto simp: in_schedule_list row_ids_def row_to_schedule_fields(1))

lemma get_in_row_ids: "get_schedule z cl i db = Some s \<Longrightarrow> sd_id s \<in> row_ids db"
  unfolding get_schedule_def by (metis find_Some_iff listed_in_row_ids nth_mem)

lemma select_in_row_ids: "s \<in> set (select_due z cl now t) \<Longrightarrow> sd_id s \<in> row_ids (tk_db t)"
  by (auto simp: select_due_def plan_fire_def due_def intro: listed_in_row_ids)

lemma ticker_ok_ids:
  assumes "ticker_ok z x"
  shows "i \<in> row_ids (tk_db (tr_ticker x)) \<Longrightarrow> i \<in> tr_ids x" "p \<in> set (tr_plan x) \<Longrightarrow> sd_id (fst p) \<in> tr_ids x"
  using assms unfolding ticker_ok_def Let_def by blast+

lemma ticker_ok_plan:
  "ticker_ok z x \<Longrightarrow> \<forall>p \<in> set plan. sd_id (fst p) \<in> tr_ids x \<Longrightarrow> ticker_ok z (x\<lparr>tr_plan := plan\<rparr>)"
  by (auto simp: ticker_ok_def Let_def)

lemma ticker_ok_drop_plan: "ticker_ok z x \<Longrightarrow> ticker_ok z (x\<lparr>tr_plan := remove1 p (tr_plan x)\<rparr>)"
  using set_remove1_subset [of p "tr_plan x"] by (intro ticker_ok_plan) (auto dest: ticker_ok_ids(2))

lemma ticker_ok_select:
  assumes "ticker_ok z x"
  shows "ticker_ok z (x\<lparr>tr_plan := tr_plan x @ map (\<lambda>s. (s, now)) (select_due z cl now (tr_ticker x))\<rparr>)"
proof (rule ticker_ok_plan [OF assms], rule ballI)
  fix p
  assume "p \<in> set (tr_plan x @ map (\<lambda>s. (s, now)) (select_due z cl now (tr_ticker x)))"
  then consider "p \<in> set (tr_plan x)" | "fst p \<in> set (select_due z cl now (tr_ticker x))" by auto
  then show "sd_id (fst p) \<in> tr_ids x"
    using ticker_ok_ids [OF assms] select_in_row_ids by cases blast+
qed

lemma ticker_ok_step:
  assumes "zone_ok z"
  shows "ticker_step z cl x y \<Longrightarrow> ticker_ok z x \<Longrightarrow>
    (\<forall>g \<in> set (tr_ongoing x). og_tick g \<noteq> None \<longrightarrow> og_fired_at g = sd_next_fire_at (og_schedule g)) \<Longrightarrow>
    ticker_ok z y"
proof (induction rule: ticker_step.induct)
  case (select x now)
  then show ?case by (intro ticker_ok_select)
next
  case (claim s now x t)
  then have "sd_id s \<in> tr_ids x" using ticker_ok_ids(2) [OF claim.prems(1), of "(s, now)"] by simp
  then show ?case using claim by (intro ticker_ok_claim ticker_ok_drop_plan) simp_all
next
  case (skip s now x t)
  then have "t = tr_ticker x" by (simp add: claim_fire_refused)
  then show ?case using ticker_ok_drop_plan [OF skip.prems(1)] by simp
next
  case (settle g x now oc t)
  then show ?case using ticker_ok_settle [OF assms settle.prems(1)] settle_fire_settled by fastforce
next
  case (manual i x s now t)
  then show ?case by (intro ticker_ok_claim) (auto intro: ticker_ok_ids(1) get_in_row_ids)
next
  case (settle_manually g x oc res t)
  then show ?case using ticker_ok_settle [OF assms settle_manually.prems(1)] settle_manual_settled by blast
next
  case (create rid new now x s db)
  then show ?case by (auto simp: create_schedule_def intro: ticker_ok_new)
next
  case (heartbeat rid new session_id now x s db)
  then show ?case by (auto simp: create_heartbeat_def Let_def split: if_splits intro: ticker_ok_new)
next
  case (enable i on now x db)
  then show ?case by (intro ticker_ok_db) (auto simp: enable_effect)
next
  case (delete x i)
  then show ?case by (intro ticker_ok_db) (auto simp: delete_effect)
next
  case (restart now x n db session_exists orphaned db')
  then show ?case by (intro ticker_ok_restart)
qed

lemma scheduled_at_slot:
  assumes "ticker_step z cl x y"
    "\<forall>g \<in> set (tr_ongoing x). og_tick g \<noteq> None \<longrightarrow> og_fired_at g = sd_next_fire_at (og_schedule g)"
  shows "\<forall>g \<in> set (tr_ongoing y). og_tick g \<noteq> None \<longrightarrow> og_fired_at g = sd_next_fire_at (og_schedule g)"
proof -
  have "set (remove1 g (tr_ongoing x)) \<subseteq> set (tr_ongoing x)" for g by (rule set_remove1_subset)
  with assms show ?thesis
    by (induction rule: ticker_step.induct) (auto simp: start_fire_def end_fire_def on_db_def)
qed

lemma ticker_ok_reachable:
  assumes "zone_ok z" "ticker_reachable z cl x"
  shows "ticker_ok z x"
proof -
  from assms(2) have "ticker_ok z x \<and>
      (\<forall>g \<in> set (tr_ongoing x). og_tick g \<noteq> None \<longrightarrow> og_fired_at g = sd_next_fire_at (og_schedule g))"
  proof (induction rule: ticker_reachable.induct)
    case (step x y)
    then show ?case using ticker_ok_step [OF assms(1)] scheduled_at_slot by blast
  qed (simp add: ticker_ok_start, simp add: ticker_start_def)
  then show ?thesis ..
qed

section \<open>The promise\<close>

text \<open>
  C5: Whatever ticks, manual runs, changes, deletions and restarts come in between, an occurrence of
  a schedule that exists is started at most once without the host having declined it (also when the
  restart cut it off); no schedule has two fires going at a time; and a claim in the history that is
  still open belongs to a fire that is still going.
\<close>

theorem occurrence_fires_once:
  assumes "zone_ok z" "ticker_reachable z cl x"
  shows "(\<forall>i k. (\<exists>r \<in> set (db_schedules (tk_db (tr_ticker x))). sr_id r = i) \<longrightarrow> count_list (tr_fires x) (i, k) \<le> 1) \<and>
    distinct (map (\<lambda>g. sd_id (og_schedule g)) (tr_ongoing x)) \<and>
    (\<forall>r \<in> set (db_runs (tk_db (tr_ticker x))). rr_outcome r = StoredRunning \<longrightarrow>
       (\<exists>g \<in> set (tr_ongoing x). sd_id (og_schedule g) = rr_schedule_id r \<and> zn_stamp z (og_fired_at g) = rr_fired_at r))"
proof -
  note ok = ticker_ok_reachable [OF assms, unfolded ticker_ok_def Let_def]
  have "\<exists>g \<in> set (tr_ongoing x). sd_id (og_schedule g) = rr_schedule_id r \<and> zn_stamp z (og_fired_at g) = rr_fired_at r"
    if "r \<in> set (db_runs (tk_db (tr_ticker x)))" "rr_outcome r = StoredRunning" for r
  proof -
    have "key_of r \<in> open_keys (tk_db (tr_ticker x))" using that by (auto simp: open_keys_def in_open_runs)
    then have "key_of r \<in> (\<lambda>g. (sd_id (og_schedule g), zn_stamp z (og_fired_at g))) ` set (tr_ongoing x)"
      using ok by blast
    then show ?thesis by (auto simp: key_of_def)
  qed
  then show ?thesis using ok by (auto simp: row_ids_def)
qed

text \<open>A schedule of every five minutes, created at the epoch, started by a tick five minutes later.\<close>

definition sample_interval :: new_schedule where
  "sample_interval = \<lparr>ns_name = [1], ns_cwd = [], ns_prompt = [2], ns_agent_id = None, ns_recurrence = EveryMinutes 5\<rparr>"

definition sample_schedule :: schedule where
  "sample_schedule = \<lparr>sd_id = lit ''sch-'' @ [7], sd_name = [1], sd_cwd = [], sd_prompt = [2], sd_agent_id = None,
     sd_recurrence = EveryMinutes 5, sd_enabled = True, sd_next_fire_at = 300 * sec, sd_target = NewSession\<rparr>"

definition sample_db :: schedule_db where
  "sample_db = \<lparr>db_schedules = [schedule_row_of sample_zone 0 sample_schedule], db_runs = []\<rparr>"

lemma sample_create:
  "create_schedule sample_zone sample_cron [7] sample_interval 0 \<lparr>db_schedules = [], db_runs = []\<rparr> =
     Some (Inr sample_schedule, sample_db)"
  by (simp add: create_schedule_def create_targeted_def sample_interval_def sample_schedule_def sample_db_def
      next_after_def Let_def)

lemma sample_listed: "schedule_list sample_zone sample_cron sample_db = [sample_schedule]"
proof -
  have "row_to_schedule sample_zone sample_cron (schedule_row_of sample_zone 0 sample_schedule) = Some sample_schedule"
    using zone_okD(6) [OF sample_zone_ok]
    by (simp add: row_to_schedule_def schedule_row_of_def sample_schedule_def decompose_def recompose_def
        empty_columns_def built_def every_minutes_def MIN_INTERVAL_MINUTES_def)
  then show ?thesis by (simp add: schedule_list_def sample_db_def List.map_filter_simps)
qed

lemma sample_fired:
  obtains x t where "ticker_reachable sample_zone sample_cron x" "tr_fires x = [(sd_id sample_schedule, 300 * sec)]"
    "sr_id ` set (db_schedules (tk_db (tr_ticker x))) = {sd_id sample_schedule}"
proof -
  let ?z = sample_zone and ?cl = sample_cron and ?s = sample_schedule
  define x1 where "x1 = on_db sample_db ticker_start\<lparr>tr_ids := insert (sd_id ?s) (tr_ids ticker_start)\<rparr>"
  have "ticker_step ?z ?cl ticker_start x1"
    unfolding x1_def
    by (rule ticker_step.create [where rid = "[7]" and new = sample_interval and now = 0])
      (simp_all add: ticker_start_def sample_create)
  then have r1: "ticker_reachable ?z ?cl x1" by (blast intro: ticker_reachable.intros)
  have sel: "select_due ?z ?cl (300 * sec) (tr_ticker x1) = [?s]"
    by (simp add: x1_def on_db_def ticker_start_def select_due_def plan_fire_def due_def sample_listed already_ran_def)
      (simp add: sample_schedule_def sample_db_def)
  define x2 where "x2 = x1\<lparr>tr_plan := [(?s, 300 * sec)]\<rparr>"
  have "ticker_step ?z ?cl x1 x2"
  proof -
    have "tr_plan x1 = []" by (simp add: x1_def on_db_def ticker_start_def)
    then show ?thesis
      using ticker_step.select [of ?z ?cl x1 "300 * sec"] unfolding sel by (simp add: x2_def)
  qed
  then have r2: "ticker_reachable ?z ?cl x2" using r1 by (blast intro: ticker_reachable.intros)
  obtain t where t: "claim_fire ?z (sd_id ?s) (300 * sec) (tr_ticker x2) = (True, t)"
      "db_schedules (tk_db t) = db_schedules sample_db"
    by (simp add: claim_fire_def x2_def x1_def on_db_def ticker_start_def begin_fire_def)
      (simp add: sample_db_def)
  have slot: "sd_next_fire_at ?s = 300 * sec" by (simp add: sample_schedule_def)
  have "ticker_step ?z ?cl x2
      (start_fire \<lparr>og_schedule = ?s, og_fired_at = 300 * sec, og_tick = Some (300 * sec)\<rparr> t
        (x2\<lparr>tr_plan := remove1 (?s, 300 * sec) (tr_plan x2)\<rparr>))"
    using ticker_step.claim [of ?s "300 * sec" x2 ?z t ?cl] t(1) by (simp add: x2_def slot)
  then have "ticker_reachable ?z ?cl
      (start_fire \<lparr>og_schedule = ?s, og_fired_at = 300 * sec, og_tick = Some (300 * sec)\<rparr> t
        (x2\<lparr>tr_plan := remove1 (?s, 300 * sec) (tr_plan x2)\<rparr>))"
    using r2 by (blast intro: ticker_reachable.intros)
  then show ?thesis
    by (rule that) (simp_all add: start_fire_def ongoing_key_def x2_def x1_def on_db_def ticker_start_def t(2)
        sample_db_def schedule_row_of_def)
qed

theorem occurrence_fires_once_witness:
  "\<exists>x. ticker_reachable sample_zone sample_cron x \<and> tr_fires x = [(sd_id sample_schedule, 300 * sec)] \<and>
     count_list (tr_fires x) (sd_id sample_schedule, 300 * sec) \<le> 1"
proof -
  obtain x where x: "ticker_reachable sample_zone sample_cron x" "tr_fires x = [(sd_id sample_schedule, 300 * sec)]"
      "sr_id ` set (db_schedules (tk_db (tr_ticker x))) = {sd_id sample_schedule}"
    using sample_fired by blast
  then have "\<exists>r \<in> set (db_schedules (tk_db (tr_ticker x))). sr_id r = sd_id sample_schedule" by (metis imageE singletonI)
  then have "count_list (tr_fires x) (sd_id sample_schedule, 300 * sec) \<le> 1"
    using occurrence_fires_once [OF sample_zone_ok x(1)] by blast
  then show ?thesis using x by blast
qed

end
