(* ===== verification/Ticker_Progress.thy ===== *)
theory Ticker_Progress
  imports Ticker_Fires
begin

text \<open>
  A tick whose host answers leaves nothing due that it could still fire, and a restart settles what
  was going when the process ended.
\<close>

section \<open>One fire\<close>

definition run_of :: "schedule \<Rightarrow> fire_outcome \<Rightarrow> schedule_run" where
  "run_of s oc = (case oc of
      Completed sid \<Rightarrow> recorded_run s (sd_next_fire_at s) RunOk sid None
    | FireFailed sid d \<Rightarrow> recorded_run s (sd_next_fire_at s) RunFailed sid (Some d)
    | NotNow \<Rightarrow> recorded_run s (sd_next_fire_at s) RunFailed None None)"

definition row_of_run :: "zone \<Rightarrow> schedule_run \<Rightarrow> run_row" where
  "row_of_run z n = \<lparr>rr_schedule_id = sn_schedule_id n, rr_fired_at = zn_stamp z (sn_fired_at n),
     rr_outcome = outcome_text (sn_outcome n), rr_session_id = sn_session_id n, rr_detail = sn_detail n\<rparr>"

lemma next_after_ok:
  assumes "zone_ok z" "cron_ok cl" "recurrence_ok r"
  obtains t where "next_after z cl r after = Some t" "after < t"
proof (cases r)
  case (EveryMinutes m)
  then have "5 \<le> uint m" using assms(3) by (simp add: recurrence_ok_def MIN_INTERVAL_MINUTES_def word_le_def)
  then show ?thesis using that by (simp add: EveryMinutes next_after_def)
next
  case (DailyAt h m)
  then have "is_valid_time h m" using assms(3) by (simp add: recurrence_ok_def)
  then obtain d where "later_slot z after h m d = Some (next_wall_clock z after h m)"
    using next_wall_clock_first [OF assms(1)] by metis
  then show ?thesis using that later_slotD by (fastforce simp: DailyAt next_after_def)
next
  case (WeeklyAt w h m)
  then have "is_valid_time h m" "w \<le> 6" using assms(3) by (simp_all add: recurrence_ok_def)
  then obtain t d where "next_weekly z after w h m = Some t" "later_slot z after h m d = Some t"
    using next_weekly_first [OF assms(1)] by metis
  then show ?thesis using that later_slotD by (fastforce simp: WeeklyAt next_after_def)
next
  case (CronExpr e)
  have "\<exists>t. next_after z cl r after = Some t \<and> after < t"
    using assms(2) by (auto simp: CronExpr next_after_def cron_ok_def split: sum.splits option.splits)
  then show ?thesis using that by blast
qed

lemma settle_claim_row:
  assumes "(i, zn_stamp z k) \<notin> key_of ` set runs"
  shows "settle_run z i k oc sid d (runs @ [\<lparr>rr_schedule_id = i, rr_fired_at = zn_stamp z k,
      rr_outcome = StoredRunning, rr_session_id = None, rr_detail = None\<rparr>]) =
    runs @ [\<lparr>rr_schedule_id = i, rr_fired_at = zn_stamp z k, rr_outcome = outcome_text oc,
      rr_session_id = sid, rr_detail = d\<rparr>]"
proof -
  have "\<forall>r \<in> set runs. \<not> is_claim i (zn_stamp z k) r"
    using assms by (auto simp: is_claim_def is_run_def key_of_def)
  then have "sql_update (is_claim i (zn_stamp z k)) f runs = runs" for f
    by (simp add: sql_update_def map_idI)
  then show ?thesis by (simp add: settle_run_def is_claim_def is_run_def)
qed

lemma fire_one_settles:
  assumes "sd_id s \<notin> tk_in_flight t" "(sd_id s, zn_stamp z (sd_next_fire_at s)) \<notin> run_keys (tk_db t)"
    "next_after z cl (sd_recurrence s) now = Some n" "firer s (sd_target s) \<noteq> NotNow"
  shows "fire_one z cl firer now s t = Some (t\<lparr>
    tk_db := \<lparr>db_schedules = arm (sd_id s) (zn_stamp z n) (db_schedules (tk_db t)),
              db_runs = db_runs (tk_db t) @ [row_of_run z (run_of s (firer s (sd_target s)))]\<rparr>,
    tk_recorded := tk_recorded t @ [run_of s (firer s (sd_target s))]\<rparr>)"
proof -
  have new: "(sd_id s, zn_stamp z (sd_next_fire_at s)) \<notin> key_of ` set (db_runs (tk_db t))"
    using assms(2) by (simp add: run_keys_def)
  have free: "\<not> list_ex (is_run (sd_id s) (zn_stamp z (sd_next_fire_at s))) (db_runs (tk_db t))"
    using assms(2) by (simp add: has_key)
  show ?thesis
    using assms(1,3,4) free settle_claim_row [OF new]
    by (cases "firer s (sd_target s)")
      (simp_all add: fire_one_def claim_fire_def begin_fire_def settle_fire_def settle_scheduled_def
        finish_scheduled_def drop_mark_def row_of_run_def run_of_def recorded_run_def)
qed

section \<open>A tick\<close>

lemma fire_all:
  assumes "\<forall>s \<in> set xs. next_after z cl (sd_recurrence s) now = Some (nxt s) \<and> firer s (sd_target s) \<noteq> NotNow"
  shows "\<lbrakk>distinct (map sd_id xs); tk_in_flight t = {};
      \<forall>s \<in> set xs. (sd_id s, zn_stamp z (sd_next_fire_at s)) \<notin> run_keys (tk_db t)\<rbrakk> \<Longrightarrow>
    fold_opt (fire_one z cl firer now) xs t = Some (t\<lparr>
      tk_db := \<lparr>db_schedules = fold (\<lambda>s. arm (sd_id s) (zn_stamp z (nxt s))) xs (db_schedules (tk_db t)),
                db_runs = db_runs (tk_db t) @ map (\<lambda>s. row_of_run z (run_of s (firer s (sd_target s)))) xs\<rparr>,
      tk_recorded := tk_recorded t @ map (\<lambda>s. run_of s (firer s (sd_target s))) xs\<rparr>)"
  using assms
proof (induction xs arbitrary: t)
  case (Cons s xs)
  let ?oc = "firer s (sd_target s)"
  let ?t = "t\<lparr>tk_db := \<lparr>db_schedules = arm (sd_id s) (zn_stamp z (nxt s)) (db_schedules (tk_db t)),
              db_runs = db_runs (tk_db t) @ [row_of_run z (run_of s ?oc)]\<rparr>,
    tk_recorded := tk_recorded t @ [run_of s ?oc]\<rparr>"
  have one: "fire_one z cl firer now s t = Some ?t"
    using fire_one_settles [of s t z cl now "nxt s" firer] Cons.prems by simp
  have "key_of (row_of_run z (run_of s ?oc)) = (sd_id s, zn_stamp z (sd_next_fire_at s))"
    by (simp add: key_of_def row_of_run_def run_of_def recorded_run_def split: fire_outcome.split)
  then have "\<forall>s' \<in> set xs. (sd_id s', zn_stamp z (sd_next_fire_at s')) \<notin> run_keys (tk_db ?t)"
    using Cons.prems(1,3) by (simp add: run_keys_def) (metis image_eqI)
  then show ?case using Cons.IH [of ?t] Cons.prems by (simp add: one)
next
  case Nil
  show ?case by (cases t, cases "tk_db t") simp
qed

lemma in_arm:
  "r \<in> set (arm i k rows) \<Longrightarrow> r \<in> set rows \<and> sr_id r \<noteq> i \<or> sr_id r = i \<and> sr_next_fire_at r = k"
  by (induction rows) (auto simp: arm_def split: if_splits)

lemma armed_rows:
  "r \<in> set (fold (\<lambda>s. arm (sd_id s) (f s)) xs rows) \<Longrightarrow>
     r \<in> set rows \<and> sr_id r \<notin> sd_id ` set xs \<or> (\<exists>s \<in> set xs. sr_id r = sd_id s \<and> sr_next_fire_at r = f s)"
proof (induction xs arbitrary: rows)
  case (Cons s xs)
  then have "r \<in> set (arm (sd_id s) (f s) rows) \<and> sr_id r \<notin> sd_id ` set xs \<or>
      (\<exists>s \<in> set xs. sr_id r = sd_id s \<and> sr_next_fire_at r = f s)" by simp
  then show ?case by (auto dest: in_arm)
qed simp



section \<open>A restart\<close>

definition taken :: "zone \<Rightarrow> schedule list \<Rightarrow> (utext \<times> utext) set \<Rightarrow> schedule_row \<Rightarrow> schedule option" where
  "taken z schedules ks r =
     (case List.find (\<lambda>s. sd_id s = sr_id r) schedules of
        Some s \<Rightarrow> if (sr_id r, zn_stamp z (sd_next_fire_at s)) \<in> ks then Some s else None
      | None \<Rightarrow> None)"

definition rearmed :: "zone \<Rightarrow> (schedule \<Rightarrow> int) \<Rightarrow> schedule list \<Rightarrow> (utext \<times> utext) set \<Rightarrow> schedule_row \<Rightarrow> schedule_row" where
  "rearmed z nxt schedules ks r =
     (case taken z schedules ks r of Some s \<Rightarrow> r\<lparr>sr_next_fire_at := zn_stamp z (nxt s)\<rparr> | None \<Rightarrow> r)"

lemma recover_one_rows:
  assumes "\<forall>s \<in> set schedules. next_after z cl (sd_recurrence s) now = Some (nxt s)"
  shows "\<exists>db'. recover_one z cl now schedules (i, k) db = Some db' \<and> db_runs db' = fail_run i k (db_runs db) \<and>
    db_schedules db' = map (rearmed z nxt schedules {(i, k)}) (db_schedules db)"
proof (cases "List.find (\<lambda>s. sd_id s = i) schedules")
  case None
  have "rearmed z nxt schedules {(i, k)} r = r" for r
    using None by (auto simp: rearmed_def taken_def split: option.split)
  then show ?thesis using None by (simp add: recover_one_def map_idI)
next
  case (Some s)
  then have s: "s \<in> set schedules" "sd_id s = i" by (auto simp: find_Some_iff)
  have "rearmed z nxt schedules {(i, k)} r =
      (if sr_id r = i \<and> zn_stamp z (sd_next_fire_at s) = k then r\<lparr>sr_next_fire_at := zn_stamp z (nxt s)\<rparr> else r)" for r
    using Some by (auto simp: rearmed_def taken_def split: option.split)
  then have "rearmed z nxt schedules {(i, k)} =
      (\<lambda>r. if sr_id r = i \<and> zn_stamp z (sd_next_fire_at s) = k then r\<lparr>sr_next_fire_at := zn_stamp z (nxt s)\<rparr> else r)"
    by (rule ext)
  then show ?thesis using Some s assms
    by (cases "zn_stamp z (sd_next_fire_at s) = k") (simp_all add: recover_one_def arm_def sql_update_def Let_def)
qed

lemma rearmed_twice:
  "rearmed z nxt schedules ks (rearmed z nxt schedules {k} r) = rearmed z nxt schedules (insert k ks) r"
  by (auto simp: rearmed_def taken_def split: option.splits if_splits)

lemma recover_all:
  assumes "\<forall>s \<in> set schedules. next_after z cl (sd_recurrence s) now = Some (nxt s)"
  shows "\<exists>db'. fold_opt (recover_one z cl now schedules) ks db = Some db' \<and>
    db_schedules db' = map (rearmed z nxt schedules (set ks)) (db_schedules db)"
proof (induction ks arbitrary: db)
  case Nil
  have "rearmed z nxt schedules {} r = r" for r by (simp add: rearmed_def taken_def split: option.split)
  then show ?case by (simp add: map_idI)
next
  case (Cons k ks)
  obtain db1 where db1: "recover_one z cl now schedules k db = Some db1"
      "db_schedules db1 = map (rearmed z nxt schedules {k}) (db_schedules db)"
    using recover_one_rows [OF assms, of "fst k" "snd k" db] by auto
  obtain db2 where "fold_opt (recover_one z cl now schedules) ks db1 = Some db2"
      "db_schedules db2 = map (rearmed z nxt schedules (set ks)) (db_schedules db1)"
    using Cons.IH by blast
  then show ?case using db1 by (simp add: rearmed_twice case_prod_beta)
qed

lemma listed_image:
  assumes "db_schedules db' = map f (db_schedules db)"
    "\<And>r. r \<in> set (db_schedules db) \<Longrightarrow> row_to_schedule z cl (f r) = map_option g (row_to_schedule z cl r)"
  shows "set (schedule_list z cl db') = g ` set (schedule_list z cl db)"
proof (rule set_eqI)
  fix s
  have "s \<in> set (schedule_list z cl db') \<longleftrightarrow>
      (\<exists>r \<in> set (db_schedules db). map_option g (row_to_schedule z cl r) = Some s)"
    using assms by (simp add: in_schedule_list)
  also have "\<dots> \<longleftrightarrow> (\<exists>x \<in> set (schedule_list z cl db). s = g x)"
    unfolding map_option_eq_Some Bex_def in_schedule_list by metis
  finally show "s \<in> set (schedule_list z cl db') \<longleftrightarrow> s \<in> g ` set (schedule_list z cl db)"
    unfolding image_iff .
qed

text \<open>
  C27: A restart ends, counts the fires that were going, and leaves none of them open in the history;
  a schedule whose armed occurrence was among them is armed for later than now, and every other
  schedule stays as it was.
\<close>

theorem restart_moves_interrupted_on:
  assumes "zone_ok z" "cron_ok cl" "distinct (map sr_id (db_schedules db))"
  shows "\<exists>db' nxt. recover_interrupted z cl now db = Some (length (interrupted_runs db), db') \<and>
    interrupted_runs db' = [] \<and>
    set (schedule_list z cl db') =
      (\<lambda>s. if (sd_id s, zn_stamp z (sd_next_fire_at s)) \<in> set (interrupted_runs db)
           then s\<lparr>sd_next_fire_at := nxt s\<rparr> else s) ` set (schedule_list z cl db) \<and>
    (\<forall>s \<in> set (schedule_list z cl db). next_after z cl (sd_recurrence s) now = Some (nxt s) \<and> now < nxt s)"
proof -
  let ?l = "schedule_list z cl db" and ?ks = "interrupted_runs db"
  define nxt where "nxt s = the (next_after z cl (sd_recurrence s) now)" for s :: schedule
  have later: "next_after z cl (sd_recurrence s) now = Some (nxt s) \<and> now < nxt s" if "s \<in> set ?l" for s
  proof -
    have "recurrence_ok (sd_recurrence s)" using listed_ok that by blast
    then obtain n where "next_after z cl (sd_recurrence s) now = Some n" "now < n"
      using next_after_ok [OF assms(1,2)] by blast
    then show ?thesis by (simp add: nxt_def)
  qed
  then have "\<forall>s \<in> set ?l. next_after z cl (sd_recurrence s) now = Some (nxt s)" by blast
  from recover_all [OF this, of ?ks db] obtain db' where db':
      "fold_opt (recover_one z cl now ?l) ?ks db = Some db'"
      "db_schedules db' = map (rearmed z nxt ?l (set ?ks)) (db_schedules db)"
    by blast
  then have rec: "recover_interrupted z cl now db = Some (length ?ks, db')"
    by (simp add: recover_interrupted_def Let_def)
  have "k \<notin> open_runs (db_runs db')" for k using recover_effect(2) [OF rec] by (simp add: open_keys_def)
  then have "interrupted_runs db' = []"
    unfolding in_open_runs interrupted_runs_def filter_empty_conv map_is_Nil_conv by blast
  moreover have "set (schedule_list z cl db') =
      (\<lambda>s. if (sd_id s, zn_stamp z (sd_next_fire_at s)) \<in> set ?ks then s\<lparr>sd_next_fire_at := nxt s\<rparr> else s) ` set ?l"
  proof -
    let ?move = "\<lambda>s. if (sd_id s, zn_stamp z (sd_next_fire_at s)) \<in> set ?ks then s\<lparr>sd_next_fire_at := nxt s\<rparr> else s"
    have "row_to_schedule z cl (rearmed z nxt ?l (set ?ks) r) = map_option ?move (row_to_schedule z cl r)"
      if "r \<in> set (db_schedules db)" for r
    proof (cases "row_to_schedule z cl r")
      case None
      have "sd_id s \<noteq> sr_id r" if l: "s \<in> set ?l" for s
      proof
        assume same: "sd_id s = sr_id r"
        obtain r' where r': "r' \<in> set (db_schedules db)" "row_to_schedule z cl r' = Some s"
          using l by (auto simp: in_schedule_list)
        then have "sr_id r' = sr_id r" using same row_to_schedule_fields(1) by metis
        then have "r' = r" using assms(3) r'(1) \<open>r \<in> set (db_schedules db)\<close> by (simp add: distinct_map inj_on_def)
        then show False using None r'(2) by simp
      qed
      then have "List.find (\<lambda>s. sd_id s = sr_id r) ?l = None" by (auto simp: find_None_iff)
      then show ?thesis using None by (simp add: rearmed_def taken_def)
    next
      case (Some s)
      then have s: "s \<in> set ?l" "sd_id s = sr_id r"
        using that by (auto simp: in_schedule_list row_to_schedule_fields(1))
      have "List.find (\<lambda>x. sd_id x = sr_id r) ?l = Some s"
        using find_by_id [OF distinct_listed_ids [OF assms(3)] s(1)] s(2) by simp
      then have "taken z ?l (set ?ks) r = (if (sd_id s, zn_stamp z (sd_next_fire_at s)) \<in> set ?ks then Some s else None)"
        by (simp add: taken_def s(2))
      moreover have "row_to_schedule z cl (r\<lparr>sr_next_fire_at := zn_stamp z u\<rparr>) = Some (s\<lparr>sd_next_fire_at := u\<rparr>)" for u
        using Some zone_okD(6) [OF assms(1)] by (auto simp: row_to_schedule_def split: option.splits)
      ultimately show ?thesis using Some by (simp add: rearmed_def)
    qed
    then show ?thesis by (rule listed_image [OF db'(2)])
  qed
  ultimately show ?thesis using rec later by blast
qed

text \<open>The process ends while the run of five minutes past the epoch is going, and starts again later.\<close>

definition sample_claimed :: schedule_db where
  "sample_claimed = snd (begin_fire sample_zone (sd_id sample_schedule) (300 * sec) sample_db)"

theorem restart_moves_interrupted_on_witness:
  "\<exists>db' t. recover_interrupted sample_zone sample_cron (400 * sec) sample_claimed = Some (1, db') \<and>
     interrupted_runs db' = [] \<and> 400 * sec < t \<and>
     set (schedule_list sample_zone sample_cron db') = {sample_schedule\<lparr>sd_next_fire_at := t\<rparr>}"
proof -
  have list: "schedule_list sample_zone sample_cron sample_claimed = [sample_schedule]"
    using sample_listed by (simp add: sample_claimed_def begin_fire_def sample_db_def schedule_list_def)
  have open_run: "interrupted_runs sample_claimed = [(sd_id sample_schedule, zn_stamp sample_zone (sd_next_fire_at sample_schedule))]"
    by (simp add: sample_claimed_def begin_fire_def sample_db_def interrupted_runs_def sample_schedule_def)
  have "distinct (map sr_id (db_schedules sample_claimed))"
    by (simp add: sample_claimed_def begin_fire_def sample_db_def)
  from restart_moves_interrupted_on [OF sample_zone_ok sample_cron_ok this, of "400 * sec"]
  show ?thesis unfolding list open_run by auto
qed

end
